(* ===== verification/Prelude.thy ===== *)
theory Prelude
  imports Main "HOL-Library.Word" "HOL-Library.AList"
begin

text \<open>
  Shared vocabulary of the development.

  Go values are represented as follows: a \<^verbatim>\<open>byte\<close> is an \<open>8 word\<close>, a \<^verbatim>\<open>[]byte\<close> a list
  of them, a \<^verbatim>\<open>string\<close> a HOL \<open>string\<close> (both are sequences of bytes: HOL's
  \<open>char\<close> has 256 values), and signed Go integers are HOL integers whose conversions to and
  from their machine representation (\<open>uint64\<close>, \<open>int64\<close>, \<dots>) are written out where the
  source converts. Arithmetic that the source performs at a fixed width and that can
  wrap (the frame sizes of the wire protocol) is done on \<open>32 word\<close>.

  The theory holds those representations with their conversion laws, the big-endian integer
  codec used by every on-disk and on-wire format, the error values of the Go code, and the
  generic lemmas on lists and association lists that several components use.
\<close>

named_theorems go_simps \<open>definitions that evaluate the modelled Go operations\<close>
named_theorems codec_simps \<open>decoding of what an encoder produced\<close>

section \<open>Bytes and strings\<close>

type_synonym byte = "8 word"
type_synonym bytes = "byte list"

text \<open>The conversions \<^verbatim>\<open>[]byte(s)\<close> and \<^verbatim>\<open>string(b)\<close>.\<close>

definition bytes_of :: "string \<Rightarrow> bytes" where
  "bytes_of s = map (\<lambda>c. word_of_nat (of_char c)) s"

definition string_of :: "bytes \<Rightarrow> string" where
  "string_of bs = map (\<lambda>b. char_of (unat b)) bs"

lemma length_bytes_of [simp]: "length (bytes_of s) = length s"
  by (simp add: bytes_of_def)

lemma length_string_of [simp]: "length (string_of bs) = length bs"
  by (simp add: string_of_def)

lemma string_of_bytes_of [simp, codec_simps]: "string_of (bytes_of s) = s"
proof -
  have "char_of (unat (word_of_nat (of_char c) :: byte)) = c" for c
    by (simp add: unat_of_nat take_bit_eq_mod [symmetric])
  then show ?thesis
    by (simp add: string_of_def bytes_of_def comp_def)
qed

lemma bytes_of_string_of [simp]: "bytes_of (string_of bs) = bs"
proof -
  have "(word_of_nat (of_char (char_of (unat b) :: char)) :: byte) = b" for b
    by (simp add: unsigned_less [of b, simplified] mod_less)
  then show ?thesis
    by (simp add: string_of_def bytes_of_def comp_def)
qed

lemma bytes_of_append: "bytes_of (s @ t) = bytes_of s @ bytes_of t"
  by (simp add: bytes_of_def)

lemma bytes_of_Nil [simp]: "bytes_of [] = []"
  by (simp add: bytes_of_def)

lemma take_bytes_of [simp]: "take n (bytes_of s) = bytes_of (take n s)"
  and drop_bytes_of [simp]: "drop n (bytes_of s) = bytes_of (drop n s)"
  by (simp_all add: bytes_of_def take_map drop_map)

lemma bytes_of_inject [simp]: "bytes_of s = bytes_of t \<longleftrightarrow> s = t"
  by (metis string_of_bytes_of)

section \<open>Machine integers\<close>

text \<open>The unsigned conversions \<^verbatim>\<open>uint16(n)\<close>, \<^verbatim>\<open>uint32(n)\<close>, \<^verbatim>\<open>uint64(n)\<close> keep the low bits;
  the signed conversions read them as two's complement.\<close>

definition uint16 :: "nat \<Rightarrow> nat" where
  "uint16 n = n mod 2 ^ 16"

definition uint32 :: "nat \<Rightarrow> nat" where
  "uint32 n = n mod 2 ^ 32"

definition uint32_of_int :: "int \<Rightarrow> nat" where
  "uint32_of_int x = nat (x mod 2 ^ 32)"

definition uint64_of_int :: "int \<Rightarrow> nat" where
  "uint64_of_int x = nat (x mod 2 ^ 64)"

definition int32 :: "int \<Rightarrow> int" where
  "int32 x = signed_take_bit 31 x"

definition int64 :: "int \<Rightarrow> int" where
  "int64 x = signed_take_bit 63 x"

text \<open>The ranges of Go's \<^verbatim>\<open>int32\<close> and \<^verbatim>\<open>int64\<close>.\<close>

definition in_int32 :: "int \<Rightarrow> bool" where
  "in_int32 x \<longleftrightarrow> - (2 ^ 31) \<le> x \<and> x < 2 ^ 31"

definition in_int64 :: "int \<Rightarrow> bool" where
  "in_int64 x \<longleftrightarrow> - (2 ^ 63) \<le> x \<and> x < 2 ^ 63"

lemma uint16_small [simp, codec_simps]: "n < 65536 \<Longrightarrow> uint16 n = n"
  by (simp add: uint16_def)

lemma uint32_small [simp, codec_simps]: "n < 4294967296 \<Longrightarrow> uint32 n = n"
  by (simp add: uint32_def)

lemma uint32_of_int_less: "uint32_of_int x < 2 ^ 32"
  using pos_mod_bound [of "2 ^ 32" x] by (simp add: uint32_of_int_def nat_less_iff)

lemma uint64_of_int_less: "uint64_of_int x < 2 ^ 64"
  using pos_mod_bound [of "2 ^ 64" x] by (simp add: uint64_of_int_def nat_less_iff)

lemma int32_id: "in_int32 x \<Longrightarrow> int32 x = x"
  unfolding in_int32_def int32_def by (intro signed_take_bit_int_eq_self) auto

lemma int64_id: "in_int64 x \<Longrightarrow> int64 x = x"
  unfolding in_int64_def int64_def by (intro signed_take_bit_int_eq_self) auto

lemma int32_range: "in_int32 (int32 x)"
  using signed_take_bit_int_greater_eq_minus_exp [of 31 x] signed_take_bit_int_less_exp [of 31 x]
  by (simp add: in_int32_def int32_def)

lemma int64_range: "in_int64 (int64 x)"
  using signed_take_bit_int_greater_eq_minus_exp [of 63 x] signed_take_bit_int_less_exp [of 63 x]
  by (simp add: in_int64_def int64_def)

lemma int32_uint32 [simp, codec_simps]: "in_int32 x \<Longrightarrow> int32 (int (uint32_of_int x)) = x"
proof -
  assume "in_int32 x"
  have "int32 (int (uint32_of_int x)) = signed_take_bit 31 (take_bit 32 x)"
    by (simp add: int32_def uint32_of_int_def take_bit_eq_mod)
  also have "\<dots> = int32 x" by (simp add: int32_def signed_take_bit_take_bit)
  finally show ?thesis using \<open>in_int32 x\<close> by (simp add: int32_id)
qed

lemma int64_uint64 [simp, codec_simps]: "in_int64 x \<Longrightarrow> int64 (int (uint64_of_int x)) = x"
proof -
  assume "in_int64 x"
  have "int64 (int (uint64_of_int x)) = signed_take_bit 63 (take_bit 64 x)"
    by (simp add: int64_def uint64_of_int_def take_bit_eq_mod)
  also have "\<dots> = int64 x" by (simp add: int64_def signed_take_bit_take_bit)
  finally show ?thesis using \<open>in_int64 x\<close> by (simp add: int64_id)
qed

section \<open>Big-endian integers\<close>

text \<open>\<open>be_enc k v\<close> are the \<open>k\<close> low-order bytes of \<open>v\<close>, most significant first, as
  \<^verbatim>\<open>binary.BigEndian.PutUint16/32/64\<close> store them; \<open>be_dec\<close> is \<^verbatim>\<open>binary.BigEndian.Uint16/32/64\<close>.\<close>

primrec be_enc :: "nat \<Rightarrow> nat \<Rightarrow> bytes" where
  "be_enc 0 v = []"
| "be_enc (Suc k) v = word_of_nat (v div 256 ^ k) # be_enc k v"

definition be_dec :: "bytes \<Rightarrow> nat" where
  "be_dec bs = foldl (\<lambda>a b. a * 256 + unat b) 0 bs"

lemma length_be_enc [simp]: "length (be_enc k v) = k"
  by (induction k) auto

lemma be_enc_eq_Nil [simp]: "be_enc k v = [] \<longleftrightarrow> k = 0"
  using length_be_enc [of k v] by (metis length_0_conv)

text \<open>Unfolds an encoding of a concrete width, for evaluation.\<close>

lemma be_enc_numeral [go_simps]:
  "be_enc (numeral n) v = word_of_nat (v div 256 ^ pred_numeral n) # be_enc (pred_numeral n) v"
  by (simp only: numeral_eq_Suc be_enc.simps)

lemma foldl_be_enc:
  "foldl (\<lambda>a b. a * 256 + unat b) a (be_enc k v) = a * 256 ^ k + v mod 256 ^ k"
proof (induction k arbitrary: a)
  case 0
  then show ?case by simp
next
  case (Suc k)
  have "v mod 256 ^ Suc k = 256 ^ k * (v div 256 ^ k mod 256) + v mod 256 ^ k"
    by (simp only: power_Suc2 mod_mult2_eq)
  then show ?case
    by (simp add: Suc.IH unat_of_nat) (simp add: algebra_simps)
qed

lemma be_dec_be_enc: "be_dec (be_enc k v) = v mod 256 ^ k"
  by (simp add: be_dec_def foldl_be_enc)

lemma be_dec_enc2 [simp, codec_simps]: "v < 65536 \<Longrightarrow> be_dec (be_enc 2 v) = v"
  by (simp add: be_dec_be_enc)

lemma be_dec_enc4 [simp, codec_simps]: "v < 4294967296 \<Longrightarrow> be_dec (be_enc 4 v) = v"
  by (simp add: be_dec_be_enc)

lemma be_dec_enc8 [simp, codec_simps]: "v < 18446744073709551616 \<Longrightarrow> be_dec (be_enc 8 v) = v"
  by (simp add: be_dec_be_enc)

section \<open>Errors\<close>

text \<open>The errors the modelled code tells apart: the two sentinel values of package
  \<^verbatim>\<open>io\<close> and errors that are only passed on or printed.\<close>

datatype go_error = EOF | ErrUnexpectedEOF | Err string

fun error_text :: "go_error \<Rightarrow> string" where
  "error_text EOF = ''EOF''"
| "error_text ErrUnexpectedEOF = ''unexpected EOF''"
| "error_text (Err m) = m"

text \<open>What may fail in the file system is an argument of the operations: a write that stores only its first \<open>n\<close> bytes,
  or a call that fails; \<open>None\<close> is success.\<close>

type_synonym write_fault = "(nat \<times> go_error) option"
type_synonym call_fault = "go_error option"

section \<open>Lists\<close>

lemma concat_map_take_Suc:
  "i < length xs \<Longrightarrow> concat (map f (take (Suc i) xs)) = concat (map f (take i xs)) @ f (xs ! i)"
  by (simp add: take_Suc_conv_app_nth)

lemma concat_map_split_nth:
  assumes "i < length xs"
  shows "concat (map f xs) =
     concat (map f (take i xs)) @ f (xs ! i) @ concat (map f (drop (Suc i) xs))"
proof -
  have "concat (map f xs) = concat (map f (take i xs @ xs ! i # drop (Suc i) xs))"
    by (simp only: id_take_nth_drop [OF assms, symmetric])
  then show ?thesis by simp
qed

lemma length_concat_map_take_mono:
  assumes "i \<le> j"
  shows "length (concat (map f (take i xs))) \<le> length (concat (map f (take j xs)))"
proof -
  have "take j xs = take i xs @ take (j - i) (drop i xs)"
    using take_add [of i "j - i" xs] assms by simp
  then show ?thesis by simp
qed

lemma map_add_idem: "f ++ f = f" "f ++ g ++ g = f ++ g"
  by (simp_all add: map_add_def fun_eq_iff split: option.split)

lemma set_update_subset: "set (AList.update k v al) \<subseteq> insert (k, v) (set al)"
  by (induction al) auto

section \<open>Timers\<close>

text \<open>\<^verbatim>\<open>time.NewTicker\<close> panics for an interval that is not positive.\<close>

definition NewTicker :: "int \<Rightarrow> unit option" where
  "NewTicker d = (if d \<le> 0 then None else Some ())"

lemma NewTicker_positive [simp]: "0 < d \<Longrightarrow> NewTicker d = Some ()"
  by (simp add: NewTicker_def)

end
