(* ===== verification/Go_IO.thy ===== *)
theory Go_IO
  imports Prelude
begin

text \<open>
  The parts of packages \<^verbatim>\<open>io\<close> and \<^verbatim>\<open>encoding/binary\<close> that the protocol code uses.

  An \<^verbatim>\<open>io.Writer\<close> is an interface: a function that takes the bytes to write and a state and
  returns an optional error and the new state. Its contract is the locale \<open>io_writer\<close>,
  interpreted on a growing buffer (\<^verbatim>\<open>bytes.Buffer\<close>, which never fails) and on a connection that
  accepts a bounded number of bytes before it breaks. An \<^verbatim>\<open>io.Reader\<close> is the bytes that will
  still arrive and the error that follows them.

  The early-return idiom \<^verbatim>\<open>if err := m; err != nil { return err }\<close> is \<open>chk\<close> on writers and
  \<open>rbind\<close> on readers; \<open>ign\<close> and \<open>rtry\<close> are the places where the source drops
  or inspects an error instead. The locale \<open>wire_codec\<close> is the contract between an encoder and the
  decoder that has to read what it wrote.
\<close>

section \<open>Writers\<close>

type_synonym 's write_op = "'s \<Rightarrow> go_error option \<times> 's"
type_synonym 's writer = "bytes \<Rightarrow> 's write_op"

definition wnil :: "'s write_op" where
  "wnil s = (None, s)"

definition chk :: "'s write_op \<Rightarrow> 's write_op \<Rightarrow> 's write_op" where
  "chk m k s = (case m s of (Some e, s') \<Rightarrow> (Some e, s') | (None, s') \<Rightarrow> k s')"

definition ign :: "'s write_op \<Rightarrow> 's write_op \<Rightarrow> 's write_op" where
  "ign m k s = k (snd (m s))"

text \<open>\<^verbatim>\<open>binary.Write(w, binary.BigEndian, v)\<close> for the fixed-size integers the code writes, each
  one a single \<^verbatim>\<open>Write\<close> of its big-endian bytes.\<close>

definition binary_Write_uint16 :: "'s writer \<Rightarrow> nat \<Rightarrow> 's write_op" where
  "binary_Write_uint16 w n = w (be_enc 2 n)"

definition binary_Write_uint32 :: "'s writer \<Rightarrow> nat \<Rightarrow> 's write_op" where
  "binary_Write_uint32 w n = w (be_enc 4 n)"

definition binary_Write_int32 :: "'s writer \<Rightarrow> int \<Rightarrow> 's write_op" where
  "binary_Write_int32 w x = w (be_enc 4 (uint32_of_int x))"

definition binary_Write_int64 :: "'s writer \<Rightarrow> int \<Rightarrow> 's write_op" where
  "binary_Write_int64 w x = w (be_enc 8 (uint64_of_int x))"

lemmas binary_Write_defs =
  binary_Write_uint16_def binary_Write_uint32_def binary_Write_int32_def binary_Write_int64_def

text \<open>A write operation \<open>emits\<close> a byte string when, whatever the state, returning no error
  means that exactly these bytes were appended to what the writer had sent before.\<close>

locale io_writer =
  fixes w :: "'s writer"
    and sent :: "'s \<Rightarrow> bytes"
  assumes write_ok: "w bs s = (None, s') \<Longrightarrow> sent s' = sent s @ bs"
begin

definition emits :: "'s write_op \<Rightarrow> bytes \<Rightarrow> bool" where
  "emits m bs \<longleftrightarrow> (\<forall>s s'. m s = (None, s') \<longrightarrow> sent s' = sent s @ bs)"

lemma emits_write: "emits (w bs) bs"
  by (auto simp: emits_def dest: write_ok)

lemma emits_nil: "emits wnil []"
  by (simp add: emits_def wnil_def)

lemma emits_chk: "emits m bs \<Longrightarrow> emits k cs \<Longrightarrow> emits (chk m k) (bs @ cs)"
  by (fastforce simp: emits_def chk_def split: prod.splits option.splits)

lemmas emits_intros = emits_write emits_nil emits_chk

lemma emits_eq: "emits m bs \<Longrightarrow> bs = cs \<Longrightarrow> emits m cs"
  by simp

lemma emitsD: "emits m bs \<Longrightarrow> m s = (None, s') \<Longrightarrow> sent s' = sent s @ bs"
  by (simp add: emits_def)

end

text \<open>A stream connection that has failed once accepts nothing more. Then a write whose error is
  dropped is caught by the next write that is checked.\<close>

locale sticky_writer = io_writer +
  fixes broken :: "'a \<Rightarrow> bool"
  assumes fail_breaks: "w bs s = (Some e, s') \<Longrightarrow> broken s'"
    and broken_fails: "broken s \<Longrightarrow> bs \<noteq> [] \<Longrightarrow> fst (w bs s) \<noteq> None"
begin

lemma emits_ign_chk:
  assumes "emits k cs" and "bs \<noteq> []"
  shows "emits (ign (w as) (chk (w bs) k)) (as @ bs @ cs)"
  unfolding emits_def
proof (intro allI impI)
  fix s s' assume run: "ign (w as) (chk (w bs) k) s = (None, s')"
  obtain r1 s1 where 1: "w as s = (r1, s1)" by fastforce
  obtain r2 s2 where 2: "w bs s1 = (r2, s2)" by fastforce
  from run 1 2 have "r2 = None" and k: "k s2 = (None, s')"
    by (auto simp: ign_def chk_def split: option.splits)
  with 2 have "\<not> broken s1" using broken_fails [OF _ assms(2), of s1] by auto
  with 1 have "r1 = None" using fail_breaks [of as s] by (cases r1) auto
  with 1 2 \<open>r2 = None\<close> have "sent s1 = sent s @ as" and "sent s2 = sent s1 @ bs"
    by (auto intro: write_ok)
  then show "sent s' = sent s @ as @ bs @ cs"
    using emitsD [OF assms(1) k] by simp
qed

end

text \<open>\<^verbatim>\<open>bytes.Buffer\<close>: writing appends and returns \<^verbatim>\<open>nil\<close>.\<close>

definition buffer_write :: "bytes writer" where
  "buffer_write bs buf = (None, buf @ bs)"

interpretation buffer: sticky_writer buffer_write "\<lambda>buf. buf" "\<lambda>_. False"
  by unfold_locales (simp_all add: buffer_write_def)

text \<open>A connection whose peer goes away: it takes what fits and fails from then on.\<close>

record conn =
  conn_sent :: bytes
  conn_room :: nat

definition conn_write :: "conn writer" where
  "conn_write bs c =
     (let n = min (length bs) (conn_room c);
          c' = c\<lparr>conn_sent := conn_sent c @ take n bs, conn_room := conn_room c - n\<rparr>
      in (if n < length bs then Some (Err ''write: broken pipe'') else None, c'))"

interpretation conn: sticky_writer conn_write conn_sent "\<lambda>c. conn_room c = 0"
  by unfold_locales (auto simp: conn_write_def Let_def split: if_splits)

lemma conn_write_fits:
  "length bs \<le> conn_room c \<Longrightarrow> conn_write bs c =
     (None, c\<lparr>conn_sent := conn_sent c @ bs, conn_room := conn_room c - length bs\<rparr>)"
  by (simp add: conn_write_def Let_def)

lemma conn_write_short:
  "conn_room c < length bs \<Longrightarrow> conn_write bs c =
     (Some (Err ''write: broken pipe''),
      c\<lparr>conn_sent := conn_sent c @ take (conn_room c) bs, conn_room := 0\<rparr>)"
  by (simp add: conn_write_def Let_def)

section \<open>Readers\<close>

datatype reader = Reader (rbuf: bytes) (rerr: go_error)

type_synonym 'a read_op = "reader \<Rightarrow> (go_error + 'a) \<times> reader"

definition rret :: "'a \<Rightarrow> 'a read_op" where
  "rret x r = (Inr x, r)"

definition rfail :: "go_error \<Rightarrow> 'a read_op" where
  "rfail e r = (Inl e, r)"

definition rbind :: "'a read_op \<Rightarrow> ('a \<Rightarrow> 'b read_op) \<Rightarrow> 'b read_op" where
  "rbind m f r = (case m r of (Inl e, r') \<Rightarrow> (Inl e, r') | (Inr x, r') \<Rightarrow> f x r')"

definition rtry :: "'a read_op \<Rightarrow> (go_error + 'a \<Rightarrow> 'b read_op) \<Rightarrow> 'b read_op" where
  "rtry m f r = f (fst (m r)) (snd (m r))"

text \<open>\<^verbatim>\<open>io.ReadFull\<close>: all \<open>n\<close> bytes, or the reader's error; an end of file after some bytes is
  \<^verbatim>\<open>io.ErrUnexpectedEOF\<close>. A short read consumes what was there.\<close>

fun ReadFull :: "nat \<Rightarrow> bytes read_op" where
  "ReadFull n (Reader bs e) =
     (if n \<le> length bs then (Inr (take n bs), Reader (drop n bs) e)
      else (Inl (if bs \<noteq> [] \<and> e = EOF then ErrUnexpectedEOF else e), Reader [] e))"

definition binary_Read_uint16 :: "nat read_op" where
  "binary_Read_uint16 = rbind (ReadFull 2) (\<lambda>b. rret (be_dec b))"

definition binary_Read_uint32 :: "nat read_op" where
  "binary_Read_uint32 = rbind (ReadFull 4) (\<lambda>b. rret (be_dec b))"

definition binary_Read_int32 :: "int read_op" where
  "binary_Read_int32 = rbind (ReadFull 4) (\<lambda>b. rret (int32 (int (be_dec b))))"

definition binary_Read_int64 :: "int read_op" where
  "binary_Read_int64 = rbind (ReadFull 8) (\<lambda>b. rret (int64 (int (be_dec b))))"

lemmas rd_defs = rbind_def rret_def rfail_def rtry_def

text \<open>The read loops \<^verbatim>\<open>for i := 0; i < n; i++ { x, err := read(r); \<dots> }\<close>.\<close>

primrec read_n :: "nat \<Rightarrow> 'a read_op \<Rightarrow> 'a list read_op" where
  "read_n 0 m = rret []"
| "read_n (Suc n) m = rbind m (\<lambda>x. rbind (read_n n m) (\<lambda>xs. rret (x # xs)))"

section \<open>Encoders and their decoders\<close>

locale wire_codec =
  fixes enc :: "'a \<Rightarrow> bytes"
    and dec :: "'a read_op"
    and wf :: "'a \<Rightarrow> bool"
  assumes dec_enc: "wf x \<Longrightarrow> dec (Reader (enc x @ rest) e) = (Inr x, Reader rest e)"
begin

text \<open>A decoder that inverts single items inverts a counted sequence of them.\<close>

lemma read_n_enc:
  assumes "list_all wf xs" and "n = length xs"
  shows "read_n n dec (Reader (concat (map enc xs) @ rest) e) = (Inr xs, Reader rest e)"
  using assms
  by (induction xs arbitrary: n) (auto simp: rd_defs dec_enc)

text \<open>No two well-formed items have the same encoding, even with something after them.\<close>

lemma enc_prefix_free:
  assumes "wf x" and "wf y" and "enc x @ s = enc y @ t"
  shows "x = y \<and> s = t"
proof -
  have "dec (Reader (enc x @ s) EOF) = dec (Reader (enc y @ t) EOF)"
    by (simp only: assms(3))
  then show ?thesis
    by (simp add: dec_enc assms(1,2))
qed

end

interpretation u16: wire_codec "be_enc 2" binary_Read_uint16 "\<lambda>n. n < 65536"
  by unfold_locales (simp add: binary_Read_uint16_def rd_defs)

interpretation u32: wire_codec "be_enc 4" binary_Read_uint32 "\<lambda>n. n < 4294967296"
  by unfold_locales (simp add: binary_Read_uint32_def rd_defs)

interpretation i32: wire_codec "\<lambda>x. be_enc 4 (uint32_of_int x)" binary_Read_int32 in_int32
  using uint32_of_int_less by unfold_locales (simp add: binary_Read_int32_def rd_defs)

interpretation i64: wire_codec "\<lambda>x. be_enc 8 (uint64_of_int x)" binary_Read_int64 in_int64
  using uint64_of_int_less by unfold_locales (simp add: binary_Read_int64_def rd_defs)

text \<open>A byte slice behind a \<^verbatim>\<open>uint32\<close> length.\<close>

definition read_bytes32 :: "bytes read_op" where
  "read_bytes32 = rbind binary_Read_uint32 (\<lambda>n. ReadFull n)"

interpretation b32: wire_codec "\<lambda>b. be_enc 4 (uint32 (length b)) @ b" read_bytes32
  "\<lambda>b. length b < 4294967296"
  by unfold_locales (simp add: read_bytes32_def rbind_def u32.dec_enc)

lemmas codec_dec [codec_simps] =
  u16.dec_enc u32.dec_enc i32.dec_enc i64.dec_enc b32.dec_enc

section \<open>What a successful read can return\<close>

definition yields :: "('a \<Rightarrow> bool) \<Rightarrow> 'a read_op \<Rightarrow> bool" where
  "yields P m \<longleftrightarrow> (\<forall>r x r'. m r = (Inr x, r') \<longrightarrow> P x)"

named_theorems yields_intros \<open>postconditions of successful reads\<close>

lemma yieldsD: "yields P m \<Longrightarrow> m r = (Inr x, r') \<Longrightarrow> P x"
  by (auto simp: yields_def)

lemma yields_ret [yields_intros]: "P x \<Longrightarrow> yields P (rret x)"
  by (simp add: yields_def rret_def)

lemma yields_fail [yields_intros]: "yields P (rfail e)"
  by (simp add: yields_def rfail_def)

lemma yields_bind:
  "yields P m \<Longrightarrow> (\<And>x. P x \<Longrightarrow> yields Q (f x)) \<Longrightarrow> yields Q (rbind m f)"
  by (fastforce simp: yields_def rbind_def split: prod.splits sum.splits)

lemma yields_try:
  assumes "yields P m" and "\<And>e. yields Q (f (Inl e))" and "\<And>x. P x \<Longrightarrow> yields Q (f (Inr x))"
  shows "yields Q (rtry m f)"
  unfolding yields_def rtry_def
proof (intro allI impI)
  fix r x r' assume run: "f (fst (m r)) (snd (m r)) = (Inr x, r')"
  show "Q x"
  proof (cases "fst (m r)")
    case (Inl e)
    with run assms(2) [of e] show ?thesis by (auto dest: yieldsD)
  next
    case (Inr y)
    then have "P y" using assms(1) by (metis prod.collapse yieldsD)
    with Inr run assms(3) [of y] show ?thesis by (auto dest: yieldsD)
  qed
qed

lemma yields_ReadFull: "yields (\<lambda>b. length b = n) (ReadFull n)"
  unfolding yields_def
proof (intro allI impI)
  fix r b r' assume "ReadFull n r = (Inr b, r')"
  then show "length b = n" by (cases r) (auto split: if_splits)
qed

lemma be_dec_bound: "be_dec b < 256 ^ length b"
proof -
  have "foldl (\<lambda>a b. a * 256 + unat b) a bs < (a + 1) * 256 ^ length bs" for a and bs :: bytes
  proof (induction bs arbitrary: a)
    case Nil
    then show ?case by simp
  next
    case (Cons x xs)
    have "foldl (\<lambda>a b. a * 256 + unat b) (a * 256 + unat x) xs
            < (a * 256 + unat x + 1) * 256 ^ length xs" by (rule Cons.IH)
    also have "\<dots> \<le> (a + 1) * 256 * 256 ^ length xs"
      using unsigned_less [where ?'b = 8 and ?'a = nat, of x] by (intro mult_le_mono1) simp
    finally show ?case by (simp add: algebra_simps)
  qed
  from this [of 0 b] show ?thesis by (simp add: be_dec_def)
qed

lemma yields_be_dec:
  assumes "\<And>n. n < 256 ^ k \<Longrightarrow> P (f n)"
  shows "yields P (rbind (ReadFull k) (\<lambda>b. rret (f (be_dec b))))"
proof (rule yields_bind [OF yields_ReadFull], rule yields_ret)
  fix b :: bytes assume "length b = k"
  with be_dec_bound [of b] show "P (f (be_dec b))" using assms by simp
qed

lemma yields_ints:
  "yields (\<lambda>n. n < 65536) binary_Read_uint16"
  "yields (\<lambda>n. n < 4294967296) binary_Read_uint32"
  "yields in_int32 binary_Read_int32"
  "yields in_int64 binary_Read_int64"
  unfolding binary_Read_uint16_def binary_Read_uint32_def binary_Read_int32_def binary_Read_int64_def
  by (rule yields_be_dec, simp add: int32_range int64_range)+

lemma yields_read_n:
  assumes "yields P m"
  shows "yields (\<lambda>xs. length xs = n \<and> list_all P xs) (read_n n m)"
proof (induction n)
  case 0
  show ?case by (simp add: yields_ret)
next
  case (Suc n)
  show ?case
    unfolding read_n.simps
    by (rule yields_bind [OF assms], rule yields_bind [OF Suc.IH], rule yields_ret) simp
qed

section \<open>Reading never puts bytes back\<close>

definition shrinks :: "'a read_op \<Rightarrow> bool" where
  "shrinks m \<longleftrightarrow> (\<forall>r. length (rbuf (snd (m r))) \<le> length (rbuf r))"

named_theorems shrinks_intros \<open>readers that only consume\<close>

lemma shrinks_basic [shrinks_intros]: "shrinks (rret x)" "shrinks (rfail e)"
  by (simp_all add: shrinks_def rret_def rfail_def)

lemma shrinks_ReadFull [shrinks_intros]: "shrinks (ReadFull n)"
  unfolding shrinks_def
proof
  fix r show "length (rbuf (snd (ReadFull n r))) \<le> length (rbuf r)" by (cases r) simp
qed

lemma shrinks_bind [shrinks_intros]:
  assumes "shrinks m" "\<And>x. shrinks (f x)"
  shows "shrinks (rbind m f)"
  unfolding shrinks_def
proof
  fix r
  show "length (rbuf (snd (rbind m f r))) \<le> length (rbuf r)"
    using assms unfolding shrinks_def rbind_def
    by (auto split: prod.split sum.split) (metis order_trans snd_conv)+
qed

lemma shrinks_try [shrinks_intros]:
  assumes "shrinks m" "\<And>x. shrinks (f x)"
  shows "shrinks (rtry m f)"
  using assms unfolding shrinks_def rtry_def by (meson order_trans)

lemma shrinks_read_n [shrinks_intros]: "shrinks m \<Longrightarrow> shrinks (read_n n m)"
  by (induction n) (auto intro!: shrinks_intros)

lemma shrinks_ints [shrinks_intros]:
  "shrinks binary_Read_uint16" "shrinks binary_Read_uint32" "shrinks binary_Read_int32" "shrinks binary_Read_int64"
  unfolding binary_Read_uint16_def binary_Read_uint32_def binary_Read_int32_def binary_Read_int64_def
  by (intro shrinks_intros)+

lemma shrinks_case [shrinks_intros]:
  "(\<And>e. shrinks (f e)) \<Longrightarrow> (\<And>x. shrinks (g x)) \<Longrightarrow> shrinks (case y of Inl e \<Rightarrow> f e | Inr x \<Rightarrow> g x)"
  "shrinks m \<Longrightarrow> shrinks k \<Longrightarrow> shrinks (if b then m else k)"
  by (simp_all split: sum.split)

end
