(* ===== verification/Wire_Request.thy ===== *)
theory Wire_Request
  imports Go_IO
begin

text \<open>
  The request half of \<^verbatim>\<open>internal/protocol/protocol.go\<close>: the request record, its size
  computation, the payload writers and \<^verbatim>\<open>WriteRequest\<close>, the payload readers and \<^verbatim>\<open>ReadRequest\<close>.

  The reference encoding \<open>request_body\<close> and \<open>request_frame\<close> states what the bytes of a frame are;
  the lemmas show that the writers produce it, that the readers invert it, how the
  length written in front of a frame relates to the length of the frame, and what the writers
  report when the connection breaks.
\<close>

section \<open>The request type\<close>

definition ReqProduce :: byte where "ReqProduce = 1"
definition ReqConsume :: byte where "ReqConsume = 2"
definition ReqJoinReplica :: byte where "ReqJoinReplica = 3"
definition ReqReplicate :: byte where "ReqReplicate = 4"
definition ReqOffsetCommit :: byte where "ReqOffsetCommit = 5"
definition ReqOffsetFetch :: byte where "ReqOffsetFetch = 6"
definition ReqJoinGroup :: byte where "ReqJoinGroup = 10"
definition ReqSyncGroup :: byte where "ReqSyncGroup = 11"
definition ReqAuthenticate :: byte where "ReqAuthenticate = 20"
definition ReqRegisterSchema :: byte where "ReqRegisterSchema = 30"

lemmas Req_defs [go_simps] = ReqProduce_def ReqConsume_def ReqJoinReplica_def ReqReplicate_def
  ReqOffsetCommit_def ReqOffsetFetch_def ReqJoinGroup_def ReqSyncGroup_def
  ReqAuthenticate_def ReqRegisterSchema_def

text \<open>\<open>rqProcessedIDs\<close> is an option because the broker tells a nil slice from an empty one.\<close>

record Request =
  rqType :: byte
  rqTopic :: string
  rqOffset :: int
  rqKey :: bytes
  rqValue :: bytes
  rqMaxBytes :: int
  rqGroupID :: string
  rqPartition :: int
  rqMemberID :: string
  rqTopics :: "string list"
  rqProducerID :: int
  rqSequenceNumber :: int
  rqMessageID :: string
  rqUsername :: string
  rqPassword :: string
  rqSuccess :: bool
  rqStartTime :: int
  rqEndTime :: int
  rqProcessedIDs :: "string list option"
  rqSchemaDef :: string

text \<open>The composite literal \<^verbatim>\<open>Request{Type: t, Topic: s}\<close>: every other field has its zero value.\<close>

definition new_request :: "byte \<Rightarrow> string \<Rightarrow> Request" where
  "new_request t s = \<lparr>rqType = t, rqTopic = s, rqOffset = 0, rqKey = [], rqValue = [],
     rqMaxBytes = 0, rqGroupID = [], rqPartition = 0, rqMemberID = [], rqTopics = [],
     rqProducerID = 0, rqSequenceNumber = 0, rqMessageID = [], rqUsername = [], rqPassword = [],
     rqSuccess = False, rqStartTime = 0, rqEndTime = 0, rqProcessedIDs = None, rqSchemaDef = []\<rparr>"

definition processed_ids :: "Request \<Rightarrow> string list" where
  "processed_ids req = (case rqProcessedIDs req of None \<Rightarrow> [] | Some ids \<Rightarrow> ids)"

section \<open>Writing requests\<close>

definition len32 :: "'a list \<Rightarrow> 32 word" where
  "len32 xs = word_of_nat (length xs)"

definition getRequestPayloadSize :: "Request \<Rightarrow> nat \<Rightarrow> 32 word" where
  "getRequestPayloadSize req topicLen =
     (if rqType req = ReqProduce then
        1 + 2 + word_of_nat topicLen + 8 + 4 + 4 + len32 (rqKey req) + 4 + len32 (rqValue req)
          + 2 + len32 (rqMessageID req)
      else if rqType req = ReqReplicate then
        1 + 2 + word_of_nat topicLen + 8 + 8 + 4 + 4 + len32 (rqKey req) + 4 + len32 (rqValue req)
      else if rqType req = ReqJoinReplica then 1 + 2 + word_of_nat topicLen
      else if rqType req = ReqOffsetCommit then
        1 + 2 + len32 (rqGroupID req) + 2 + word_of_nat topicLen + 4 + 8 + 1
      else if rqType req = ReqOffsetFetch then
        1 + 2 + len32 (rqGroupID req) + 2 + word_of_nat topicLen + 4
      else if rqType req = ReqJoinGroup then
        foldl (\<lambda>size t. size + 2 + len32 t)
          (1 + 2 + len32 (rqGroupID req) + 2 + len32 (rqMemberID req) + 2) (rqTopics req)
      else if rqType req = ReqSyncGroup then
        1 + 2 + len32 (rqGroupID req) + 2 + len32 (rqMemberID req)
      else if rqType req = ReqAuthenticate then
        1 + 2 + len32 (rqUsername req) + 2 + len32 (rqPassword req)
      else 1 + 2 + word_of_nat topicLen + 8 + 4)"

definition writeString16 :: "'s writer \<Rightarrow> string \<Rightarrow> 's write_op" where
  "writeString16 w s =
     (let b = bytes_of s in
      chk (binary_Write_uint16 w (uint16 (length b)))
          (w b))"

primrec writeStrings16 :: "'s writer \<Rightarrow> string list \<Rightarrow> 's write_op" where
  "writeStrings16 w [] = wnil"
| "writeStrings16 w (i # ids) = chk (writeString16 w i) (writeStrings16 w ids)"

definition writeProducePayload :: "'s writer \<Rightarrow> Request \<Rightarrow> 's write_op" where
  "writeProducePayload w req =
     chk (binary_Write_int64 w (rqProducerID req))
    (chk (binary_Write_int32 w (rqSequenceNumber req))
    (chk (binary_Write_uint32 w (uint32 (length (rqKey req))))
    (chk (w (rqKey req))
    (chk (binary_Write_uint32 w (uint32 (length (rqValue req))))
    (chk (w (rqValue req))
    (let msgBytes = bytes_of (rqMessageID req) in
     chk (binary_Write_uint16 w (uint16 (length msgBytes)))
         (w msgBytes)))))))"

definition writeConsumePayload :: "'s writer \<Rightarrow> int \<Rightarrow> int \<Rightarrow> int \<Rightarrow> int \<Rightarrow> 's write_op" where
  "writeConsumePayload w offset maxBytes startTime endTime =
     chk (binary_Write_int64 w offset)
    (chk (binary_Write_int32 w maxBytes)
    (chk (binary_Write_int64 w startTime)
         (binary_Write_int64 w endTime)))"

definition writeReplicatePayload :: "'s writer \<Rightarrow> Request \<Rightarrow> 's write_op" where
  "writeReplicatePayload w req =
     chk (binary_Write_int64 w (rqOffset req))
         (writeProducePayload w req)"

definition writeOffsetCommitPayload :: "'s writer \<Rightarrow> Request \<Rightarrow> 's write_op" where
  "writeOffsetCommitPayload w req =
     (let gBytes = bytes_of (rqGroupID req) in
      chk (binary_Write_uint16 w (uint16 (length gBytes)))
     (chk (w gBytes)
     (chk (binary_Write_int32 w (rqPartition req))
     (chk (binary_Write_int64 w (rqOffset req))
     (chk (w [if rqSuccess req then 1 else 0])
     (chk (binary_Write_uint32 w (uint32 (length (processed_ids req))))
          (writeStrings16 w (processed_ids req))))))))"

definition writeOffsetFetchPayload :: "'s writer \<Rightarrow> Request \<Rightarrow> 's write_op" where
  "writeOffsetFetchPayload w req =
     (let gBytes = bytes_of (rqGroupID req) in
      chk (binary_Write_uint16 w (uint16 (length gBytes)))
     (chk (w gBytes)
          (binary_Write_int32 w (rqPartition req))))"

text \<open>The topic loop of \<^verbatim>\<open>writeJoinGroupPayload\<close> ignores the errors of both its writes.\<close>

primrec writeTopicsIgnoringErrors :: "'s writer \<Rightarrow> string list \<Rightarrow> 's write_op" where
  "writeTopicsIgnoringErrors w [] = wnil"
| "writeTopicsIgnoringErrors w (t # ts) =
     (let tBytes = bytes_of t in
      ign (binary_Write_uint16 w (uint16 (length tBytes)))
     (ign (w tBytes)
          (writeTopicsIgnoringErrors w ts)))"

definition writeJoinGroupPayload :: "'s writer \<Rightarrow> Request \<Rightarrow> 's write_op" where
  "writeJoinGroupPayload w req =
     (let gBytes = bytes_of (rqGroupID req); mBytes = bytes_of (rqMemberID req) in
      chk (binary_Write_uint16 w (uint16 (length gBytes)))
     (ign (w gBytes)
     (chk (binary_Write_uint16 w (uint16 (length mBytes)))
     (ign (w mBytes)
     (chk (binary_Write_uint16 w (uint16 (length (rqTopics req))))
          (writeTopicsIgnoringErrors w (rqTopics req)))))))"

definition writeSyncGroupPayload :: "'s writer \<Rightarrow> Request \<Rightarrow> 's write_op" where
  "writeSyncGroupPayload w req =
     (let gBytes = bytes_of (rqGroupID req); mBytes = bytes_of (rqMemberID req) in
      chk (binary_Write_uint16 w (uint16 (length gBytes)))
     (ign (w gBytes)
     (chk (binary_Write_uint16 w (uint16 (length mBytes)))
          (w mBytes))))"

definition writeAuthenticatePayload :: "'s writer \<Rightarrow> Request \<Rightarrow> 's write_op" where
  "writeAuthenticatePayload w req =
     (let uBytes = bytes_of (rqUsername req); pBytes = bytes_of (rqPassword req) in
      chk (binary_Write_uint16 w (uint16 (length uBytes)))
     (ign (w uBytes)
     (chk (binary_Write_uint16 w (uint16 (length pBytes)))
          (w pBytes))))"

text \<open>The type switch at the end of \<^verbatim>\<open>WriteRequest\<close>.\<close>

definition writeRequestPayload :: "'s writer \<Rightarrow> Request \<Rightarrow> 's write_op" where
  "writeRequestPayload w req =
     (if rqType req = ReqProduce then writeProducePayload w req
      else if rqType req = ReqConsume then
        writeConsumePayload w (rqOffset req) (rqMaxBytes req) (rqStartTime req) (rqEndTime req)
      else if rqType req = ReqReplicate then writeReplicatePayload w req
      else if rqType req = ReqJoinReplica then wnil
      else if rqType req = ReqOffsetCommit then writeOffsetCommitPayload w req
      else if rqType req = ReqOffsetFetch then writeOffsetFetchPayload w req
      else if rqType req = ReqJoinGroup then writeJoinGroupPayload w req
      else if rqType req = ReqSyncGroup then writeSyncGroupPayload w req
      else if rqType req = ReqAuthenticate then writeAuthenticatePayload w req
      else if rqType req = ReqRegisterSchema then writeString16 w (rqSchemaDef req)
      else writeConsumePayload w (rqOffset req) (rqMaxBytes req) (rqStartTime req) (rqEndTime req))"

definition WriteRequest :: "'s writer \<Rightarrow> Request \<Rightarrow> 's write_op" where
  "WriteRequest w req =
     (let topicBytes = bytes_of (rqTopic req);
          payloadSize = getRequestPayloadSize req (length topicBytes) in
      chk (binary_Write_int32 w (sint payloadSize))
     (chk (w [rqType req])
     (chk (binary_Write_uint16 w (uint16 (length topicBytes)))
     (chk (w topicBytes)
          (writeRequestPayload w req)))))"

section \<open>Reading requests\<close>

definition readString16 :: "string read_op" where
  "readString16 =
     rbind binary_Read_uint16 (\<lambda>length.
     rbind (ReadFull length) (\<lambda>buf.
     rret (string_of buf)))"

text \<open>A \<^verbatim>\<open>uint32\<close>-prefixed byte slice is read in two steps, as the source does for keys and values.\<close>

definition readProducePayload :: "Request \<Rightarrow> Request read_op" where
  "readProducePayload req =
     rbind binary_Read_int64 (\<lambda>producerID.
     rbind binary_Read_int32 (\<lambda>seq.
     rbind binary_Read_uint32 (\<lambda>keyLen.
     rbind (ReadFull keyLen) (\<lambda>key.
     rbind binary_Read_uint32 (\<lambda>valLen.
     rbind (ReadFull valLen) (\<lambda>val.
     let req = req\<lparr>rqProducerID := producerID, rqSequenceNumber := seq, rqKey := key, rqValue := val\<rparr>
     in rtry readString16 (\<lambda>msgID.
        rret (case msgID of Inl _ \<Rightarrow> req | Inr m \<Rightarrow> req\<lparr>rqMessageID := m\<rparr>))))))))"

definition readConsumePayload :: "Request \<Rightarrow> Request read_op" where
  "readConsumePayload req =
     rbind binary_Read_int64 (\<lambda>offset.
     rbind binary_Read_int32 (\<lambda>maxBytes.
     let req = req\<lparr>rqOffset := offset, rqMaxBytes := maxBytes\<rparr>
     in rtry binary_Read_int64 (\<lambda>st.
        let req = (case st of Inl _ \<Rightarrow> req | Inr t \<Rightarrow> req\<lparr>rqStartTime := t\<rparr>)
        in rtry binary_Read_int64 (\<lambda>et.
           rret (case et of Inl _ \<Rightarrow> req | Inr t \<Rightarrow> req\<lparr>rqEndTime := t\<rparr>)))))"

definition readReplicatePayload :: "Request \<Rightarrow> Request read_op" where
  "readReplicatePayload req =
     rbind binary_Read_int64 (\<lambda>offset. readProducePayload (req\<lparr>rqOffset := offset\<rparr>))"

text \<open>The identifiers at the end of an offset commit; a frame that stops before them has none.\<close>

definition readProcessedIDs :: "Request \<Rightarrow> Request read_op" where
  "readProcessedIDs req =
     rtry binary_Read_uint32 (\<lambda>numIDs.
     case numIDs of
       Inl _ \<Rightarrow> rret req
     | Inr n \<Rightarrow> rbind (read_n n readString16) (\<lambda>ids. rret (req\<lparr>rqProcessedIDs := Some ids\<rparr>)))"

definition readOffsetCommitPayload :: "Request \<Rightarrow> Request read_op" where
  "readOffsetCommitPayload req =
     rbind readString16 (\<lambda>gID.
     rbind binary_Read_int32 (\<lambda>partition.
     rbind binary_Read_int64 (\<lambda>offset.
     let req = req\<lparr>rqGroupID := gID, rqPartition := partition, rqOffset := offset\<rparr>
     in rtry (ReadFull 1) (\<lambda>sBuf.
        case sBuf of
          Inr s \<Rightarrow> readProcessedIDs (req\<lparr>rqSuccess := (s ! 0 = 1)\<rparr>)
        | Inl e \<Rightarrow> if e \<noteq> EOF then rfail e else readProcessedIDs req))))"

definition readOffsetFetchPayload :: "Request \<Rightarrow> Request read_op" where
  "readOffsetFetchPayload req =
     rbind readString16 (\<lambda>gID.
     rbind binary_Read_int32 (\<lambda>partition.
     rret (req\<lparr>rqGroupID := gID, rqPartition := partition\<rparr>)))"

definition readJoinGroupPayload :: "Request \<Rightarrow> Request read_op" where
  "readJoinGroupPayload req =
     rbind readString16 (\<lambda>gID.
     rbind readString16 (\<lambda>mID.
     rbind binary_Read_uint16 (\<lambda>tCount.
     rbind (read_n tCount readString16) (\<lambda>topics.
     rret (req\<lparr>rqGroupID := gID, rqMemberID := mID, rqTopics := topics\<rparr>)))))"

definition readSyncGroupPayload :: "Request \<Rightarrow> Request read_op" where
  "readSyncGroupPayload req =
     rbind readString16 (\<lambda>gID.
     rbind readString16 (\<lambda>mID.
     rret (req\<lparr>rqGroupID := gID, rqMemberID := mID\<rparr>)))"

definition readAuthenticatePayload :: "Request \<Rightarrow> Request read_op" where
  "readAuthenticatePayload req =
     rbind readString16 (\<lambda>u.
     rbind readString16 (\<lambda>p.
     rret (req\<lparr>rqUsername := u, rqPassword := p\<rparr>)))"

definition readRegisterSchemaPayload :: "Request \<Rightarrow> Request read_op" where
  "readRegisterSchemaPayload req =
     rbind readString16 (\<lambda>def. rret (req\<lparr>rqSchemaDef := def\<rparr>))"

definition readRequestBody :: "Request \<Rightarrow> Request read_op" where
  "readRequestBody req =
     (let reqType = rqType req in
      if reqType = ReqProduce then readProducePayload req
      else if reqType = ReqConsume then readConsumePayload req
      else if reqType = ReqReplicate then readReplicatePayload req
      else if reqType = ReqJoinReplica then rret req
      else if reqType = ReqOffsetCommit then readOffsetCommitPayload req
      else if reqType = ReqOffsetFetch then readOffsetFetchPayload req
      else if reqType = ReqJoinGroup then readJoinGroupPayload req
      else if reqType = ReqSyncGroup then readSyncGroupPayload req
      else if reqType = ReqAuthenticate then readAuthenticatePayload req
      else if reqType = ReqRegisterSchema then readRegisterSchemaPayload req
      else rfail (Err ''unknown request type''))"

definition ReadRequest :: "Request read_op" where
  "ReadRequest =
     rbind binary_Read_int32 (\<lambda>totalLen.
     rbind (ReadFull 1) (\<lambda>typeBuf.
     rbind binary_Read_uint16 (\<lambda>topicLen.
     rbind (ReadFull topicLen) (\<lambda>topicBuf.
     readRequestBody (new_request (typeBuf ! 0) (string_of topicBuf))))))"

lemma shrinks_payloads [shrinks_intros]:
  "shrinks readString16" "shrinks (readProducePayload req)" "shrinks (readConsumePayload req)"
  "shrinks (readReplicatePayload req)" "shrinks (readProcessedIDs req)" "shrinks (readOffsetCommitPayload req)"
  "shrinks (readOffsetFetchPayload req)" "shrinks (readJoinGroupPayload req)" "shrinks (readSyncGroupPayload req)"
  "shrinks (readAuthenticatePayload req)" "shrinks (readRegisterSchemaPayload req)"
  unfolding readString16_def readProducePayload_def readConsumePayload_def readReplicatePayload_def
    readProcessedIDs_def readOffsetCommitPayload_def readOffsetFetchPayload_def readJoinGroupPayload_def
    readSyncGroupPayload_def readAuthenticatePayload_def readRegisterSchemaPayload_def Let_def
  by (intro shrinks_intros)+

text \<open>A request that was read consumed at least its length field, so a connection of finite input is served in finitely
  many steps.\<close>

lemma ReadRequest_consumes:
  assumes "ReadRequest r = (Inr req, r')"
  shows "length (rbuf r') < length (rbuf r)"
proof -
  have rest: "shrinks (rbind (ReadFull 1) (\<lambda>typeBuf. rbind binary_Read_uint16 (\<lambda>topicLen.
      rbind (ReadFull topicLen) (\<lambda>topicBuf. readRequestBody (new_request (typeBuf ! 0) (string_of topicBuf))))))"
    unfolding readRequestBody_def Let_def by (intro shrinks_intros)
  obtain bs e where r: "r = Reader bs e" by (cases r)
  have first: "rbind binary_Read_int32 (\<lambda>_. k) (Reader bs e) = (Inr req, r')
      \<Longrightarrow> 4 \<le> length bs \<and> k (Reader (drop 4 bs) e) = (Inr req, r')" for k
    by (auto simp: binary_Read_int32_def rbind_def rret_def split: if_splits)
  note this = first [OF assms [unfolded ReadRequest_def r]]
  then have four: "4 \<le> length bs" and run: "rbind (ReadFull 1) (\<lambda>typeBuf. rbind binary_Read_uint16 (\<lambda>topicLen.
      rbind (ReadFull topicLen) (\<lambda>topicBuf. readRequestBody (new_request (typeBuf ! 0) (string_of topicBuf)))))
      (Reader (drop 4 bs) e) = (Inr req, r')"
    by blast+
  have "length (rbuf r') \<le> length (drop 4 bs)"
    using rest run unfolding shrinks_def by (metis reader.sel(1) snd_conv)
  then show ?thesis using four by (simp add: r)
qed

section \<open>The bytes of a frame\<close>

definition enc_str16 :: "string \<Rightarrow> bytes" where
  "enc_str16 s = be_enc 2 (uint16 (length s)) @ bytes_of s"

definition enc_bytes32 :: "bytes \<Rightarrow> bytes" where
  "enc_bytes32 b = be_enc 4 (uint32 (length b)) @ b"

abbreviation enc_i32 :: "int \<Rightarrow> bytes" where
  "enc_i32 x \<equiv> be_enc 4 (uint32_of_int x)"

abbreviation enc_i64 :: "int \<Rightarrow> bytes" where
  "enc_i64 x \<equiv> be_enc 8 (uint64_of_int x)"

definition produce_payload :: "Request \<Rightarrow> bytes" where
  "produce_payload req = enc_i64 (rqProducerID req) @ enc_i32 (rqSequenceNumber req)
     @ enc_bytes32 (rqKey req) @ enc_bytes32 (rqValue req) @ enc_str16 (rqMessageID req)"

definition consume_payload :: "Request \<Rightarrow> bytes" where
  "consume_payload req = enc_i64 (rqOffset req) @ enc_i32 (rqMaxBytes req)
     @ enc_i64 (rqStartTime req) @ enc_i64 (rqEndTime req)"

definition commit_payload :: "Request \<Rightarrow> bytes" where
  "commit_payload req =
     enc_str16 (rqGroupID req) @ enc_i32 (rqPartition req) @ enc_i64 (rqOffset req)
       @ [if rqSuccess req then 1 else 0]
       @ be_enc 4 (uint32 (length (processed_ids req))) @ concat (map enc_str16 (processed_ids req))"

definition join_payload :: "Request \<Rightarrow> bytes" where
  "join_payload req = enc_str16 (rqGroupID req) @ enc_str16 (rqMemberID req)
     @ be_enc 2 (uint16 (length (rqTopics req))) @ concat (map enc_str16 (rqTopics req))"

definition request_payload :: "Request \<Rightarrow> bytes" where
  "request_payload req =
     (if rqType req = ReqProduce then produce_payload req
      else if rqType req = ReqReplicate then enc_i64 (rqOffset req) @ produce_payload req
      else if rqType req = ReqJoinReplica then []
      else if rqType req = ReqOffsetCommit then commit_payload req
      else if rqType req = ReqOffsetFetch then enc_str16 (rqGroupID req) @ enc_i32 (rqPartition req)
      else if rqType req = ReqJoinGroup then join_payload req
      else if rqType req = ReqSyncGroup then enc_str16 (rqGroupID req) @ enc_str16 (rqMemberID req)
      else if rqType req = ReqAuthenticate then enc_str16 (rqUsername req) @ enc_str16 (rqPassword req)
      else if rqType req = ReqRegisterSchema then enc_str16 (rqSchemaDef req)
      else consume_payload req)"

text \<open>What follows the length prefix, and the whole frame.\<close>

definition request_body :: "Request \<Rightarrow> bytes" where
  "request_body req = [rqType req] @ enc_str16 (rqTopic req) @ request_payload req"

definition request_frame :: "Request \<Rightarrow> bytes" where
  "request_frame req =
     enc_i32 (sint (getRequestPayloadSize req (length (rqTopic req)))) @ request_body req"

subsection \<open>The writers produce it\<close>

lemma buffer_simps [simp]:
  "chk (buffer_write bs) k s = k (s @ bs)"
  "ign (buffer_write bs) k s = k (s @ bs)"
  by (simp_all add: chk_def ign_def buffer_write_def)

lemma writeString16_buffer [simp]:
  "writeString16 buffer_write s buf = (None, buf @ enc_str16 s)"
  by (simp add: writeString16_def binary_Write_defs enc_str16_def Let_def) (simp add: buffer_write_def)

lemma writeStrings16_buffer [simp]:
  "writeStrings16 buffer_write ids buf = (None, buf @ concat (map enc_str16 ids))"
  by (induction ids arbitrary: buf) (simp_all add: wnil_def chk_def)

lemma writeTopics_buffer [simp]:
  "writeTopicsIgnoringErrors buffer_write ts buf = (None, buf @ concat (map enc_str16 ts))"
  by (induction ts arbitrary: buf)
    (simp_all add: wnil_def binary_Write_defs enc_str16_def Let_def)

lemmas write_payload_defs = writeProducePayload_def writeConsumePayload_def writeReplicatePayload_def
  writeOffsetCommitPayload_def writeOffsetFetchPayload_def writeJoinGroupPayload_def
  writeSyncGroupPayload_def writeAuthenticatePayload_def

lemmas payload_defs = produce_payload_def consume_payload_def commit_payload_def join_payload_def
  enc_str16_def enc_bytes32_def

lemma write_payload_buffer:
  "writeProducePayload buffer_write req buf = (None, buf @ produce_payload req)"
  "writeConsumePayload buffer_write (rqOffset req) (rqMaxBytes req) (rqStartTime req) (rqEndTime req) buf
     = (None, buf @ consume_payload req)"
  "writeReplicatePayload buffer_write req buf = (None, buf @ enc_i64 (rqOffset req) @ produce_payload req)"
  "writeOffsetCommitPayload buffer_write req buf = (None, buf @ commit_payload req)"
  "writeOffsetFetchPayload buffer_write req buf
     = (None, buf @ enc_str16 (rqGroupID req) @ enc_i32 (rqPartition req))"
  "writeJoinGroupPayload buffer_write req buf = (None, buf @ join_payload req)"
  "writeSyncGroupPayload buffer_write req buf
     = (None, buf @ enc_str16 (rqGroupID req) @ enc_str16 (rqMemberID req))"
  "writeAuthenticatePayload buffer_write req buf
     = (None, buf @ enc_str16 (rqUsername req) @ enc_str16 (rqPassword req))"
  by (simp_all add: write_payload_defs binary_Write_defs Let_def)
     (simp_all add: buffer_write_def payload_defs)

lemma writeRequestPayload_buffer:
  "writeRequestPayload buffer_write req buf = (None, buf @ request_payload req)"
  by (simp add: writeRequestPayload_def request_payload_def write_payload_buffer wnil_def Req_defs)

lemma WriteRequest_buffer:
  "WriteRequest buffer_write req buf = (None, buf @ request_frame req)"
  by (simp add: WriteRequest_def binary_Write_defs Let_def writeRequestPayload_buffer
      request_frame_def request_body_def enc_str16_def)

subsection \<open>Write errors\<close>

text \<open>On a connection that stays broken once it broke, a request reported as written was written
  completely, except for the topics of a join-group request.\<close>

definition errors_checked :: "Request \<Rightarrow> bool" where
  "errors_checked req \<longleftrightarrow> \<not> (rqType req = ReqJoinGroup \<and> rqTopics req \<noteq> [])"

context sticky_writer
begin

lemma emits_writeString16: "emits (writeString16 w s) (enc_str16 s)"
  by (simp add: writeString16_def binary_Write_defs enc_str16_def Let_def emits_intros)

lemma emits_writeStrings16: "emits (writeStrings16 w ids) (concat (map enc_str16 ids))"
  by (induction ids) (simp_all add: emits_intros emits_writeString16)

lemma emits_ign_str16:
  "emits k cs \<Longrightarrow> emits (chk (w (be_enc 2 n)) (ign (w as) (chk (w (be_enc 2 m)) k)))
     (be_enc 2 n @ as @ be_enc 2 m @ cs)"
  by (intro emits_chk emits_write emits_ign_chk) simp_all

lemma emits_unchecked:
  "emits (writeSyncGroupPayload w req) (enc_str16 (rqGroupID req) @ enc_str16 (rqMemberID req))"
  "emits (writeAuthenticatePayload w req) (enc_str16 (rqUsername req) @ enc_str16 (rqPassword req))"
  unfolding writeSyncGroupPayload_def writeAuthenticatePayload_def binary_Write_defs Let_def
    enc_str16_def append_assoc length_bytes_of
  by (intro emits_ign_str16 emits_write)+

lemma emits_join_empty:
  assumes "rqTopics req = []"
  shows "emits (writeJoinGroupPayload w req) (join_payload req)"
proof -
  have "emits (chk (w (be_enc 2 (uint16 0))) wnil) (be_enc 2 (uint16 0) @ [])"
    by (intro emits_intros)
  then have "emits (ign (w m) (chk (w (be_enc 2 (uint16 0))) wnil)) (m @ be_enc 2 (uint16 0) @ [])" for m
    using emits_ign_chk [OF emits_nil, of "be_enc 2 (uint16 0)" m] by simp
  then show ?thesis
    using assms unfolding writeJoinGroupPayload_def join_payload_def binary_Write_defs Let_def
      enc_str16_def append_assoc length_bytes_of
    by simp (rule emits_eq, rule emits_ign_str16, assumption, simp)
qed

lemma emits_checked:
  "emits (writeProducePayload w req) (produce_payload req)"
  "emits (writeConsumePayload w (rqOffset req) (rqMaxBytes req) (rqStartTime req) (rqEndTime req))
     (consume_payload req)"
  "emits (writeOffsetCommitPayload w req) (commit_payload req)"
  "emits (writeOffsetFetchPayload w req) (enc_str16 (rqGroupID req) @ enc_i32 (rqPartition req))"
  unfolding write_payload_defs payload_defs binary_Write_defs Let_def append_assoc length_bytes_of
  by (intro emits_chk emits_write emits_writeStrings16 [unfolded enc_str16_def])+

lemma emits_writeRequestPayload:
  "errors_checked req \<Longrightarrow> emits (writeRequestPayload w req) (request_payload req)"
  by (simp add: writeRequestPayload_def request_payload_def errors_checked_def Req_defs
      emits_checked emits_unchecked emits_join_empty emits_writeString16 emits_nil
      writeReplicatePayload_def binary_Write_defs emits_chk emits_write)

lemma emits_WriteRequest:
  assumes "errors_checked req"
  shows "emits (WriteRequest w req) (request_frame req)"
  unfolding WriteRequest_def request_frame_def request_body_def binary_Write_defs Let_def
    enc_str16_def append_assoc length_bytes_of
  by (intro emits_chk emits_write emits_writeRequestPayload assms)

end

section \<open>Reading back what was written\<close>

interpretation str16: wire_codec enc_str16 readString16 "\<lambda>s. length s < 65536"
  by unfold_locales
    (simp add: enc_str16_def readString16_def rd_defs u16.dec_enc)

text \<open>The fields a request of a given type carries over the wire; the others arrive as zero
  values.\<close>

definition wire_view :: "Request \<Rightarrow> Request" where
  "wire_view req =
     (let base = new_request (rqType req) (rqTopic req);
          produced = base\<lparr>rqProducerID := rqProducerID req, rqSequenceNumber := rqSequenceNumber req,
            rqKey := rqKey req, rqValue := rqValue req, rqMessageID := rqMessageID req\<rparr> in
      if rqType req = ReqProduce then produced
      else if rqType req = ReqConsume then base\<lparr>rqOffset := rqOffset req, rqMaxBytes := rqMaxBytes req,
        rqStartTime := rqStartTime req, rqEndTime := rqEndTime req\<rparr>
      else if rqType req = ReqReplicate then produced\<lparr>rqOffset := rqOffset req\<rparr>
      else if rqType req = ReqOffsetCommit then base\<lparr>rqGroupID := rqGroupID req,
        rqPartition := rqPartition req, rqOffset := rqOffset req, rqSuccess := rqSuccess req,
        rqProcessedIDs := Some (processed_ids req)\<rparr>
      else if rqType req = ReqOffsetFetch then base\<lparr>rqGroupID := rqGroupID req, rqPartition := rqPartition req\<rparr>
      else if rqType req = ReqJoinGroup then base\<lparr>rqGroupID := rqGroupID req, rqMemberID := rqMemberID req,
        rqTopics := rqTopics req\<rparr>
      else if rqType req = ReqSyncGroup then base\<lparr>rqGroupID := rqGroupID req, rqMemberID := rqMemberID req\<rparr>
      else if rqType req = ReqAuthenticate then base\<lparr>rqUsername := rqUsername req, rqPassword := rqPassword req\<rparr>
      else if rqType req = ReqRegisterSchema then base\<lparr>rqSchemaDef := rqSchemaDef req\<rparr>
      else base)"

definition known_type :: "byte \<Rightarrow> bool" where
  "known_type t \<longleftrightarrow> t \<in> {ReqProduce, ReqConsume, ReqJoinReplica, ReqReplicate, ReqOffsetCommit,
     ReqOffsetFetch, ReqJoinGroup, ReqSyncGroup, ReqAuthenticate, ReqRegisterSchema}"

abbreviation short :: "string \<Rightarrow> bool" where
  "short s \<equiv> length s < 65536"

text \<open>Integers in the range of their Go type, strings and slices short enough for their length
  fields.\<close>

definition wf_request :: "Request \<Rightarrow> bool" where
  "wf_request req \<longleftrightarrow> known_type (rqType req) \<and> short (rqTopic req) \<and> in_int64 (rqOffset req)
     \<and> length (rqKey req) < 4294967296 \<and> length (rqValue req) < 4294967296
     \<and> in_int32 (rqMaxBytes req) \<and> short (rqGroupID req) \<and> in_int32 (rqPartition req)
     \<and> short (rqMemberID req) \<and> length (rqTopics req) < 65536 \<and> list_all short (rqTopics req)
     \<and> in_int64 (rqProducerID req) \<and> in_int32 (rqSequenceNumber req) \<and> short (rqMessageID req)
     \<and> short (rqUsername req) \<and> short (rqPassword req) \<and> in_int64 (rqStartTime req)
     \<and> in_int64 (rqEndTime req) \<and> length (processed_ids req) < 4294967296
     \<and> list_all short (processed_ids req) \<and> short (rqSchemaDef req)"

lemmas read_simps = Let_def rd_defs codec_dec str16.dec_enc str16.read_n_enc

lemma readProducePayload_dec:
  assumes "in_int64 (rqProducerID q)" "in_int32 (rqSequenceNumber q)" "short (rqMessageID q)"
    "length (rqKey q) < 4294967296" "length (rqValue q) < 4294967296"
  shows "readProducePayload req (Reader (produce_payload q @ rest) e) =
    (Inr (req\<lparr>rqProducerID := rqProducerID q, rqSequenceNumber := rqSequenceNumber q,
       rqKey := rqKey q, rqValue := rqValue q, rqMessageID := rqMessageID q\<rparr>), Reader rest e)"
  using assms by (simp add: readProducePayload_def produce_payload_def enc_bytes32_def read_simps)

lemma readConsumePayload_dec:
  assumes "in_int64 (rqOffset q)" "in_int32 (rqMaxBytes q)" "in_int64 (rqStartTime q)"
    "in_int64 (rqEndTime q)"
  shows "readConsumePayload req (Reader (consume_payload q @ rest) e) =
    (Inr (req\<lparr>rqOffset := rqOffset q, rqMaxBytes := rqMaxBytes q,
       rqStartTime := rqStartTime q, rqEndTime := rqEndTime q\<rparr>), Reader rest e)"
  using assms by (simp add: readConsumePayload_def consume_payload_def read_simps)

lemma readOffsetCommitPayload_dec:
  assumes "short (rqGroupID q)" "in_int32 (rqPartition q)" "in_int64 (rqOffset q)"
    "length (processed_ids q) < 4294967296" "list_all short (processed_ids q)"
  shows "readOffsetCommitPayload req (Reader (commit_payload q @ rest) e) =
    (Inr (req\<lparr>rqGroupID := rqGroupID q, rqPartition := rqPartition q, rqOffset := rqOffset q,
       rqSuccess := rqSuccess q, rqProcessedIDs := Some (processed_ids q)\<rparr>), Reader rest e)"
  using assms
  by (simp add: readOffsetCommitPayload_def readProcessedIDs_def commit_payload_def read_simps)

lemma readJoinGroupPayload_dec:
  assumes "short (rqGroupID q)" "short (rqMemberID q)" "length (rqTopics q) < 65536"
    "list_all short (rqTopics q)"
  shows "readJoinGroupPayload req (Reader (join_payload q @ rest) e) =
    (Inr (req\<lparr>rqGroupID := rqGroupID q, rqMemberID := rqMemberID q, rqTopics := rqTopics q\<rparr>),
     Reader rest e)"
  using assms by (simp add: readJoinGroupPayload_def join_payload_def read_simps)

lemmas read_payload_dec = readProducePayload_dec readConsumePayload_dec readOffsetCommitPayload_dec
  readJoinGroupPayload_dec

text \<open>The wire view of a request in each of its types, with the payload it stands for.\<close>

lemma wire_view_type [simp]: "rqType (wire_view req) = rqType req"
  and wire_view_topic [simp]: "rqTopic (wire_view req) = rqTopic req"
  by (simp_all add: wire_view_def new_request_def Let_def)

lemma readRequestBody_dec:
  assumes "wf_request (wire_view req)"
  shows "readRequestBody (new_request (rqType req) (rqTopic req))
           (Reader (request_payload req @ rest) e) = (Inr (wire_view req), Reader rest e)"
proof -
  have "known_type (rqType req)"
    using assms by (simp add: wf_request_def)
  then consider "rqType req = ReqProduce" | "rqType req = ReqConsume" | "rqType req = ReqJoinReplica"
    | "rqType req = ReqReplicate" | "rqType req = ReqOffsetCommit" | "rqType req = ReqOffsetFetch"
    | "rqType req = ReqJoinGroup" | "rqType req = ReqSyncGroup" | "rqType req = ReqAuthenticate"
    | "rqType req = ReqRegisterSchema"
    unfolding known_type_def by blast
  then show ?thesis
  proof cases
    case 1
    then show ?thesis using assms
      by (simp add: readRequestBody_def request_payload_def wf_request_def wire_view_def
          new_request_def Let_def read_payload_dec)
  next
    case 2
    then show ?thesis using assms
      by (simp add: readRequestBody_def request_payload_def wf_request_def wire_view_def
          new_request_def Let_def read_payload_dec Req_defs)
  qed (use assms in \<open>simp_all add: readRequestBody_def request_payload_def wf_request_def wire_view_def
      new_request_def Let_def read_payload_dec Req_defs readReplicatePayload_def
      readOffsetFetchPayload_def readSyncGroupPayload_def readAuthenticatePayload_def
      readRegisterSchemaPayload_def read_simps processed_ids_def\<close>)
qed

lemma ReadRequest_frame:
  assumes "wf_request (wire_view req)"
  shows "ReadRequest (Reader (request_frame req @ rest) e) = (Inr (wire_view req), Reader rest e)"
proof -
  have "in_int32 (sint (size :: 32 word))" for size
    using sint_greater_eq [of size] sint_less [of size] by (simp add: in_int32_def)
  moreover have "short (rqTopic req)"
    using assms by (simp add: wf_request_def)
  ultimately show ?thesis
    by (simp add: ReadRequest_def request_frame_def request_body_def enc_str16_def read_simps
        readRequestBody_dec assms)
qed

interpretation request: wire_codec request_frame ReadRequest
  "\<lambda>req. wf_request req \<and> wire_view req = req"
  by unfold_locales (metis ReadRequest_frame)

section \<open>The length in front of a frame\<close>

text \<open>How many bytes the frame has beyond the length announced for it.\<close>

definition size_gap :: "Request \<Rightarrow> 32 word" where
  "size_gap req =
     (if rqType req = ReqReplicate then 2 + len32 (rqMessageID req)
      else if rqType req = ReqOffsetCommit then
        4 + sum_list (map (\<lambda>i. 2 + len32 i) (processed_ids req))
      else if rqType req \<in> {ReqJoinGroup, ReqSyncGroup, ReqAuthenticate} then 2 + len32 (rqTopic req)
      else if rqType req = ReqRegisterSchema then len32 (rqSchemaDef req) - 10
      else if rqType req \<in> {ReqProduce, ReqJoinReplica, ReqOffsetFetch} then 0
      else 16)"

lemma foldl_size: "foldl (\<lambda>size t. size + 2 + len32 t) a ts = a + sum_list (map (\<lambda>t. 2 + len32 t) ts)"
  by (induction ts arbitrary: a) (simp_all add: algebra_simps)

lemma length_enc [simp]:
  "length (enc_str16 s) = 2 + length s" "length (enc_bytes32 b) = 4 + length b"
  by (simp_all add: enc_str16_def enc_bytes32_def)

lemma word_length_strs: 
  "word_of_nat (length (concat (map enc_str16 ids))) = sum_list (map (\<lambda>i. 2 + len32 i) ids)"
  by (induction ids) (simp_all add: len32_def)

lemma body_size:
  "word_of_nat (length (request_body req)) =
     getRequestPayloadSize req (length (rqTopic req)) + size_gap req"
  by (simp add: request_body_def request_payload_def getRequestPayloadSize_def size_gap_def
      produce_payload_def consume_payload_def commit_payload_def join_payload_def Req_defs
      foldl_size [unfolded len32_def] word_length_strs [unfolded len32_def] len32_def)

section \<open>Everything that is read is well-formed\<close>

lemma yields_readString16: "yields short readString16"
  unfolding readString16_def
  by (rule yields_bind [OF yields_ints(1)], rule yields_bind [OF yields_ReadFull], rule yields_ret)
    simp

lemmas yields_reads = yields_ints yields_readString16 yields_ReadFull
  yields_read_n [OF yields_readString16]

lemma wf_new_request:
  "known_type t \<Longrightarrow> short s \<Longrightarrow> wf_request (new_request t s)"
  by (simp add: wf_request_def new_request_def processed_ids_def in_int32_def in_int64_def)

lemma wf_readProducePayload: "wf_request req \<Longrightarrow> yields wf_request (readProducePayload req)"
  unfolding readProducePayload_def Let_def
  by (rule yields_bind [OF yields_ints(4)], rule yields_bind [OF yields_ints(3)],
      rule yields_bind [OF yields_ints(2)], rule yields_bind [OF yields_ReadFull],
      rule yields_bind [OF yields_ints(2)], rule yields_bind [OF yields_ReadFull],
      rule yields_try [OF yields_readString16]; rule yields_ret)
     (simp_all add: wf_request_def processed_ids_def)

lemma wf_readConsumePayload: "wf_request req \<Longrightarrow> yields wf_request (readConsumePayload req)"
  unfolding readConsumePayload_def Let_def
  by (rule yields_bind [OF yields_ints(4)], rule yields_bind [OF yields_ints(3)],
      rule yields_try [OF yields_ints(4)]; rule yields_try [OF yields_ints(4)]; rule yields_ret)
     (simp_all add: wf_request_def processed_ids_def)

lemma wf_readProcessedIDs: "wf_request req \<Longrightarrow> yields wf_request (readProcessedIDs req)"
  unfolding readProcessedIDs_def
  by (rule yields_try [OF yields_ints(2)]; simp;
      (rule yields_bind [OF yields_read_n [OF yields_readString16]])?; rule yields_ret)
     (simp_all add: wf_request_def processed_ids_def)

lemma wf_readOffsetCommitPayload: "wf_request req \<Longrightarrow> yields wf_request (readOffsetCommitPayload req)"
  unfolding readOffsetCommitPayload_def Let_def
  by (rule yields_bind [OF yields_readString16], rule yields_bind [OF yields_ints(3)],
      rule yields_bind [OF yields_ints(4)], rule yields_try [OF yields_ReadFull])
     (auto intro!: yields_fail wf_readProcessedIDs simp: wf_request_def processed_ids_def)

lemma wf_readGroupPayloads:
  assumes "wf_request req"
  shows "yields wf_request (readOffsetFetchPayload req)"
    and "yields wf_request (readSyncGroupPayload req)"
    and "yields wf_request (readAuthenticatePayload req)"
    and "yields wf_request (readRegisterSchemaPayload req)"
  unfolding readOffsetFetchPayload_def readSyncGroupPayload_def readAuthenticatePayload_def
    readRegisterSchemaPayload_def
  by (rule yields_bind [OF yields_readString16],
      (rule yields_bind [OF yields_readString16] | rule yields_bind [OF yields_ints(3)])?,
      rule yields_ret, use assms in \<open>simp add: wf_request_def processed_ids_def\<close>)+

lemma wf_readJoinGroupPayload: "wf_request req \<Longrightarrow> yields wf_request (readJoinGroupPayload req)"
  unfolding readJoinGroupPayload_def
  by (rule yields_bind [OF yields_readString16], rule yields_bind [OF yields_readString16],
      rule yields_bind [OF yields_ints(1)], rule yields_bind [OF yields_read_n [OF yields_readString16]],
      rule yields_ret) (simp add: wf_request_def processed_ids_def)

lemma wf_readReplicatePayload: "wf_request req \<Longrightarrow> yields wf_request (readReplicatePayload req)"
  unfolding readReplicatePayload_def
  by (rule yields_bind [OF yields_ints(4)], rule wf_readProducePayload)
     (simp add: wf_request_def processed_ids_def)

lemma wf_readRequestBody:
  "short s \<Longrightarrow> yields wf_request (readRequestBody (new_request t s))"
proof (cases "known_type t")
  case True
  assume "short s"
  with True have wf: "wf_request (new_request t s)" by (rule wf_new_request)
  show ?thesis
    unfolding readRequestBody_def Let_def
    by (simp add: wf yields_ret yields_fail wf_readProducePayload wf_readConsumePayload
        wf_readOffsetCommitPayload wf_readGroupPayloads wf_readJoinGroupPayload wf_readReplicatePayload)
next
  case False
  then have "readRequestBody (new_request t s) = rfail (Err ''unknown request type'')"
    by (simp add: known_type_def readRequestBody_def new_request_def)
  then show ?thesis by (simp add: yields_fail)
qed

lemma wf_ReadRequest: "yields wf_request ReadRequest"
  unfolding ReadRequest_def
  by (rule yields_bind [OF yields_ints(3)], rule yields_bind [OF yields_ReadFull],
      rule yields_bind [OF yields_ints(1)], rule yields_bind [OF yields_ReadFull],
      rule wf_readRequestBody) simp

section \<open>Properties\<close>

text \<open>\<^bold>\<open>C13\<close>: a request of a known type whose carried fields fit their length fields survives the wire.
  \<^verbatim>\<open>WriteRequest\<close> succeeds on a buffer, and \<^verbatim>\<open>ReadRequest\<close> on what it appended, with anything after it,
  returns the request with exactly the fields its type carries and consumes exactly the frame.\<close>

theorem request_roundtrip:
  assumes "wf_request (wire_view req)"
  shows "\<exists>frame. WriteRequest buffer_write req buf = (None, buf @ frame) \<and>
           ReadRequest (Reader (frame @ rest) e) = (Inr (wire_view req), Reader rest e)"
  using WriteRequest_buffer [of req buf] ReadRequest_frame [OF assms, of rest e] by blast

definition sample_produce :: Request where
  "sample_produce = (new_request ReqProduce ''orders-0'')\<lparr>rqKey := bytes_of ''k'',
     rqValue := bytes_of ''v'', rqProducerID := - 7, rqMessageID := ''m1''\<rparr>"

theorem request_roundtrip_witness:
  "wf_request (wire_view sample_produce) \<and>
   (\<exists>frame. WriteRequest buffer_write sample_produce [] = (None, [] @ frame) \<and>
      ReadRequest (Reader (frame @ [42]) EOF) = (Inr sample_produce, Reader [42] EOF))"
proof -
  have "wf_request (wire_view sample_produce)"
    by (simp add: sample_produce_def wire_view_def wf_request_def new_request_def Req_defs
        known_type_def in_int32_def in_int64_def processed_ids_def Let_def)
  moreover have "wire_view sample_produce = sample_produce"
    by (simp add: sample_produce_def wire_view_def new_request_def Let_def)
  ultimately show ?thesis
    using request_roundtrip [of sample_produce "[]" "[42]" EOF] by simp
qed

text \<open>Requests written back to back on one connection are read back one by one, in order,
  with none of them running into the next, although \<^verbatim>\<open>ReadRequest\<close> never uses the length prefix.\<close>

theorem request_stream:
  assumes "list_all (\<lambda>req. wf_request req \<and> wire_view req = req) reqs"
  shows "read_n (length reqs) ReadRequest
           (Reader (snd (foldl (\<lambda>s req. WriteRequest buffer_write req (snd s)) (None, []) reqs) @ rest) e)
         = (Inr reqs, Reader rest e)"
proof -
  have "snd (foldl (\<lambda>s req. WriteRequest buffer_write req (snd s)) (r, buf) reqs)
          = buf @ concat (map request_frame reqs)" for r buf
    by (induction reqs arbitrary: r buf) (simp_all add: WriteRequest_buffer)
  then show ?thesis
    using request.read_n_enc [OF assms refl, of rest e] by simp
qed

theorem request_stream_witness:
  "read_n 2 ReadRequest
     (Reader (snd (foldl (\<lambda>s req. WriteRequest buffer_write req (snd s)) (None, [])
        [new_request ReqJoinReplica ''node-1'', sample_produce]) @ []) EOF)
   = (Inr [new_request ReqJoinReplica ''node-1'', sample_produce], Reader [] EOF)"
  using request_stream [of "[new_request ReqJoinReplica ''node-1'', sample_produce]" "[]" EOF]
  by (simp add: sample_produce_def wire_view_def wf_request_def new_request_def Req_defs
      known_type_def in_int32_def in_int64_def processed_ids_def Let_def numeral_2_eq_2)

text \<open>\<^bold>\<open>C29\<close>: whatever bytes arrive, a request that \<^verbatim>\<open>ReadRequest\<close> accepts has a known type, integers
  in the range of their Go types and strings and slices within their length fields.\<close>

theorem ReadRequest_well_formed:
  assumes "ReadRequest r = (Inr req, r')"
  shows "wf_request req"
  by (rule yieldsD [OF wf_ReadRequest assms])

theorem ReadRequest_well_formed_witness:
  "ReadRequest (Reader [0, 0, 0, 0, 3, 0, 1, 120, 9] EOF)
     = (Inr (new_request ReqJoinReplica ''x''), Reader [9] EOF)
   \<and> wf_request (new_request ReqJoinReplica ''x'')"
proof -
  have run: "ReadRequest (Reader [0, 0, 0, 0, 3, 0, 1, 120, 9] EOF)
     = (Inr (new_request ReqJoinReplica ''x''), Reader [9] EOF)"
    by code_simp
  show ?thesis
    using run ReadRequest_well_formed [OF run] by simp
qed

text \<open>The length in front of a frame, computed modulo \<open>2^32\<close>, differs from the length of what follows
  by \<open>size_gap\<close>: it is exact for produce, join-replica and offset-fetch requests, 16 bytes short
  for consume requests, and ignores the topic of group and authentication requests, the
  processed identifiers of a commit, the message identifier of a replication and the text
  of a schema.\<close>

theorem frame_length_gap:
  "word_of_nat (length (request_body req)) =
     getRequestPayloadSize req (length (rqTopic req)) + size_gap req"
  by (rule body_size)

text \<open>\<^bold>\<open>C34\<close>: on a connection that can break at any byte, \<^verbatim>\<open>WriteRequest\<close> reports success only if the
  complete frame was sent, provided the request is not a join-group request with topics.\<close>

theorem WriteRequest_success_is_complete:
  assumes "errors_checked req" and "WriteRequest conn_write req c = (None, c')"
  shows "conn_sent c' = conn_sent c @ request_frame req"
  by (rule conn.emitsD [OF conn.emits_WriteRequest [OF assms(1)] assms(2)])

definition sample_auth :: Request where
  "sample_auth = (new_request ReqAuthenticate [])\<lparr>rqUsername := ''u'', rqPassword := ''p''\<rparr>"

theorem WriteRequest_success_is_complete_witness:
  "\<exists>c'. WriteRequest conn_write sample_auth \<lparr>conn_sent = [], conn_room = 100\<rparr> = (None, c')
     \<and> conn_sent c' = request_frame sample_auth"
proof -
  have checked: "errors_checked sample_auth"
    by (simp add: errors_checked_def sample_auth_def new_request_def Req_defs)
  have "fst (WriteRequest conn_write sample_auth \<lparr>conn_sent = [], conn_room = 100\<rparr>) = None"
    by (simp add: WriteRequest_def writeRequestPayload_def writeAuthenticatePayload_def
        binary_Write_defs sample_auth_def new_request_def Req_defs Let_def chk_def ign_def
        conn_write_fits)
  then obtain c' where "WriteRequest conn_write sample_auth \<lparr>conn_sent = [], conn_room = 100\<rparr> = (None, c')"
    by (metis prod.collapse)
  with WriteRequest_success_is_complete [OF checked this] show ?thesis by simp
qed

text \<open>A join-group request with one topic is reported as sent although the connection broke one
  byte before the end of the frame: the topic loop drops the errors of its writes.\<close>

theorem join_group_hides_write_error:
  assumes "rqType req = ReqJoinGroup" and "rqTopics req = [t]" and "t \<noteq> []"
    and "Suc (conn_room c) = length (request_frame req)"
  shows "\<exists>c'. WriteRequest conn_write req c = (None, c')
           \<and> Suc (length (conn_sent c')) = length (conn_sent c) + length (request_frame req)"
proof -
  have "2 \<le> Suc (length t)"
    using assms(3) by (cases t) auto
  with assms show ?thesis
    by (simp add: WriteRequest_def writeRequestPayload_def writeJoinGroupPayload_def binary_Write_defs
      request_frame_def request_body_def request_payload_def join_payload_def Req_defs Let_def
      chk_def ign_def wnil_def conn_write_fits conn_write_short)
qed

definition sample_join :: Request where
  "sample_join = (new_request ReqJoinGroup [])\<lparr>rqGroupID := ''g'', rqMemberID := ''m'', rqTopics := [''t'']\<rparr>"

theorem join_group_hides_write_error_witness:
  "\<exists>c'. WriteRequest conn_write sample_join \<lparr>conn_sent = [], conn_room = 17\<rparr> = (None, c')
     \<and> Suc (length (conn_sent c')) = length (request_frame sample_join)"
  using join_group_hides_write_error [of sample_join "''t''" "\<lparr>conn_sent = [], conn_room = 17\<rparr>"]
  by (simp add: sample_join_def new_request_def request_frame_def request_body_def
      request_payload_def join_payload_def Req_defs)

text \<open>A string longer than its \<open>uint16\<close> length field loses its tail: the reader gets the first
  \<open>length mod 65536\<close> bytes, and the rest of the string is left in the stream in front of what follows.\<close>

theorem string16_truncation:
  "readString16 (Reader (snd (writeString16 buffer_write s []) @ rest) e) =
     (Inr (take (length s mod 65536) s),
      Reader (bytes_of (drop (length s mod 65536) s) @ rest) e)"
proof -
  have "length s mod 65536 \<le> length s" by simp
  then show ?thesis
    by (simp add: enc_str16_def readString16_def rd_defs u16.dec_enc uint16_def)
qed

end
