(* ===== verification/Wire_Response.thy ===== *)
theory Wire_Response
  imports Wire_Request
begin

text \<open>
  The response half of \<^verbatim>\<open>internal/protocol/protocol.go\<close>: records and responses, their size
  computation, \<^verbatim>\<open>WriteResponse\<close> and the two readers \<^verbatim>\<open>ReadResponse\<close> and \<^verbatim>\<open>ReadGroupResponse\<close>.

  A response does not say which of its shapes it has; the reader has to know. The lemmas show that
  each shape is read back by its own reader, that the announced length is the length of the frame,
  and what the plain reader makes of a response that carries a token.
\<close>

section \<open>Responses\<close>

definition StatusOk :: byte where "StatusOk = 0"
definition StatusErr :: byte where "StatusErr = 1"

record Record =
  recTimestamp :: int
  recOffset :: int
  recKey :: bytes
  recValue :: bytes

text \<open>A Go map is an association list in the order in which \<^verbatim>\<open>range\<close> visits it; nil slices and nil
  maps, which the code tests for, are \<open>None\<close>.\<close>

type_synonym assignment = "(string \<times> int list) list"

record Response =
  rsStatus :: byte
  rsOffset :: int
  rsRecords :: "Record list option"
  rsErrMsg :: string
  rsGeneration :: int
  rsAssignment :: "assignment option"
  rsToken :: string

definition new_response :: "byte \<Rightarrow> Response" where
  "new_response st = \<lparr>rsStatus = st, rsOffset = 0, rsRecords = None, rsErrMsg = [],
     rsGeneration = 0, rsAssignment = None, rsToken = []\<rparr>"

section \<open>Writing responses\<close>

definition getResponsePayloadSize :: "Response \<Rightarrow> 32 word" where
  "getResponsePayloadSize resp =
     (if rsStatus resp = StatusErr then 1 + 2 + len32 (rsErrMsg resp)
      else case rsAssignment resp of
        Some ass \<Rightarrow>
          foldl (\<lambda>size (topic, parts). size + 2 + len32 topic + 2 + len32 parts * 4) (1 + 4 + 2) ass
      | None \<Rightarrow>
          if rsToken resp \<noteq> [] then 1 + 2 + len32 (rsToken resp)
          else case rsRecords resp of
            None \<Rightarrow> 1 + 8
          | Some recs \<Rightarrow>
              foldl (\<lambda>size rec. size + 8 + 8 + 4 + len32 (recKey rec) + 4 + len32 (recValue rec))
                (1 + 8 + 4) recs)"

definition writeRecord :: "'s writer \<Rightarrow> Record \<Rightarrow> 's write_op" where
  "writeRecord w rec =
     chk (binary_Write_int64 w (recTimestamp rec))
    (chk (binary_Write_int64 w (recOffset rec))
    (chk (binary_Write_uint32 w (uint32 (length (recKey rec))))
    (chk (w (recKey rec))
    (chk (binary_Write_uint32 w (uint32 (length (recValue rec))))
         (w (recValue rec))))))"

primrec writeRecords :: "'s writer \<Rightarrow> Record list \<Rightarrow> 's write_op" where
  "writeRecords w [] = wnil"
| "writeRecords w (r # rs) = chk (writeRecord w r) (writeRecords w rs)"

primrec writePartsIgnoringErrors :: "'s writer \<Rightarrow> int list \<Rightarrow> 's write_op \<Rightarrow> 's write_op" where
  "writePartsIgnoringErrors w [] k = k"
| "writePartsIgnoringErrors w (p # ps) k = ign (binary_Write_int32 w p) (writePartsIgnoringErrors w ps k)"

fun writeAssignmentEntries :: "'s writer \<Rightarrow> assignment \<Rightarrow> 's write_op" where
  "writeAssignmentEntries w [] = wnil"
| "writeAssignmentEntries w ((topic, parts) # ass) =
     (let tBytes = bytes_of topic in
      chk (binary_Write_uint16 w (uint16 (length tBytes)))
     (ign (w tBytes)
     (chk (binary_Write_uint16 w (uint16 (length parts)))
          (writePartsIgnoringErrors w parts (writeAssignmentEntries w ass)))))"

definition writeAssignmentPayload :: "'s writer \<Rightarrow> assignment \<Rightarrow> 's write_op" where
  "writeAssignmentPayload w ass =
     chk (binary_Write_uint16 w (uint16 (length ass)))
         (writeAssignmentEntries w ass)"

definition writeOkResponsePayload :: "'s writer \<Rightarrow> Response \<Rightarrow> 's write_op" where
  "writeOkResponsePayload w resp =
     (if rsToken resp \<noteq> [] then
        (let tBytes = bytes_of (rsToken resp) in
         chk (binary_Write_uint16 w (uint16 (length tBytes)))
             (w tBytes))
      else case rsAssignment resp of
        Some ass \<Rightarrow> chk (binary_Write_int32 w (int32 (rsGeneration resp))) (writeAssignmentPayload w ass)
      | None \<Rightarrow>
          chk (binary_Write_int64 w (rsOffset resp))
          (case rsRecords resp of
             None \<Rightarrow> wnil
           | Some recs \<Rightarrow>
               chk (binary_Write_uint32 w (uint32 (length recs)))
                   (writeRecords w recs)))"

definition WriteResponse :: "'s writer \<Rightarrow> Response \<Rightarrow> 's write_op" where
  "WriteResponse w resp =
     chk (binary_Write_int32 w (sint (getResponsePayloadSize resp)))
    (chk (w [rsStatus resp])
    (if rsStatus resp = StatusErr then
       (let errMsgBytes = bytes_of (rsErrMsg resp) in
        chk (binary_Write_uint16 w (uint16 (length errMsgBytes)))
            (w errMsgBytes))
     else writeOkResponsePayload w resp))"

section \<open>Reading responses\<close>

definition readRecord :: "Record read_op" where
  "readRecord =
     rbind binary_Read_int64 (\<lambda>timestamp.
     rbind binary_Read_int64 (\<lambda>offset.
     rbind binary_Read_uint32 (\<lambda>kLen.
     rbind (ReadFull kLen) (\<lambda>key.
     rbind binary_Read_uint32 (\<lambda>vLen.
     rbind (ReadFull vLen) (\<lambda>value.
     rret \<lparr>recTimestamp = timestamp, recOffset = offset, recKey = key, recValue = value\<rparr>))))))"

definition readOkResponsePayload :: "Response \<Rightarrow> bool \<Rightarrow> Response read_op" where
  "readOkResponsePayload resp isConsume =
     rbind binary_Read_int64 (\<lambda>offset.
     let resp = resp\<lparr>rsOffset := offset\<rparr> in
     if \<not> isConsume then rret resp
     else rbind binary_Read_uint32 (\<lambda>numRecs.
          rbind (read_n numRecs readRecord) (\<lambda>recs.
          rret (resp\<lparr>rsRecords := Some recs\<rparr>))))"

text \<open>The error branch that both readers share.\<close>

definition readErrResponse :: "Response \<Rightarrow> Response read_op" where
  "readErrResponse resp =
     rbind binary_Read_uint16 (\<lambda>errLen.
     rbind (ReadFull errLen) (\<lambda>errMsgBuf.
     rret (resp\<lparr>rsErrMsg := string_of errMsgBuf\<rparr>)))"

definition ReadResponse :: "bool \<Rightarrow> Response read_op" where
  "ReadResponse isConsume =
     rbind binary_Read_int32 (\<lambda>totalLen.
     rbind (ReadFull 1) (\<lambda>statusBuf.
     let status = statusBuf ! 0; resp = new_response status in
     if status = StatusErr then readErrResponse resp
     else readOkResponsePayload resp isConsume))"

definition readAssignmentEntry :: "(string \<times> int list) read_op" where
  "readAssignmentEntry =
     rbind readString16 (\<lambda>tName.
     rbind binary_Read_uint16 (\<lambda>pCount.
     rbind (read_n pCount binary_Read_int32) (\<lambda>parts.
     rret (tName, parts))))"

definition readAssignmentPayload :: "assignment read_op" where
  "readAssignmentPayload =
     rbind binary_Read_uint16 (\<lambda>mSize.
     rbind (read_n mSize readAssignmentEntry) (\<lambda>entries.
     rret (foldl (\<lambda>ass (tName, parts). AList.update tName parts ass) [] entries)))"

definition ReadGroupResponse :: "Response read_op" where
  "ReadGroupResponse =
     rbind binary_Read_int32 (\<lambda>totalLen.
     rbind (ReadFull 1) (\<lambda>statusBuf.
     let status = statusBuf ! 0; resp = new_response status in
     if status = StatusErr then readErrResponse resp
     else rbind binary_Read_int32 (\<lambda>gen.
          rbind readAssignmentPayload (\<lambda>ass.
          rret (resp\<lparr>rsGeneration := gen, rsAssignment := Some ass\<rparr>)))))"

section \<open>The bytes of a response\<close>

definition enc_record :: "Record \<Rightarrow> bytes" where
  "enc_record rec = enc_i64 (recTimestamp rec) @ enc_i64 (recOffset rec)
     @ enc_bytes32 (recKey rec) @ enc_bytes32 (recValue rec)"

fun enc_assignment_entry :: "string \<times> int list \<Rightarrow> bytes" where
  "enc_assignment_entry (topic, parts) =
     enc_str16 topic @ be_enc 2 (uint16 (length parts)) @ concat (map enc_i32 parts)"

definition ok_payload :: "Response \<Rightarrow> bytes" where
  "ok_payload resp =
     (if rsToken resp \<noteq> [] then enc_str16 (rsToken resp)
      else case rsAssignment resp of
        Some ass \<Rightarrow> enc_i32 (int32 (rsGeneration resp)) @ be_enc 2 (uint16 (length ass))
           @ concat (map enc_assignment_entry ass)
      | None \<Rightarrow> enc_i64 (rsOffset resp)
           @ (case rsRecords resp of None \<Rightarrow> []
              | Some recs \<Rightarrow> be_enc 4 (uint32 (length recs)) @ concat (map enc_record recs)))"

definition response_body :: "Response \<Rightarrow> bytes" where
  "response_body resp = rsStatus resp #
     (if rsStatus resp = StatusErr then enc_str16 (rsErrMsg resp) else ok_payload resp)"

definition response_frame :: "Response \<Rightarrow> bytes" where
  "response_frame resp = enc_i32 (sint (getResponsePayloadSize resp)) @ response_body resp"

lemma writeRecord_buffer [simp]:
  "writeRecord buffer_write rec buf = (None, buf @ enc_record rec)"
  by (simp add: writeRecord_def binary_Write_defs enc_record_def enc_bytes32_def)
     (simp add: buffer_write_def)

lemma writeRecords_buffer [simp]:
  "writeRecords buffer_write recs buf = (None, buf @ concat (map enc_record recs))"
  by (induction recs arbitrary: buf) (simp_all add: wnil_def chk_def)

lemma writeParts_buffer [simp]:
  "writePartsIgnoringErrors buffer_write ps k buf = k (buf @ concat (map enc_i32 ps))"
  by (induction ps arbitrary: buf) (simp_all add: binary_Write_defs)

lemma writeAssignmentEntries_buffer [simp]:
  "writeAssignmentEntries buffer_write ass buf = (None, buf @ concat (map enc_assignment_entry ass))"
  by (induction ass arbitrary: buf rule: list.induct)
     (auto simp: wnil_def binary_Write_defs enc_str16_def Let_def)

lemma writeOkResponsePayload_buffer:
  "writeOkResponsePayload buffer_write resp buf = (None, buf @ ok_payload resp)"
  by (simp add: writeOkResponsePayload_def ok_payload_def writeAssignmentPayload_def
      binary_Write_defs enc_str16_def Let_def wnil_def split: option.split)
     (simp add: buffer_write_def)

lemma WriteResponse_buffer:
  "WriteResponse buffer_write resp buf = (None, buf @ response_frame resp)"
  by (simp add: WriteResponse_def response_frame_def response_body_def binary_Write_defs
      writeOkResponsePayload_buffer enc_str16_def Let_def)
     (simp add: buffer_write_def)

section \<open>Reading back what was written\<close>

definition wf_record :: "Record \<Rightarrow> bool" where
  "wf_record rec \<longleftrightarrow> in_int64 (recTimestamp rec) \<and> in_int64 (recOffset rec)
     \<and> length (recKey rec) < 4294967296 \<and> length (recValue rec) < 4294967296"

fun wf_assignment_entry :: "string \<times> int list \<Rightarrow> bool" where
  "wf_assignment_entry (topic, parts) \<longleftrightarrow> short topic \<and> length parts < 65536 \<and> list_all in_int32 parts"

interpretation prec: wire_codec enc_record readRecord wf_record
  by unfold_locales (simp add: enc_record_def readRecord_def wf_record_def enc_bytes32_def read_simps)

interpretation entry: wire_codec enc_assignment_entry readAssignmentEntry wf_assignment_entry
proof unfold_locales
  fix x rest e assume "wf_assignment_entry x"
  then show "readAssignmentEntry (Reader (enc_assignment_entry x @ rest) e) = (Inr x, Reader rest e)"
    by (cases x) (simp add: readAssignmentEntry_def read_simps i32.read_n_enc)
qed

lemma foldl_update_distinct:
  "distinct (map fst (ass0 @ ass)) \<Longrightarrow>
     foldl (\<lambda>ass (t, ps). AList.update t ps ass) ass0 ass = ass0 @ ass"
proof (induction ass arbitrary: ass0)
  case Nil
  then show ?case by simp
next
  case (Cons x ass)
  obtain t ps where x: "x = (t, ps)" by fastforce
  have "t \<notin> fst ` set ass0" using Cons.prems x by auto
  then have "AList.update t ps ass0 = ass0 @ [(t, ps)]"
    by (induction ass0) auto
  with Cons.IH [of "ass0 @ [(t, ps)]"] Cons.prems x show ?case by simp
qed

lemma response_size_in_int32 [simp]: "in_int32 (sint (n :: 32 word))"
  using sint_greater_eq [of n] sint_less [of n] by (simp add: in_int32_def)

text \<open>The four shapes of a response, and the reader of each.\<close>

definition plain_response :: "byte \<Rightarrow> int \<Rightarrow> Response" where
  "plain_response st off = (new_response st)\<lparr>rsOffset := off\<rparr>"

definition records_response :: "byte \<Rightarrow> int \<Rightarrow> Record list \<Rightarrow> Response" where
  "records_response st off recs = (new_response st)\<lparr>rsOffset := off, rsRecords := Some recs\<rparr>"

definition error_response :: "string \<Rightarrow> Response" where
  "error_response msg = (new_response StatusErr)\<lparr>rsErrMsg := msg\<rparr>"

definition group_response :: "byte \<Rightarrow> int \<Rightarrow> assignment \<Rightarrow> Response" where
  "group_response st gen ass = (new_response st)\<lparr>rsGeneration := gen, rsAssignment := Some ass\<rparr>"

definition token_response :: "byte \<Rightarrow> string \<Rightarrow> Response" where
  "token_response st token = (new_response st)\<lparr>rsToken := token\<rparr>"

lemmas response_shapes = plain_response_def records_response_def error_response_def
  group_response_def token_response_def new_response_def

lemmas response_defs = response_frame_def response_body_def ok_payload_def ReadResponse_def
  ReadGroupResponse_def readErrResponse_def readOkResponsePayload_def readAssignmentPayload_def

lemma response_size:
  assumes "rsStatus resp = StatusErr \<or> rsToken resp = [] \<or> rsAssignment resp = None"
  shows "word_of_nat (length (response_body resp)) = getResponsePayloadSize resp"
proof -
  have recs: "foldl (\<lambda>size rec. size + 8 + 8 + 4 + len32 (recKey rec) + 4 + len32 (recValue rec)) a recs
          = a + word_of_nat (length (concat (map enc_record recs)))" for a recs
    by (induction recs arbitrary: a) (simp_all add: enc_record_def len32_def)
  have parts: "length (concat (map enc_i32 ps)) = length ps * 4" for ps
    by (induction ps) simp_all
  have ass: "foldl (\<lambda>size (topic, parts). size + 2 + len32 topic + 2 + len32 parts * 4) a ass
          = a + word_of_nat (length (concat (map enc_assignment_entry ass)))" for a ass
    by (induction ass arbitrary: a) (auto simp: len32_def parts)
  show ?thesis
    using assms
    unfolding response_body_def ok_payload_def getResponsePayloadSize_def recs ass
    by (auto simp: len32_def split: option.splits)
qed

lemma plain_response_dec:
  assumes "st \<noteq> StatusErr" and "in_int64 off"
  shows "ReadResponse False (Reader (response_frame (plain_response st off) @ rest) e)
           = (Inr (plain_response st off), Reader rest e)"
  using assms by (simp add: response_defs response_shapes read_simps)

lemma records_response_dec:
  assumes "st \<noteq> StatusErr" and "in_int64 off" and "list_all wf_record recs"
    and "length recs < 4294967296"
  shows "ReadResponse True (Reader (response_frame (records_response st off recs) @ rest) e)
           = (Inr (records_response st off recs), Reader rest e)"
  using assms by (simp add: response_defs response_shapes read_simps prec.read_n_enc)

lemma error_response_dec:
  assumes "short msg"
  shows "ReadResponse isConsume (Reader (response_frame (error_response msg) @ rest) e)
           = (Inr (error_response msg), Reader rest e)"
    and "ReadGroupResponse (Reader (response_frame (error_response msg) @ rest) e)
           = (Inr (error_response msg), Reader rest e)"
  using assms by (simp_all add: response_defs response_shapes read_simps enc_str16_def)

lemma group_response_dec:
  assumes "st \<noteq> StatusErr" and "in_int32 gen" and "list_all wf_assignment_entry ass"
    and "length ass < 65536" and "distinct (map fst ass)"
  shows "ReadGroupResponse (Reader (response_frame (group_response st gen ass) @ rest) e)
           = (Inr (group_response st gen ass), Reader rest e)"
  using assms foldl_update_distinct [of "[]" ass]
  by (simp add: response_defs response_shapes read_simps entry.read_n_enc int32_id)

section \<open>Properties\<close>

text \<open>\<^bold>\<open>C28\<close>: what \<^verbatim>\<open>WriteResponse\<close> puts on the wire for an acknowledgement, for a batch of records and
  for an error, \<^verbatim>\<open>ReadResponse\<close> turns back into the same response, leaving the stream at the next
  frame. The caller has to say whether records are expected.\<close>

theorem response_roundtrip:
  assumes "st \<noteq> StatusErr" and "in_int64 off" and "list_all wf_record recs"
    and "length recs < 4294967296" and "short msg"
  shows "ReadResponse False (Reader (snd (WriteResponse buffer_write (plain_response st off) []) @ rest) e)
           = (Inr (plain_response st off), Reader rest e)
       \<and> ReadResponse True (Reader (snd (WriteResponse buffer_write (records_response st off recs) []) @ rest) e)
           = (Inr (records_response st off recs), Reader rest e)
       \<and> ReadResponse isConsume (Reader (snd (WriteResponse buffer_write (error_response msg) []) @ rest) e)
           = (Inr (error_response msg), Reader rest e)"
  using plain_response_dec [OF assms(1,2)] records_response_dec [OF assms(1,2,3,4)]
    error_response_dec(1) [OF assms(5)]
  by (simp add: WriteResponse_buffer)

theorem response_roundtrip_witness:
  "ReadResponse True (Reader (snd (WriteResponse buffer_write
       (records_response StatusOk 12 [\<lparr>recTimestamp = 5, recOffset = 11, recKey = [1], recValue = []\<rparr>]) [])
       @ [7]) EOF)
   = (Inr (records_response StatusOk 12 [\<lparr>recTimestamp = 5, recOffset = 11, recKey = [1], recValue = []\<rparr>]),
      Reader [7] EOF)"
  using response_roundtrip [of StatusOk 12
      "[\<lparr>recTimestamp = 5, recOffset = 11, recKey = [1], recValue = []\<rparr>]" "[]" "[7]" EOF True]
  by (simp add: StatusOk_def StatusErr_def wf_record_def in_int64_def)

text \<open>The assignment of a group response, whatever order its topics were visited in, is read back
  by \<^verbatim>\<open>ReadGroupResponse\<close> together with the generation.\<close>

theorem group_response_roundtrip:
  assumes "st \<noteq> StatusErr" and "in_int32 gen" and "list_all wf_assignment_entry ass"
    and "length ass < 65536" and "distinct (map fst ass)"
  shows "ReadGroupResponse (Reader (snd (WriteResponse buffer_write (group_response st gen ass) []) @ rest) e)
           = (Inr (group_response st gen ass), Reader rest e)"
  using group_response_dec [OF assms] by (simp add: WriteResponse_buffer)

theorem group_response_roundtrip_witness:
  "ReadGroupResponse (Reader (snd (WriteResponse buffer_write
       (group_response StatusOk 5 [(''topic-1'', [0, 1]), (''b'', [])]) []) @ []) EOF)
   = (Inr (group_response StatusOk 5 [(''topic-1'', [0, 1]), (''b'', [])]), Reader [] EOF)"
  using group_response_roundtrip [of StatusOk 5 "[(''topic-1'', [0, 1]), (''b'', [])]" "[]" EOF]
  by (simp add: StatusOk_def StatusErr_def in_int32_def)

text \<open>The length announced in front of a response is the length of the response (modulo \<open>2^32\<close>),
  unless an ok response carries both a token and an assignment, where size and writer disagree on
  which of the two counts.\<close>

theorem response_length_exact:
  assumes "rsStatus resp = StatusErr \<or> rsToken resp = [] \<or> rsAssignment resp = None"
  shows "getResponsePayloadSize resp = word_of_nat (length (response_body resp))"
  using response_size [OF assms] by simp

theorem response_length_exact_witness:
  "rsStatus (error_response ''no'') = StatusErr \<and>
   getResponsePayloadSize (error_response ''no'') = word_of_nat (length (response_body (error_response ''no'')))"
  using response_length_exact [of "error_response ''no''"] by (simp add: response_shapes)

text \<open>Reading the reply to an authentication with \<^verbatim>\<open>ReadResponse\<close>, as the retry, dead-letter and
  replay clients do, takes the token's length and its first six bytes for an offset and leaves the
  rest of the token in front of the next response.\<close>

theorem token_reply_desynchronises:
  assumes "st \<noteq> StatusErr" and "6 \<le> length token"
  shows "\<exists>off. ReadResponse False
           (Reader (snd (WriteResponse buffer_write (token_response st token) []) @ rest) e)
         = (Inr (plain_response st off), Reader (bytes_of (drop 6 token) @ rest) e)"
proof -
  have "token \<noteq> []" using assms(2) by auto
  with assms show ?thesis
    by (simp add: WriteResponse_buffer response_defs response_shapes read_simps enc_str16_def
        binary_Read_int64_def)
qed

theorem token_reply_desynchronises_witness:
  "\<exists>off. ReadResponse False
     (Reader (snd (WriteResponse buffer_write (token_response StatusOk ''eyJhbGciOiJI'') []) @ []) EOF)
     = (Inr (plain_response StatusOk off), Reader (bytes_of ''ciOiJI'' @ []) EOF)"
  using token_reply_desynchronises [of StatusOk "''eyJhbGciOiJI''" "[]" EOF]
  by (simp add: StatusOk_def StatusErr_def)

end
