(* ===== verification/Sparse_Index.thy ===== *)
theory Sparse_Index
  imports Prelude
begin

text \<open>
  \<^verbatim>\<open>internal/storage/index.go\<close>: the sparse index, a file of 16-byte checkpoints and its copy in
  memory. \<open>search\<close> is the binary search loop of \<^verbatim>\<open>Lookup\<close> and \<^verbatim>\<open>LookupEntry\<close>; the lemmas show that it
  finds the last checkpoint at or before an offset, that reloading the file gives back the
  entries, and what a failed write leaves behind.

  Opening files can fail and so can writing and syncing them; the outcome of those calls is an argument of
  the operations (\<open>open_faults\<close>, \<open>write_fault\<close>), with \<open>None\<close> for success.
\<close>

section \<open>Files\<close>

text \<open>\<^verbatim>\<open>(*os.File).ReadAt\<close>: exactly \<open>n\<close> bytes at \<open>off\<close>, or an error; reading no bytes always works.\<close>

definition file_ReadAt :: "bytes \<Rightarrow> nat \<Rightarrow> int \<Rightarrow> go_error + bytes" where
  "file_ReadAt content n off =
     (if off < 0 then Inl (Err ''negative offset'')
      else if n = 0 \<or> nat off + n \<le> length content then Inr (take n (drop (nat off) content))
      else Inl EOF)"

text \<open>\<^verbatim>\<open>(*os.File).WriteAt\<close>: overwrite from \<open>pos\<close> on, filling a gap with zeros.\<close>

definition file_WriteAt :: "bytes \<Rightarrow> bytes \<Rightarrow> nat \<Rightarrow> bytes" where
  "file_WriteAt content buf pos =
     take pos (content @ replicate (pos - length content) 0) @ buf @ drop (pos + length buf) content"

section \<open>The index\<close>

record IndexEntry =
  LogicalOffset :: int
  PhysicalPos :: int

record SparseIndex =
  idxFile :: bytes
  idxEntries :: "IndexEntry list"
  idxLastSize :: int

definition zeroEntry :: IndexEntry where
  "zeroEntry = \<lparr>LogicalOffset = 0, PhysicalPos = 0\<rparr>"

definition entry_bytes :: "int \<Rightarrow> int \<Rightarrow> bytes" where
  "entry_bytes logicalOffset physicalPos =
     be_enc 8 (uint64_of_int logicalOffset) @ be_enc 8 (uint64_of_int physicalPos)"

definition entry_of_bytes :: "bytes \<Rightarrow> IndexEntry" where
  "entry_of_bytes buf =
     \<lparr>LogicalOffset = int64 (int (be_dec (take 8 buf))),
      PhysicalPos = int64 (int (be_dec (drop 8 buf)))\<rparr>"

text \<open>The loop of \<^verbatim>\<open>loadEntries\<close> over \<open>i = k, k + 1, \<dots>, numEntries - 1\<close>.\<close>

primrec loadEntriesFrom :: "bytes \<Rightarrow> call_fault \<Rightarrow> nat \<Rightarrow> nat \<Rightarrow> go_error + IndexEntry list" where
  "loadEntriesFrom content rd 0 i = Inr []"
| "loadEntriesFrom content rd (Suc n) i =
     (case rd of
        Some e \<Rightarrow> Inl e
      | None \<Rightarrow>
          (case file_ReadAt content 16 (int i * 16) of
             Inl e \<Rightarrow> Inl e
           | Inr buf \<Rightarrow>
               (case loadEntriesFrom content rd n (Suc i) of
                  Inl e \<Rightarrow> Inl e
                | Inr es \<Rightarrow> Inr (entry_of_bytes buf # es))))"

definition loadEntries :: "call_fault \<Rightarrow> call_fault \<Rightarrow> SparseIndex \<Rightarrow> go_error + SparseIndex" where
  "loadEntries stat rd idx =
     (case stat of
        Some e \<Rightarrow> Inl e
      | None \<Rightarrow>
          (let sz = length (idxFile idx); numEntries = sz div 16 in
           case loadEntriesFrom (idxFile idx) rd numEntries 0 of
             Inl e \<Rightarrow> Inl e
           | Inr es \<Rightarrow> Inr (idx\<lparr>idxLastSize := int sz, idxEntries := es\<rparr>)))"

text \<open>What can go wrong while a segment and its index are opened.\<close>

record open_faults =
  oLog :: call_fault
  oLogStat :: call_fault
  oIdx :: call_fault
  oIdxStat :: call_fault
  oIdxRead :: call_fault

definition no_open_faults :: open_faults where
  "no_open_faults = \<lparr>oLog = None, oLogStat = None, oIdx = None, oIdxStat = None, oIdxRead = None\<rparr>"

text \<open>\<^verbatim>\<open>NewSparseIndex\<close> on a file with the given content (empty when the call creates it).\<close>

definition NewSparseIndex :: "open_faults \<Rightarrow> bytes \<Rightarrow> go_error + SparseIndex" where
  "NewSparseIndex flt content =
     (case oIdx flt of
        Some e \<Rightarrow> Inl e
      | None \<Rightarrow> loadEntries (oIdxStat flt) (oIdxRead flt)
          \<lparr>idxFile = content, idxEntries = [], idxLastSize = 0\<rparr>)"

text \<open>\<^verbatim>\<open>Clear\<close>: the memory copy is reset before the file is truncated.\<close>

definition Clear :: "call_fault \<Rightarrow> call_fault \<Rightarrow> SparseIndex \<Rightarrow> go_error option \<times> SparseIndex" where
  "Clear trunc sync idx =
     (let idx = idx\<lparr>idxEntries := [], idxLastSize := 0\<rparr> in
      case trunc of
        Some e \<Rightarrow> (Some e, idx)
      | None \<Rightarrow> (sync, idx\<lparr>idxFile := []\<rparr>))"

definition AddEntry ::
  "write_fault \<Rightarrow> call_fault \<Rightarrow> int \<Rightarrow> int \<Rightarrow> SparseIndex \<Rightarrow> go_error option \<times> SparseIndex" where
  "AddEntry wr sync logicalOffset physicalPos idx =
     (let buf = entry_bytes logicalOffset physicalPos;
          pos = nat (idxLastSize idx) in
      case wr of
        Some (n, e) \<Rightarrow> (Some e, idx\<lparr>idxFile := file_WriteAt (idxFile idx) (take n buf) pos\<rparr>)
      | None \<Rightarrow>
          (let idx = idx\<lparr>idxFile := file_WriteAt (idxFile idx) buf pos\<rparr> in
           case sync of
             Some e \<Rightarrow> (Some e, idx)
           | None \<Rightarrow>
               (None, idx\<lparr>idxLastSize := idxLastSize idx + 16,
                  idxEntries := idxEntries idx @
                    [\<lparr>LogicalOffset = logicalOffset, PhysicalPos = physicalPos\<rparr>]\<rparr>)))"

text \<open>The loop \<^verbatim>\<open>for low <= high\<close> of the two lookups, with \<open>ans = -1\<close> for "none yet".\<close>

function search :: "IndexEntry list \<Rightarrow> int \<Rightarrow> int \<Rightarrow> int \<Rightarrow> int \<Rightarrow> int" where
  "search entries logicalOffset low high ans =
     (if low \<le> high then
        let mid = low + (high - low) div 2 in
        if LogicalOffset (entries ! nat mid) \<le> logicalOffset
        then search entries logicalOffset (mid + 1) high mid
        else search entries logicalOffset low (mid - 1) ans
      else ans)"
  by pat_completeness auto
termination
  by (relation "measure (\<lambda>(es, t, low, high, ans). nat (high - low + 1))") auto

declare search.simps [simp del]

definition Lookup :: "SparseIndex \<Rightarrow> int \<Rightarrow> int" where
  "Lookup idx logicalOffset =
     (if idxEntries idx = [] then 0
      else let ans = search (idxEntries idx) logicalOffset 0 (int (length (idxEntries idx)) - 1) (- 1) in
           if ans = - 1 then 0 else PhysicalPos (idxEntries idx ! nat ans))"

definition LookupEntry :: "SparseIndex \<Rightarrow> int \<Rightarrow> IndexEntry" where
  "LookupEntry idx logicalOffset =
     (if idxEntries idx = [] then zeroEntry
      else let ans = search (idxEntries idx) logicalOffset 0 (int (length (idxEntries idx)) - 1) (- 1) in
           if ans = - 1 then zeroEntry else idxEntries idx ! nat ans)"

section \<open>The search\<close>

text \<open>Entries in increasing order of their offsets, and the entry a linear scan would find.\<close>

definition sorted_entries :: "IndexEntry list \<Rightarrow> bool" where
  "sorted_entries es \<longleftrightarrow> sorted_wrt (\<lambda>a b. LogicalOffset a < LogicalOffset b) es"

definition last_at_or_before :: "IndexEntry list \<Rightarrow> int \<Rightarrow> IndexEntry" where
  "last_at_or_before es t =
     (case filter (\<lambda>e. LogicalOffset e \<le> t) es of [] \<Rightarrow> zeroEntry | e # r \<Rightarrow> last (e # r))"

text \<open>The loop keeps: everything below \<open>low\<close> is at or before the target and \<open>ans\<close> is the last of it,
  everything above \<open>high\<close> is after the target.\<close>

lemma sorted_entries_mono:
  "sorted_entries es \<Longrightarrow> i \<le> j \<Longrightarrow> j < length es \<Longrightarrow> LogicalOffset (es ! i) \<le> LogicalOffset (es ! j)"
  unfolding sorted_entries_def sorted_wrt_iff_nth_less
  by (cases "i = j") (auto intro: order_less_imp_le)

lemma search_correct:
  assumes "sorted_entries es" "ans = low - 1" "0 \<le> low" "low \<le> high + 1" "high < int (length es)"
    and "\<forall>i < length es. int i < low \<longrightarrow> LogicalOffset (es ! i) \<le> t"
    and "\<forall>i < length es. high < int i \<longrightarrow> t < LogicalOffset (es ! i)"
  shows "- 1 \<le> search es t low high ans \<and> search es t low high ans < int (length es) \<and>
         (\<forall>i < length es. int i \<le> search es t low high ans \<longleftrightarrow> LogicalOffset (es ! i) \<le> t)"
  using assms
proof (induction es t low high ans rule: search.induct)
  case (1 es t low high ans)
  show ?case
  proof (cases "low \<le> high")
    case False
    then have "search es t low high ans = ans" by (subst search.simps) simp
    with False "1.prems"(2,4) have r: "search es t low high ans = high" and lh: "low = high + 1"
      by linarith+
    have "int i \<le> high \<longleftrightarrow> LogicalOffset (es ! i) \<le> t" if "i < length es" for i
      using "1.prems"(6,7) that lh by (cases "int i \<le> high") auto
    with r lh "1.prems"(3,5) show ?thesis by simp
  next
    case True
    define mid where "mid = low + (high - low) div 2"
    have mid: "low \<le> mid" "mid \<le> high" "nat mid < length es" "0 \<le> mid"
      using True "1.prems"(3,5) by (auto simp: mid_def)
    note mono = sorted_entries_mono [OF "1.prems"(1)]
    show ?thesis
    proof (cases "LogicalOffset (es ! nat mid) \<le> t")
      case le: True
      have "LogicalOffset (es ! i) \<le> t" if "i < length es" "int i < mid + 1" for i
        using mono [of i "nat mid"] that mid le by linarith
      then have "\<forall>i < length es. int i < mid + 1 \<longrightarrow> LogicalOffset (es ! i) \<le> t" by blast
      moreover have "search es t low high ans = search es t (mid + 1) high mid"
        using True le by (subst search.simps) (simp add: Let_def mid_def)
      ultimately show ?thesis
        using "1.IH"(1) [OF True mid_def le] "1.prems"(1,3,5,7) mid by simp
    next
      case gt: False
      have "t < LogicalOffset (es ! i)" if "i < length es" "mid - 1 < int i" for i
        using mono [of "nat mid" i] that mid gt by linarith
      then have "\<forall>i < length es. mid - 1 < int i \<longrightarrow> t < LogicalOffset (es ! i)" by blast
      moreover have "search es t low high ans = search es t low (mid - 1) ans"
        using True gt by (subst search.simps) (simp add: Let_def mid_def)
      ultimately show ?thesis
        using "1.IH"(2) [OF True mid_def gt] "1.prems"(1,2,3,5,6) mid by simp
    qed
  qed
qed

lemma search_all:
  fixes t :: int
  assumes "sorted_entries es"
  defines "r \<equiv> search es t 0 (int (length es) - 1) (- 1)"
  shows "- 1 \<le> r" "r < int (length es)"
    "i < length es \<Longrightarrow> int i \<le> r \<longleftrightarrow> LogicalOffset (es ! i) \<le> t"
  using search_correct [OF assms(1), of "- 1" 0 "int (length es) - 1" t] by (auto simp: r_def)

lemma filter_take_prefix:
  assumes "\<And>i. i < length xs \<Longrightarrow> P (xs ! i) \<longleftrightarrow> i < k" and "k \<le> length xs"
  shows "filter P xs = take k xs"
proof -
  have "filter P (take k xs) = take k xs"
    using assms by (auto simp: filter_id_conv in_set_conv_nth)
  moreover have "filter P (drop k xs) = []"
    using assms by (auto simp: filter_empty_conv in_set_conv_nth)
  ultimately show ?thesis
    by (metis append_Nil2 append_take_drop_id filter_append)
qed

lemma LookupEntry_correct:
  assumes "sorted_entries (idxEntries idx)"
  shows "LookupEntry idx t = last_at_or_before (idxEntries idx) t"
proof -
  let ?es = "idxEntries idx"
  define r where "r = search ?es t 0 (int (length ?es) - 1) (- 1)"
  note r = search_all [OF assms, where t = t, folded r_def]
  have f: "filter (\<lambda>e. LogicalOffset e \<le> t) ?es = take (nat (r + 1)) ?es"
  proof (rule filter_take_prefix)
    show "nat (r + 1) \<le> length ?es" using r(2) by simp
    show "LogicalOffset (?es ! i) \<le> t \<longleftrightarrow> i < nat (r + 1)" if "i < length ?es" for i
      unfolding r(3) [OF that, symmetric] by linarith
  qed
  show ?thesis
  proof (cases "r = - 1")
    case True
    then show ?thesis using f
      by (simp add: LookupEntry_def last_at_or_before_def Let_def flip: r_def)
  next
    case False
    with r have k: "nat (r + 1) = Suc (nat r)" "nat r < length ?es" by auto
    then have "last (take (Suc (nat r)) ?es) = ?es ! nat r" and "take (Suc (nat r)) ?es \<noteq> []"
      by (auto simp: take_Suc_conv_app_nth)
    with f k False show ?thesis
      by (auto simp: LookupEntry_def last_at_or_before_def Let_def split: list.splits simp flip: r_def)
  qed
qed

lemma Lookup_LookupEntry: "Lookup idx t = PhysicalPos (LookupEntry idx t)"
  by (simp add: Lookup_def LookupEntry_def zeroEntry_def Let_def)

section \<open>Loading and storing\<close>

text \<open>The index file holds exactly the entries, one after the other.\<close>

definition entry_enc :: "IndexEntry \<Rightarrow> bytes" where
  "entry_enc e = entry_bytes (LogicalOffset e) (PhysicalPos e)"

definition wf_entry :: "IndexEntry \<Rightarrow> bool" where
  "wf_entry e \<longleftrightarrow> in_int64 (LogicalOffset e) \<and> in_int64 (PhysicalPos e)"

definition idx_ok :: "SparseIndex \<Rightarrow> bool" where
  "idx_ok idx \<longleftrightarrow> idxFile idx = concat (map entry_enc (idxEntries idx))
     \<and> idxLastSize idx = int (length (idxFile idx)) \<and> list_all wf_entry (idxEntries idx)"

lemma length_entry_enc [simp]: "length (entry_enc e) = 16"
  by (simp add: entry_enc_def entry_bytes_def)

lemma length_concat_entry_enc [simp]: "length (concat (map entry_enc es)) = 16 * length es"
  by (induction es) simp_all

lemma entry_of_bytes_enc: "wf_entry e \<Longrightarrow> entry_of_bytes (entry_enc e) = e"
  using uint64_of_int_less
  by (simp add: entry_of_bytes_def entry_enc_def entry_bytes_def wf_entry_def)

lemma loadEntriesFrom_enc:
  assumes "list_all wf_entry es" and "length pre = 16 * i"
  shows "loadEntriesFrom (pre @ concat (map entry_enc es)) None (length es) i = Inr es"
  using assms
proof (induction es arbitrary: pre i)
  case Nil
  then show ?case by simp
next
  case (Cons e es)
  have "loadEntriesFrom ((pre @ entry_enc e) @ concat (map entry_enc es)) None (length es) (Suc i) = Inr es"
    using Cons.prems by (intro Cons.IH) simp_all
  moreover have "file_ReadAt (pre @ entry_enc e @ concat (map entry_enc es)) 16 (int i * 16) = Inr (entry_enc e)"
    using Cons.prems(2) by (simp add: file_ReadAt_def nat_mult_distrib)
  ultimately show ?case
    using Cons.prems(1) by (simp add: entry_of_bytes_enc)
qed

lemma NewSparseIndex_reload:
  assumes "idx_ok idx"
  shows "NewSparseIndex no_open_faults (idxFile idx) = Inr idx"
  using assms loadEntriesFrom_enc [of "idxEntries idx" "[]" 0]
  by (simp add: NewSparseIndex_def loadEntries_def no_open_faults_def idx_ok_def Let_def)

text \<open>An index file of any content is loaded; a torn entry at its end is left out.\<close>

lemma loadEntriesFrom_loads: "(i + n) * 16 \<le> length content \<Longrightarrow> \<exists>es. loadEntriesFrom content None n i = Inr es"
proof (induction n arbitrary: i)
  case (Suc n)
  then obtain es where "loadEntriesFrom content None n (Suc i) = Inr es" by fastforce
  moreover have "nat (int i * 16) + 16 \<le> length content" using Suc.prems by (simp add: nat_mult_distrib)
  ultimately show ?case by (simp add: file_ReadAt_def)
qed simp

lemma NewSparseIndex_loads: "\<exists>idx. NewSparseIndex no_open_faults content = Inr idx"
proof -
  obtain es where "loadEntriesFrom content None (length content div 16) 0 = Inr es"
    using loadEntriesFrom_loads [of 0 "length content div 16" content] by auto
  then show ?thesis by (simp add: NewSparseIndex_def loadEntries_def no_open_faults_def Let_def)
qed

lemma NewSparseIndex_empty:
  "NewSparseIndex no_open_faults [] = Inr \<lparr>idxFile = [], idxEntries = [], idxLastSize = 0\<rparr>"
  by (simp add: NewSparseIndex_def loadEntries_def no_open_faults_def Let_def)

lemma AddEntry_ok:
  assumes "idx_ok idx" "in_int64 l" "in_int64 p"
  shows "AddEntry None None l p idx = (None, idx\<lparr>idxFile := idxFile idx @ entry_bytes l p,
     idxLastSize := idxLastSize idx + 16,
     idxEntries := idxEntries idx @ [\<lparr>LogicalOffset = l, PhysicalPos = p\<rparr>]\<rparr>)"
  using assms by (simp add: AddEntry_def idx_ok_def file_WriteAt_def Let_def)

lemma AddEntry_idx_ok:
  assumes "idx_ok idx" "in_int64 l" "in_int64 p"
  shows "idx_ok (snd (AddEntry None None l p idx))"
  using assms unfolding AddEntry_ok [OF assms]
  by (simp add: idx_ok_def entry_enc_def entry_bytes_def wf_entry_def)

section \<open>Properties\<close>

text \<open>\<^bold>\<open>C27\<close>: on an index whose offsets increase, the binary search of \<^verbatim>\<open>LookupEntry\<close> and of \<^verbatim>\<open>Lookup\<close> finds the
  entry a linear scan finds, the last one at or before the requested offset, and the zero
  entry when there is none. The loop reads no entry outside the slice.\<close>

theorem lookup_finds_last_checkpoint:
  assumes "sorted_entries (idxEntries idx)"
  shows "LookupEntry idx t = last_at_or_before (idxEntries idx) t
       \<and> Lookup idx t = PhysicalPos (last_at_or_before (idxEntries idx) t)
       \<and> search (idxEntries idx) t 0 (int (length (idxEntries idx)) - 1) (- 1)
           \<in> {- 1..<int (length (idxEntries idx))}"
  using LookupEntry_correct [OF assms] search_all(1,2) [OF assms] Lookup_LookupEntry by simp

definition sample_index :: SparseIndex where
  "sample_index = snd (AddEntry None None 20 1200 (snd (AddEntry None None 10 500
     (snd (AddEntry None None 0 0 \<lparr>idxFile = [], idxEntries = [], idxLastSize = 0\<rparr>)))))"

theorem lookup_finds_last_checkpoint_witness:
  "sorted_entries (idxEntries sample_index) \<and> LookupEntry sample_index 15 = \<lparr>LogicalOffset = 10, PhysicalPos = 500\<rparr>
   \<and> Lookup sample_index 15 = 500"
proof -
  have es: "idxEntries sample_index = [\<lparr>LogicalOffset = 0, PhysicalPos = 0\<rparr>,
      \<lparr>LogicalOffset = 10, PhysicalPos = 500\<rparr>, \<lparr>LogicalOffset = 20, PhysicalPos = 1200\<rparr>]"
    by (simp add: sample_index_def AddEntry_def Let_def)
  then have s: "sorted_entries (idxEntries sample_index)"
    by (simp add: sorted_entries_def)
  with lookup_finds_last_checkpoint [OF s, of 15] es show ?thesis
    by (simp add: last_at_or_before_def)
qed

text \<open>An index file written by \<^verbatim>\<open>AddEntry\<close> is loaded back entry for entry, and adding an entry
  keeps memory and file in step.\<close>

theorem index_reload:
  assumes "idx_ok idx" and "in_int64 l" and "in_int64 p"
  shows "NewSparseIndex no_open_faults (idxFile (snd (AddEntry None None l p idx)))
           = Inr (snd (AddEntry None None l p idx))
       \<and> idxEntries (snd (AddEntry None None l p idx))
           = idxEntries idx @ [\<lparr>LogicalOffset = l, PhysicalPos = p\<rparr>]"
  using NewSparseIndex_reload [OF AddEntry_idx_ok [OF assms]] AddEntry_ok [OF assms] by simp

theorem index_reload_witness:
  "idx_ok \<lparr>idxFile = [], idxEntries = [], idxLastSize = 0\<rparr> \<and>
   NewSparseIndex no_open_faults
     (idxFile (snd (AddEntry None None 7 4096 \<lparr>idxFile = [], idxEntries = [], idxLastSize = 0\<rparr>)))
   = Inr (snd (AddEntry None None 7 4096 \<lparr>idxFile = [], idxEntries = [], idxLastSize = 0\<rparr>))"
proof -
  have ok: "idx_ok \<lparr>idxFile = [], idxEntries = [], idxLastSize = 0\<rparr>"
    by (simp add: idx_ok_def)
  show ?thesis
    using ok index_reload [OF ok, of 7 4096] by (simp add: in_int64_def)
qed

end
