(* ===== verification/Segment.thy ===== *)
theory Segment
  imports Sparse_Index
begin

text \<open>
  \<^verbatim>\<open>internal/storage/segment.go\<close>: one partition's append-only log with group commit.

  The open log file is the byte list \<open>segFile\<close>, the index file and its entries are in
  \<open>segIndex\<close>, and records accumulate in \<open>segBatch\<close> until a flush appends them to the file. Locks are
  not modelled: every operation below runs under the locks the source takes. The clock is
  an argument of \<open>AppendBatch\<close>, the outcome of system calls the argument \<open>flush_faults\<close>.

  The contract of a log is the locale \<open>append_log\<close>: a log represents the list of messages on disk
  and the list of messages not yet flushed. \<open>seg_rep\<close> says what that means for the bytes, the index
  and the counters, every operation is shown to keep it, and the locale is interpreted on the segment.
\<close>

section \<open>State\<close>

record LogRecord =
  lrTimestamp :: int
  lrOffset :: int
  lrKey :: bytes
  lrValue :: bytes

record Segment =
  segPath :: string
  segFile :: bytes
  segClosed :: bool
  segSize :: int
  segIndex :: SparseIndex
  segNextOffset :: int
  segLastIndexedSize :: int
  segBatch :: bytes
  segBatchSize :: int
  segBatchStartOffset :: int

record flush_faults =
  fWrite :: write_fault
  fSync :: call_fault
  fIdxWrite :: write_fault
  fIdxSync :: call_fault

definition no_faults :: flush_faults where
  "no_faults = \<lparr>fWrite = None, fSync = None, fIdxWrite = None, fIdxSync = None\<rparr>"

definition ErrClosed :: go_error where
  "ErrClosed = Err ''file already closed''"

definition getIndexPath :: "string \<Rightarrow> string" where
  "getIndexPath logPath =
     (if length logPath > 4 \<and> drop (length logPath - 4) logPath = ''.log''
      then take (length logPath - 4) logPath @ ''.index''
      else logPath @ ''.index'')"

section \<open>Reading\<close>

definition seg_ReadAt :: "Segment \<Rightarrow> nat \<Rightarrow> int \<Rightarrow> go_error + bytes" where
  "seg_ReadAt s n off = (if segClosed s then Inl ErrClosed else file_ReadAt (segFile s) n off)"

text \<open>Timestamp, key, value and the position of the next record.\<close>

definition readAtNoLock :: "Segment \<Rightarrow> int \<Rightarrow> go_error + (int \<times> bytes \<times> bytes \<times> int)" where
  "readAtNoLock s offset =
     (case seg_ReadAt s 8 offset of Inl e \<Rightarrow> Inl e | Inr tsBuf \<Rightarrow>
      (case seg_ReadAt s 4 (offset + 8) of Inl e \<Rightarrow> Inl e | Inr keyLenBuf \<Rightarrow>
       let kLen = be_dec keyLenBuf in
       (case seg_ReadAt s kLen (offset + 12) of Inl e \<Rightarrow> Inl e | Inr key \<Rightarrow>
        (case seg_ReadAt s 4 (offset + 12 + int kLen) of Inl e \<Rightarrow> Inl e | Inr valLenBuf \<Rightarrow>
         let vLen = be_dec valLenBuf in
         (case seg_ReadAt s vLen (offset + 12 + int kLen + 4) of Inl e \<Rightarrow> Inl e | Inr value \<Rightarrow>
          Inr (int64 (int (be_dec tsBuf)), key, value, offset + 12 + int kLen + 4 + int vLen))))))"

lemma readAtNoLock_advances:
  "readAtNoLock s pos = Inr (ts, k, v, next) \<Longrightarrow> pos + 16 \<le> next"
  by (auto simp: readAtNoLock_def Let_def split: sum.splits)

text \<open>The scan loop of \<^verbatim>\<open>recoverNextOffset\<close>.\<close>

function recoverScan :: "Segment \<Rightarrow> int \<Rightarrow> int \<Rightarrow> int \<times> int" where
  "recoverScan s currPos logicalOffset =
     (if currPos < segSize s then
        (case readAtNoLock s currPos of
           Inl e \<Rightarrow> (currPos, logicalOffset)
         | Inr (ts, k, v, next) \<Rightarrow> recoverScan s next (logicalOffset + 1))
      else (currPos, logicalOffset))"
  by pat_completeness auto
termination
  by (relation "measure (\<lambda>(s, pos, off). nat (segSize s - pos))")
     (auto dest: readAtNoLock_advances)

declare recoverScan.simps [simp del]

definition recoverNextOffset :: "Segment \<Rightarrow> Segment" where
  "recoverNextOffset s =
     (let entries = idxEntries (segIndex s);
          (currPos, logicalOffset) =
            (if entries \<noteq> [] then (PhysicalPos (last entries), LogicalOffset (last entries)) else (0, 0));
          (currPos, logicalOffset) = recoverScan s currPos logicalOffset
      in s\<lparr>segNextOffset := logicalOffset, segLastIndexedSize := currPos\<rparr>)"

text \<open>\<^verbatim>\<open>NewSegment\<close> on a log file and an index file with the given contents; \<open>None\<close> is the panic of the flush ticker.\<close>

definition NewSegment :: "open_faults \<Rightarrow> string \<Rightarrow> bytes \<Rightarrow> bytes \<Rightarrow> int \<Rightarrow> int \<Rightarrow> (go_error + Segment) option" where
  "NewSegment flt path content idxContent flushInt batchSize =
     (case oLog flt of Some e \<Rightarrow> Some (Inl e) | None \<Rightarrow>
      (case oLogStat flt of Some e \<Rightarrow> Some (Inl e) | None \<Rightarrow>
       (case NewSparseIndex flt idxContent of Inl e \<Rightarrow> Some (Inl e) | Inr idx \<Rightarrow>
        Option.bind (NewTicker flushInt) (\<lambda>_.
        Some (Inr (recoverNextOffset
          \<lparr>segPath = path, segFile = content, segClosed = False, segSize = int (length content),
           segIndex = idx, segNextOffset = 0, segLastIndexedSize = 0, segBatch = [],
           segBatchSize = batchSize, segBatchStartOffset = 0\<rparr>))))))"

function seekLoop :: "Segment \<Rightarrow> int \<Rightarrow> int \<Rightarrow> int \<Rightarrow> int \<times> int \<times> go_error option" where
  "seekLoop s targetLogical currPos currLogical =
     (if currLogical < targetLogical then
        if currPos \<ge> segSize s then (currPos, currLogical, None)
        else (case readAtNoLock s currPos of
                Inl e \<Rightarrow> (currPos, currLogical, Some e)
              | Inr (ts, k, v, next) \<Rightarrow> seekLoop s targetLogical next (currLogical + 1))
      else (currPos, currLogical, None))"
  by pat_completeness auto
termination
  by (relation "measure (\<lambda>(s, t, pos, off). nat (t - off))") auto

declare seekLoop.simps [simp del]

definition seekPhysicalPos :: "Segment \<Rightarrow> int \<Rightarrow> int \<times> int \<times> go_error option" where
  "seekPhysicalPos s targetLogical =
     (let entry = LookupEntry (segIndex s) targetLogical
      in seekLoop s targetLogical (PhysicalPos entry) (LogicalOffset entry))"

definition ReadAt :: "Segment \<Rightarrow> int \<Rightarrow> go_error + (bytes \<times> bytes \<times> int)" where
  "ReadAt s logicalOffset =
     (case seekPhysicalPos s logicalOffset of
        (currPos, currLogical, Some e) \<Rightarrow> Inl e
      | (currPos, currLogical, None) \<Rightarrow>
          if currPos \<ge> segSize s then Inl EOF
          else (case readAtNoLock s currPos of
                  Inl e \<Rightarrow> Inl e
                | Inr (ts, key, val, next) \<Rightarrow> Inr (key, val, logicalOffset + 1)))"

text \<open>The loop of \<^verbatim>\<open>ReadRecords\<close>, with the records collected from here on and the final offset.\<close>

function readLoop :: "Segment \<Rightarrow> int \<Rightarrow> int \<Rightarrow> int \<Rightarrow> int \<Rightarrow> LogRecord list \<times> int" where
  "readLoop s maxBytes currPos currLogical bytesRead =
     (if currPos \<ge> segSize s \<or> (maxBytes > 0 \<and> bytesRead \<ge> maxBytes) then ([], currLogical)
      else (case readAtNoLock s currPos of
              Inl e \<Rightarrow> ([], currLogical)
            | Inr (ts, key, val, next) \<Rightarrow>
                (let (recs, final) =
                       readLoop s maxBytes next (currLogical + 1) (bytesRead + (next - currPos))
                 in (\<lparr>lrTimestamp = ts, lrOffset = currLogical, lrKey = key, lrValue = val\<rparr> # recs, final))))"
  by pat_completeness auto
termination
  by (relation "measure (\<lambda>(s, m, pos, off, b). nat (segSize s - pos))")
     (auto dest: readAtNoLock_advances)

declare readLoop.simps [simp del]

definition ReadRecords :: "Segment \<Rightarrow> int \<Rightarrow> int \<Rightarrow> (LogRecord list \<times> int) \<times> go_error option" where
  "ReadRecords s startLogical maxBytes =
     (case seekPhysicalPos s startLogical of
        (currPos, currLogical, Some e) \<Rightarrow> (([], startLogical), Some e)
      | (currPos, currLogical, None) \<Rightarrow> (readLoop s maxBytes currPos currLogical 0, None))"

definition Size :: "Segment \<Rightarrow> int" where
  "Size s = segSize s"

section \<open>Writing\<close>

definition flush :: "flush_faults \<Rightarrow> Segment \<Rightarrow> go_error option \<times> Segment" where
  "flush flt s =
     (if segBatch s = [] then (None, s)
      else
        let buf = segBatch s in
        if segClosed s then (Some ErrClosed, s)
        else case fWrite flt of
          Some (n, e) \<Rightarrow> (Some e, s\<lparr>segFile := segFile s @ take n buf\<rparr>)
        | None \<Rightarrow>
            (let s = s\<lparr>segFile := segFile s @ buf\<rparr> in
             case fSync flt of
               Some e \<Rightarrow> (Some e, s)
             | None \<Rightarrow>
                 (let physicalPos = segSize s;
                      s = s\<lparr>segSize := segSize s + int (length buf)\<rparr> in
                  if physicalPos = 0 \<or> segSize s - segLastIndexedSize s \<ge> 4096 then
                    (case AddEntry (fIdxWrite flt) (fIdxSync flt) (segBatchStartOffset s) physicalPos (segIndex s) of
                       (Some e, idx) \<Rightarrow> (Some e, s\<lparr>segIndex := idx\<rparr>)
                     | (None, idx) \<Rightarrow>
                         (None, s\<lparr>segIndex := idx, segLastIndexedSize := segSize s, segBatch := []\<rparr>))
                  else (None, s\<lparr>segBatch := []\<rparr>))))"

text \<open>The bytes of a record: timestamp, key and value with their lengths.\<close>

definition record_bytes :: "int \<Rightarrow> bytes \<Rightarrow> bytes \<Rightarrow> bytes" where
  "record_bytes timestamp key value =
     be_enc 8 (uint64_of_int timestamp) @ be_enc 4 (uint32 (length key)) @ key
       @ be_enc 4 (uint32 (length value)) @ value"

definition AppendBatch :: "flush_faults \<Rightarrow> int \<Rightarrow> bytes \<Rightarrow> bytes \<Rightarrow> Segment \<Rightarrow> int \<times> Segment" where
  "AppendBatch flt now key value s =
     (let s = (if segBatch s = [] then s\<lparr>segBatchStartOffset := segNextOffset s\<rparr> else s);
          logicalOffset = segNextOffset s;
          s = s\<lparr>segNextOffset := segNextOffset s + 1\<rparr>;
          s = s\<lparr>segBatch := segBatch s @ record_bytes now key value\<rparr>;
          shouldFlush = (int (length (segBatch s)) \<ge> segBatchSize s);
          s = (if shouldFlush then snd (flush flt s) else s)
      in (logicalOffset, s))"

text \<open>\<^verbatim>\<open>Close\<close>; closing a closed segment panics on its \<^verbatim>\<open>flushDone\<close> channel, which is \<open>None\<close> here.\<close>

definition Close :: "flush_faults \<Rightarrow> Segment \<Rightarrow> Segment option" where
  "Close flt s = (if segClosed s then None else Some ((snd (flush flt s))\<lparr>segClosed := True\<rparr>))"

section \<open>What the files hold\<close>

text \<open>Whatever the index says: a segment opens on any two files, appends add the bytes of the record at the end, and a
  flush moves the batch into the log.\<close>

lemma NewSegment_opens:
  assumes "0 < flushInt"
  obtains s where "NewSegment no_open_faults path content idxContent flushInt batchSize = Some (Inr s)"
    "segPath s = path" "segFile s = content" "segBatch s = []" "\<not> segClosed s"
proof -
  obtain idx where idx: "NewSparseIndex no_open_faults idxContent = Inr idx" using NewSparseIndex_loads by blast
  let ?s0 = "\<lparr>segPath = path, segFile = content, segClosed = False, segSize = int (length content),
           segIndex = idx, segNextOffset = 0, segLastIndexedSize = 0, segBatch = [],
           segBatchSize = batchSize, segBatchStartOffset = 0\<rparr>"
  have "NewSegment no_open_faults path content idxContent flushInt batchSize = Some (Inr (recoverNextOffset ?s0))"
    using assms idx by (simp add: NewSegment_def no_open_faults_def)
  then show thesis by (rule that) (simp_all add: recoverNextOffset_def Let_def split: prod.split)
qed

lemma flush_bytes:
  assumes "\<not> segClosed s"
  shows "segFile (snd (flush no_faults s)) = segFile s @ segBatch s" "segBatch (snd (flush no_faults s)) = []"
    "\<not> segClosed (snd (flush no_faults s))"
  using assms by (simp_all add: flush_def no_faults_def AddEntry_def Let_def)

lemma AppendBatch_bytes:
  assumes "\<not> segClosed s"
  shows "segFile (snd (AppendBatch no_faults now k v s)) @ segBatch (snd (AppendBatch no_faults now k v s))
      = segFile s @ segBatch s @ record_bytes now k v" "\<not> segClosed (snd (AppendBatch no_faults now k v s))"
  using assms flush_bytes by (simp_all add: AppendBatch_def Let_def)

text \<open>A segment that is already closed still takes appends and numbers them, and nothing of them reaches the file.\<close>

lemma append_after_close:
  assumes "segClosed s"
  shows "fst (AppendBatch flt now k v s) = segNextOffset s" "segFile (snd (AppendBatch flt now k v s)) = segFile s"
    "segNextOffset (snd (AppendBatch flt now k v s)) = segNextOffset s + 1" "segFile (snd (flush flt s)) = segFile s"
proof -
  have fl: "flush flt s' = (if segBatch s' = [] then None else Some ErrClosed, s')" if "segClosed s'" for s'
    using that by (simp add: flush_def)
  show "fst (AppendBatch flt now k v s) = segNextOffset s" "segFile (snd (AppendBatch flt now k v s)) = segFile s"
    "segNextOffset (snd (AppendBatch flt now k v s)) = segNextOffset s + 1" "segFile (snd (flush flt s)) = segFile s"
    using assms by (simp_all add: AppendBatch_def Let_def fl)
qed

section \<open>What a segment stores\<close>

text \<open>A message is a timestamp, a key and a value; \<open>pos ms i\<close> is where message \<open>i\<close> starts in the file.\<close>

type_synonym msg = "int \<times> bytes \<times> bytes"

fun enc_msg :: "msg \<Rightarrow> bytes" where
  "enc_msg (ts, key, value) = record_bytes ts key value"

fun wf_msg :: "msg \<Rightarrow> bool" where
  "wf_msg (ts, key, value) \<longleftrightarrow> in_int64 ts \<and> length key < 4294967296 \<and> length value < 4294967296"

definition enc_msgs :: "msg list \<Rightarrow> bytes" where
  "enc_msgs ms = concat (map enc_msg ms)"

definition pos :: "msg list \<Rightarrow> nat \<Rightarrow> int" where
  "pos ms i = int (length (enc_msgs (take i ms)))"

lemma enc_msgs_simps [simp]:
  "enc_msgs [] = []" "enc_msgs (m # ms) = enc_msg m @ enc_msgs ms"
  "enc_msgs (ms @ ns) = enc_msgs ms @ enc_msgs ns"
  by (simp_all add: enc_msgs_def)

lemma length_enc_msg: "16 \<le> length (enc_msg m)"
  by (cases m) (simp add: record_bytes_def)

lemma length_enc_msgs: "16 * length ms \<le> length (enc_msgs ms)"
  using length_enc_msg by (induction ms) (auto intro: add_mono)

lemma enc_msgs_empty [simp]: "enc_msgs ms = [] \<longleftrightarrow> ms = []"
  using length_enc_msgs [of ms] by (cases ms) auto

lemma pos_0 [simp]: "pos ms 0 = 0"
  by (simp add: pos_def)

lemma pos_length [simp]: "pos ms (length ms) = int (length (enc_msgs ms))"
  by (simp add: pos_def)

lemma pos_Suc: "i < length ms \<Longrightarrow> pos ms (Suc i) = pos ms i + int (length (enc_msg (ms ! i)))"
  by (simp add: pos_def take_Suc_conv_app_nth)

lemma pos_append: "i \<le> length ms \<Longrightarrow> pos (ms @ ns) i = pos ms i"
  by (simp add: pos_def)

lemma pos_less:
  assumes "i < length ms"
  shows "pos ms i < int (length (enc_msgs ms))"
proof -
  have "enc_msgs ms = enc_msgs (take i ms) @ enc_msg (ms ! i) @ enc_msgs (drop (Suc i) ms)"
    unfolding enc_msgs_def by (rule concat_map_split_nth [OF assms])
  then show ?thesis
    using length_enc_msg [of "ms ! i"] by (simp add: pos_def)
qed

text \<open>The file part of the representation: the bytes of the messages, all of them well-formed.\<close>

definition file_rep :: "Segment \<Rightarrow> msg list \<Rightarrow> bool" where
  "file_rep s ms \<longleftrightarrow> \<not> segClosed s \<and> segFile s = enc_msgs ms
     \<and> segSize s = int (length (segFile s)) \<and> list_all wf_msg ms"

lemma readAtNoLock_bytes:
  assumes "\<not> segClosed s" "segFile s = pre @ record_bytes ts k v @ post" "wf_msg (ts, k, v)"
  shows "readAtNoLock s (int (length pre)) =
    Inr (ts, k, v, int (length pre) + int (length (record_bytes ts k v)))"
proof -
  let ?c = "pre @ record_bytes ts k v @ post"
  have rd: "seg_ReadAt s n (int (length pre) + int j) = Inr (take n (drop j (record_bytes ts k v @ post)))"
    if "j + n \<le> length (record_bytes ts k v)" for n j
    using that assms(1,2) by (simp add: seg_ReadAt_def file_ReadAt_def nat_int_add)
  have len: "length (record_bytes ts k v) = 16 + length k + length v"
    by (simp add: record_bytes_def)
  note r8 = rd [of 0 8, simplified] and rk = rd [of 8 4, simplified] and rK = rd [of 12 "length k", simplified]
    and rv = rd [of "12 + length k" 4, simplified] and rV = rd [of "16 + length k" "length v", simplified]
  show ?thesis
    using assms(3) r8 rk rK rv rV uint64_of_int_less [of ts]
    by (simp add: readAtNoLock_def len Let_def record_bytes_def algebra_simps)
qed

text \<open>The same with something unreadable after the messages, as a crash can leave it.\<close>

definition log_prefix :: "Segment \<Rightarrow> msg list \<Rightarrow> bool" where
  "log_prefix s ms \<longleftrightarrow> \<not> segClosed s \<and> (\<exists>tail. segFile s = enc_msgs ms @ tail
       \<and> (tail = [] \<or> (\<exists>e. readAtNoLock s (pos ms (length ms)) = Inl e)))
     \<and> segSize s = int (length (segFile s)) \<and> list_all wf_msg ms"

lemma readAtNoLock_cong:
  assumes "segFile s = segFile t" "segClosed s = segClosed t"
  shows "readAtNoLock s = readAtNoLock t"
proof -
  have eq: "seg_ReadAt s = seg_ReadAt t"
    using assms by (simp add: seg_ReadAt_def fun_eq_iff)
  show ?thesis unfolding fun_eq_iff readAtNoLock_def eq by simp
qed

lemma log_prefix_cong:
  assumes "segFile s = segFile t" "segClosed s = segClosed t" "segSize s = segSize t"
  shows "log_prefix s ms \<longleftrightarrow> log_prefix t ms"
  using assms readAtNoLock_cong [OF assms(1,2)] by (simp add: log_prefix_def)

lemma file_rep_prefix: "file_rep s ms \<Longrightarrow> log_prefix s ms"
  by (simp add: file_rep_def log_prefix_def)

lemma readAtNoLock_rep:
  assumes "log_prefix s ms" "i < length ms" "ms ! i = (ts, k, v)"
  shows "readAtNoLock s (pos ms i) = Inr (ts, k, v, pos ms (Suc i))"
proof -
  have split: "enc_msgs ms = enc_msgs (take i ms) @ enc_msg (ms ! i) @ enc_msgs (drop (Suc i) ms)"
    unfolding enc_msgs_def by (rule concat_map_split_nth [OF assms(2)])
  have "wf_msg (ts, k, v)"
    using assms unfolding log_prefix_def list_all_length by metis
  then show ?thesis
    using readAtNoLock_bytes [of s "enc_msgs (take i ms)" ts k v] assms split
    by (auto simp: log_prefix_def pos_def take_Suc_conv_app_nth)
qed

lemma pos_less_size:
  "log_prefix s ms \<Longrightarrow> i < length ms \<Longrightarrow> \<not> segSize s \<le> pos ms i"
  using pos_less [of i ms] by (auto simp: log_prefix_def)

lemma prefix_end:
  "log_prefix s ms \<Longrightarrow> segSize s \<le> pos ms (length ms) \<or> (\<exists>e. readAtNoLock s (pos ms (length ms)) = Inl e)"
  by (auto simp: log_prefix_def)

lemma pos_ge_size:
  "file_rep s ms \<Longrightarrow> i \<le> length ms \<Longrightarrow> segSize s \<le> pos ms i \<longleftrightarrow> i = length ms"
  using pos_less [of i ms] by (cases "i = length ms") (auto simp: file_rep_def)

lemma recoverScan_rep:
  assumes "log_prefix s ms" "i \<le> length ms"
  shows "recoverScan s (pos ms i) (int i) = (pos ms (length ms), int (length ms))"
  using assms(2)
proof (induction "length ms - i" arbitrary: i)
  case 0
  then have "i = length ms" by simp
  then show ?case
    using prefix_end [OF assms(1)] by (subst recoverScan.simps) auto
next
  case (Suc n)
  then have i: "i < length ms" "n = length ms - Suc i" "Suc i \<le> length ms" by auto
  obtain ts k v where m: "ms ! i = (ts, k, v)" by (cases "ms ! i")
  show ?case
    using readAtNoLock_rep [OF assms(1) i(1) m] pos_less_size [OF assms(1) i(1)] Suc.hyps(1) [OF i(2,3)]
    by (subst recoverScan.simps) (simp add: add.commute)
qed

lemma seekLoop_rep:
  assumes "file_rep s ms" "i \<le> length ms"
  shows "seekLoop s t (pos ms i) (int i) =
    (let j = max i (min (nat t) (length ms)) in (pos ms j, int j, None))"
  using assms(2)
proof (induction "length ms - i" arbitrary: i)
  case 0
  then have "i = length ms" by simp
  then show ?case
    using pos_ge_size [OF assms(1), of i] by (subst seekLoop.simps) (auto simp: max_def)
next
  case (Suc n)
  then have i: "i < length ms" "n = length ms - Suc i" "Suc i \<le> length ms" by auto
  obtain ts k v where m: "ms ! i = (ts, k, v)" by (cases "ms ! i")
  have "\<not> segSize s \<le> pos ms i"
    using pos_ge_size [OF assms(1), of i] i by simp
  moreover have "max (Suc i) (min (nat t) (length ms)) = max i (min (nat t) (length ms))" if "int i < t"
    using that i by simp
  moreover have "max i (min (nat t) (length ms)) = i" if "\<not> int i < t"
    using that by simp
  ultimately show ?case
    using readAtNoLock_rep [OF file_rep_prefix [OF assms(1)] i(1) m] Suc.hyps(1) [OF i(2,3)]
    by (subst seekLoop.simps) (simp add: add.commute Let_def)
qed

text \<open>What a batch read should return: the messages from some offset on, until the byte budget is
  used up; the message that exceeds the budget is still included.\<close>

fun collect :: "int \<Rightarrow> int \<Rightarrow> int \<Rightarrow> msg list \<Rightarrow> LogRecord list" where
  "collect maxBytes bytesRead off [] = []"
| "collect maxBytes bytesRead off ((ts, k, v) # ms) =
     (if maxBytes > 0 \<and> bytesRead \<ge> maxBytes then []
      else \<lparr>lrTimestamp = ts, lrOffset = off, lrKey = k, lrValue = v\<rparr>
        # collect maxBytes (bytesRead + int (length (record_bytes ts k v))) (off + 1) ms)"

lemma readLoop_rep:
  assumes "log_prefix s ms" "i \<le> length ms"
  shows "readLoop s maxBytes (pos ms i) (int i) b =
    (let recs = collect maxBytes b (int i) (drop i ms) in (recs, int i + int (length recs)))"
  using assms(2)
proof (induction "length ms - i" arbitrary: i b)
  case 0
  then have "i = length ms" by simp
  then show ?case
    using prefix_end [OF assms(1)] by (subst readLoop.simps) auto
next
  case (Suc n)
  then have i: "i < length ms" "n = length ms - Suc i" "Suc i \<le> length ms" by auto
  obtain ts k v where m: "ms ! i = (ts, k, v)" by (cases "ms ! i")
  have "drop i ms = (ts, k, v) # drop (Suc i) ms"
    using i m by (metis Cons_nth_drop_Suc)
  moreover have "\<not> segSize s \<le> pos ms i"
    by (rule pos_less_size [OF assms(1) i(1)])
  ultimately show ?case
    using readAtNoLock_rep [OF assms(1) i(1) m] Suc.hyps(1) [OF i(2,3)]
    by (subst readLoop.simps) (simp add: pos_Suc i m Let_def add.commute)
qed

fun records_from :: "int \<Rightarrow> msg list \<Rightarrow> LogRecord list" where
  "records_from off [] = []"
| "records_from off ((ts, k, v) # ms) =
     \<lparr>lrTimestamp = ts, lrOffset = off, lrKey = k, lrValue = v\<rparr> # records_from (off + 1) ms"

lemma collect_unlimited: "maxBytes \<le> 0 \<Longrightarrow> collect maxBytes b off ms = records_from off ms"
  by (induction off ms arbitrary: b rule: records_from.induct) simp_all

lemma length_records_from [simp]: "length (records_from off ms) = length ms"
  by (induction off ms rule: records_from.induct) simp_all

section \<open>The representation\<close>

text \<open>Every checkpoint is the number and the position of a message on disk.\<close>

definition index_rep :: "IndexEntry list \<Rightarrow> msg list \<Rightarrow> bool" where
  "index_rep es ms \<longleftrightarrow> (\<exists>is. sorted_wrt (<) is \<and> (\<forall>i \<in> set is. i < length ms)
     \<and> es = map (\<lambda>i. \<lparr>LogicalOffset = int i, PhysicalPos = pos ms i\<rparr>) is)"

definition seg_rep :: "Segment \<Rightarrow> msg list \<Rightarrow> msg list \<Rightarrow> bool" where
  "seg_rep s flushed pending \<longleftrightarrow> file_rep s flushed \<and> list_all wf_msg pending
     \<and> segBatch s = enc_msgs pending
     \<and> segNextOffset s = int (length flushed + length pending)
     \<and> (pending \<noteq> [] \<longrightarrow> segBatchStartOffset s = int (length flushed))
     \<and> index_rep (idxEntries (segIndex s)) flushed \<and> idx_ok (segIndex s)
     \<and> length (segFile s) + length (segBatch s) < 2 ^ 63"

lemma index_rep_sorted: "index_rep es ms \<Longrightarrow> sorted_entries es"
  unfolding index_rep_def sorted_entries_def by (auto simp: sorted_wrt_map intro: sorted_wrt_mono_rel)

lemma index_rep_Nil [simp]: "index_rep [] ms"
  by (auto simp: index_rep_def intro!: exI [of _ "[]"])

lemma index_rep_append: "index_rep es ms \<Longrightarrow> index_rep es (ms @ ns)"
  unfolding index_rep_def
  by (elim exE, rule exI, intro conjI) (auto simp: pos_append [OF less_imp_le])

lemma index_rep_snoc:
  assumes "index_rep es ms" "ns \<noteq> []"
  shows "index_rep (es @ [\<lparr>LogicalOffset = int (length ms), PhysicalPos = pos ms (length ms)\<rparr>]) (ms @ ns)"
proof -
  from assms(1) obtain "is" where "sorted_wrt (<) is" "\<forall>i \<in> set is. i < length ms"
    "es = map (\<lambda>i. \<lparr>LogicalOffset = int i, PhysicalPos = pos ms i\<rparr>) is"
    by (auto simp: index_rep_def)
  with assms(2) show ?thesis
    unfolding index_rep_def
    by (intro exI [of _ "is @ [length ms]"]) (auto simp: sorted_wrt_append pos_append)
qed

lemma index_rep_last:
  assumes "index_rep es ms" "e \<in> set es"
  shows "\<exists>i < length ms. e = \<lparr>LogicalOffset = int i, PhysicalPos = pos ms i\<rparr>"
  using assms by (auto simp: index_rep_def)

text \<open>The checkpoint a lookup finds is a message at or before the target.\<close>

lemma LookupEntry_rep:
  assumes "index_rep (idxEntries idx) ms"
  shows "\<exists>i \<le> length ms. LookupEntry idx t = \<lparr>LogicalOffset = int i, PhysicalPos = pos ms i\<rparr>
           \<and> (0 < i \<longrightarrow> int i \<le> t)"
proof -
  let ?hits = "filter (\<lambda>e. LogicalOffset e \<le> t) (idxEntries idx)"
  have eq: "LookupEntry idx t = last_at_or_before (idxEntries idx) t"
    by (rule LookupEntry_correct [OF index_rep_sorted [OF assms]])
  show ?thesis
  proof (cases "?hits = []")
    case True
    then show ?thesis
      by (intro exI [of _ 0]) (simp add: eq last_at_or_before_def zeroEntry_def)
  next
    case False
    then have "last ?hits \<in> set ?hits" by (rule last_in_set)
    moreover from False have "LookupEntry idx t = last ?hits"
      by (simp add: eq last_at_or_before_def split: list.split)
    ultimately show ?thesis
      using index_rep_last [OF assms, of "last ?hits"] by (auto simp: order_less_imp_le)
  qed
qed

lemma seekPhysicalPos_rep:
  assumes "seg_rep s flushed pending"
  shows "seekPhysicalPos s t =
    (let j = min (nat t) (length flushed) in (pos flushed j, int j, None))"
proof -
  from assms have f: "file_rep s flushed" and "index_rep (idxEntries (segIndex s)) flushed"
    by (simp_all add: seg_rep_def)
  from LookupEntry_rep [OF this(2), of t] obtain i where i: "i \<le> length flushed"
      "LookupEntry (segIndex s) t = \<lparr>LogicalOffset = int i, PhysicalPos = pos flushed i\<rparr>"
      "0 < i \<longrightarrow> int i \<le> t"
    by auto
  then have "max i (min (nat t) (length flushed)) = min (nat t) (length flushed)"
    by (cases "i = 0") auto
  then show ?thesis
    using seekLoop_rep [OF f i(1), of t] i(2) by (simp add: seekPhysicalPos_def)
qed

lemma ReadRecords_rep:
  assumes "seg_rep s flushed pending"
  shows "ReadRecords s t maxBytes =
    (let j = min (nat t) (length flushed); recs = collect maxBytes 0 (int j) (drop j flushed)
     in ((recs, int j + int (length recs)), None))"
  using assms readLoop_rep [OF file_rep_prefix, of s flushed]
  by (simp add: ReadRecords_def seekPhysicalPos_rep [OF assms] seg_rep_def Let_def)

lemma ReadAt_rep:
  assumes "seg_rep s flushed pending"
  shows "ReadAt s t =
    (if nat t < length flushed
     then let (ts, k, v) = flushed ! nat t in Inr (k, v, t + 1) else Inl EOF)"
proof -
  have f: "file_rep s flushed" using assms by (simp add: seg_rep_def)
  show ?thesis
  proof (cases "nat t < length flushed")
    case True
    obtain ts k v where m: "flushed ! nat t = (ts, k, v)" by (cases "flushed ! nat t")
    show ?thesis
      using True m readAtNoLock_rep [OF file_rep_prefix [OF f] True m] pos_ge_size [OF f, of "nat t"]
      by (simp add: ReadAt_def seekPhysicalPos_rep [OF assms])
  next
    case False
    then show ?thesis
      using pos_ge_size [OF f, of "length flushed"]
      by (simp add: ReadAt_def seekPhysicalPos_rep [OF assms] Let_def)
  qed
qed

subsection \<open>Writing keeps it\<close>

definition used :: "Segment \<Rightarrow> nat" where
  "used s = length (segFile s) + length (segBatch s)"

lemma in_int64_below: "0 \<le> x \<Longrightarrow> x < 2 ^ 63 \<Longrightarrow> in_int64 x"
  by (simp add: in_int64_def)

lemma flush_rep:
  assumes rep: "seg_rep s F P"
  shows "fst (flush no_faults s) = None" and "seg_rep (snd (flush no_faults s)) (F @ P) []"
    and "used (snd (flush no_faults s)) = used s"
proof -
  have "fst (flush no_faults s) = None \<and> seg_rep (snd (flush no_faults s)) (F @ P) []
    \<and> used (snd (flush no_faults s)) = used s"
  proof (cases "P = []")
    case True
    then show ?thesis using rep by (simp add: flush_def seg_rep_def used_def)
  next
    case False
    have fl: "segFile s = enc_msgs F" "segSize s = pos F (length F)" "segBatch s = enc_msgs P"
      "segBatchStartOffset s = int (length F)" "\<not> segClosed s"
      and bound: "length (enc_msgs F) + length (enc_msgs P) < 2 ^ 63"
      and idx: "idx_ok (segIndex s)" "index_rep (idxEntries (segIndex s)) F"
      using rep False by (auto simp: seg_rep_def file_rep_def)
    have "length F < 2 ^ 63" using bound length_enc_msgs [of F] by linarith
    then have r64: "in_int64 (int (length F))" "in_int64 (pos F (length F))"
      using bound by (auto intro!: in_int64_below)
    note add = AddEntry_ok [OF idx(1) r64] AddEntry_idx_ok [OF idx(1) r64, unfolded AddEntry_ok [OF idx(1) r64], simplified]
    show ?thesis
      using rep False fl add index_rep_snoc [OF idx(2) False] index_rep_append [OF idx(2), of P]
      by (simp add: flush_def no_faults_def Let_def seg_rep_def file_rep_def used_def)
  qed
  then show "fst (flush no_faults s) = None" "seg_rep (snd (flush no_faults s)) (F @ P) []"
    "used (snd (flush no_faults s)) = used s" by simp_all
qed

lemma AppendBatch_rep:
  assumes rep: "seg_rep s F P" and m: "wf_msg (now, key, value)"
    and room: "used s + length (record_bytes now key value) < 2 ^ 63"
  shows "fst (AppendBatch no_faults now key value s) = int (length (F @ P))"
    and "\<exists>F' P'. seg_rep (snd (AppendBatch no_faults now key value s)) F' P'
      \<and> F' @ P' = F @ P @ [(now, key, value)] \<and> (F' = F \<or> P' = [])"
    and "used (snd (AppendBatch no_faults now key value s)) = used s + length (record_bytes now key value)"
proof -
  define s1 where "s1 = (if segBatch s = [] then s\<lparr>segBatchStartOffset := segNextOffset s\<rparr> else s)
     \<lparr>segNextOffset := segNextOffset s + 1, segBatch := segBatch s @ record_bytes now key value\<rparr>"
  have app: "AppendBatch no_faults now key value s = (segNextOffset s,
      if int (length (segBatch s1)) \<ge> segBatchSize s1 then snd (flush no_faults s1) else s1)"
    by (simp add: AppendBatch_def s1_def Let_def)
  have r1: "seg_rep s1 F (P @ [(now, key, value)])"
    using rep m room by (auto simp: s1_def seg_rep_def file_rep_def used_def)
  have u1: "used s1 = used s + length (record_bytes now key value)"
    by (simp add: s1_def used_def)
  show "fst (AppendBatch no_faults now key value s) = int (length (F @ P))"
    using rep app by (simp add: seg_rep_def)
  show "used (snd (AppendBatch no_faults now key value s)) = used s + length (record_bytes now key value)"
    using app u1 flush_rep(3) [OF r1] by simp
  show "\<exists>F' P'. seg_rep (snd (AppendBatch no_faults now key value s)) F' P'
      \<and> F' @ P' = F @ P @ [(now, key, value)] \<and> (F' = F \<or> P' = [])"
  proof (cases "int (length (segBatch s1)) \<ge> segBatchSize s1")
    case True
    then show ?thesis using app flush_rep(2) [OF r1] by (intro exI [of _ "F @ P @ [(now, key, value)]"] exI [of _ "[]"]) simp
  next
    case False
    then show ?thesis using app r1 by (intro exI [of _ F] exI [of _ "P @ [(now, key, value)]"]) simp
  qed
qed

subsection \<open>Opening and closing\<close>

lemma recoverNextOffset_rep:
  assumes "log_prefix s ms" "index_rep (idxEntries (segIndex s)) ms"
  shows "recoverNextOffset s = s\<lparr>segNextOffset := int (length ms),
    segLastIndexedSize := int (length (enc_msgs ms))\<rparr>"
proof (cases "idxEntries (segIndex s) = []")
  case True
  then show ?thesis
    using recoverScan_rep [OF assms(1), of 0] by (simp add: recoverNextOffset_def)
next
  case False
  then obtain i where "i < length ms"
    "last (idxEntries (segIndex s)) = \<lparr>LogicalOffset = int i, PhysicalPos = pos ms i\<rparr>"
    using index_rep_last [OF assms(2) last_in_set] by blast
  then show ?thesis
    using False recoverScan_rep [OF assms(1), of i] by (simp add: recoverNextOffset_def)
qed

lemma NewSegment_rep:
  assumes "list_all wf_msg ms" "idx_ok idx" "index_rep (idxEntries idx) ms"
    and "length (enc_msgs ms) < 2 ^ 63" "0 < flushInt"
  shows "\<exists>s. NewSegment no_open_faults path (enc_msgs ms) (idxFile idx) flushInt batchSize = Some (Inr s)
           \<and> seg_rep s ms [] \<and> segBatchSize s = batchSize \<and> used s = length (enc_msgs ms)"
proof -
  define s0 where "s0 = \<lparr>segPath = path, segFile = enc_msgs ms, segClosed = False,
     segSize = int (length (enc_msgs ms)), segIndex = idx, segNextOffset = 0, segLastIndexedSize = 0,
     segBatch = [], segBatchSize = batchSize, segBatchStartOffset = 0\<rparr>"
  have f: "file_rep s0 ms" using assms(1) by (simp add: file_rep_def s0_def)
  have "NewSegment no_open_faults path (enc_msgs ms) (idxFile idx) flushInt batchSize = Some (Inr (recoverNextOffset s0))"
    using NewSparseIndex_reload [OF assms(2)] assms(5)
    by (simp add: NewSegment_def no_open_faults_def s0_def)
  moreover have "seg_rep (recoverNextOffset s0) ms [] \<and> segBatchSize (recoverNextOffset s0) = batchSize
      \<and> used (recoverNextOffset s0) = length (enc_msgs ms)"
    using f assms recoverNextOffset_rep [OF file_rep_prefix [OF f]]
    by (simp add: s0_def seg_rep_def file_rep_def used_def)
  ultimately show ?thesis by blast
qed

definition fresh_segment :: "string \<Rightarrow> int \<Rightarrow> Segment" where
  "fresh_segment path batchSize =
     \<lparr>segPath = path, segFile = [], segClosed = False, segSize = 0,
      segIndex = \<lparr>idxFile = [], idxEntries = [], idxLastSize = 0\<rparr>, segNextOffset = 0,
      segLastIndexedSize = 0, segBatch = [], segBatchSize = batchSize, segBatchStartOffset = 0\<rparr>"

lemma NewSegment_fresh:
  "NewSegment no_open_faults path [] [] flushInt batchSize = map_option (\<lambda>_. Inr (fresh_segment path batchSize)) (NewTicker flushInt)"
  by (simp add: NewSegment_def NewSparseIndex_empty no_open_faults_def recoverNextOffset_def
      fresh_segment_def recoverScan.simps NewSparseIndex_empty [unfolded no_open_faults_def] NewTicker_def)

lemma fresh_segment_rep: "seg_rep (fresh_segment path batchSize) [] []" "used (fresh_segment path batchSize) = 0"
  by (simp_all add: fresh_segment_def seg_rep_def file_rep_def idx_ok_def used_def)

section \<open>The contract of a log\<close>

locale append_log =
  fixes app :: "msg \<Rightarrow> 's \<Rightarrow> int \<times> 's"
    and commit :: "'s \<Rightarrow> 's"
    and read :: "'s \<Rightarrow> int \<Rightarrow> int \<Rightarrow> (LogRecord list \<times> int) \<times> go_error option"
    and rep :: "'s \<Rightarrow> msg list \<Rightarrow> msg list \<Rightarrow> bool"
    and size_of :: "'s \<Rightarrow> nat"
  assumes append_offset: "rep s F P \<Longrightarrow> wf_msg m \<Longrightarrow> size_of s + length (enc_msg m) < 2 ^ 63 \<Longrightarrow>
      fst (app m s) = int (length (F @ P))"
    and append_rep: "rep s F P \<Longrightarrow> wf_msg m \<Longrightarrow> size_of s + length (enc_msg m) < 2 ^ 63 \<Longrightarrow>
      \<exists>F' P'. rep (snd (app m s)) F' P' \<and> F' @ P' = F @ P @ [m] \<and> (F' = F \<or> P' = [])"
    and append_size: "rep s F P \<Longrightarrow> wf_msg m \<Longrightarrow> size_of s + length (enc_msg m) < 2 ^ 63 \<Longrightarrow>
      size_of (snd (app m s)) = size_of s + length (enc_msg m)"
    and commit_rep: "rep s F P \<Longrightarrow> rep (commit s) (F @ P) []"
    and commit_size: "rep s F P \<Longrightarrow> size_of (commit s) = size_of s"
    and read_rep: "rep s F P \<Longrightarrow> read s t maxBytes =
      (let j = min (nat t) (length F); recs = collect maxBytes 0 (int j) (drop j F)
       in ((recs, int j + int (length recs)), None))"

text \<open>Any interleaving of appends with timer ticks (\<open>None\<close>), and the offsets it returns.\<close>

fun run_log :: "(msg \<Rightarrow> 's \<Rightarrow> int \<times> 's) \<Rightarrow> ('s \<Rightarrow> 's) \<Rightarrow> msg option list \<Rightarrow> 's \<Rightarrow> int list \<times> 's" where
  "run_log app commit [] s = ([], s)"
| "run_log app commit (None # es) s = run_log app commit es (commit s)"
| "run_log app commit (Some m # es) s =
     (let (off, s') = app m s; (offs, s'') = run_log app commit es s' in (off # offs, s''))"

fun appended :: "msg option list \<Rightarrow> msg list" where
  "appended [] = []"
| "appended (None # es) = appended es"
| "appended (Some m # es) = m # appended es"

context append_log
begin

lemma run_log_rep:
  assumes "rep s F P" "list_all wf_msg (appended es)"
    and "size_of s + length (enc_msgs (appended es)) < 2 ^ 63"
  shows "fst (run_log app commit es s) =
           map int [length (F @ P)..<length (F @ P) + length (appended es)]
     \<and> (\<exists>F' P'. rep (snd (run_log app commit es s)) F' P' \<and> F' @ P' = F @ P @ appended es)"
  using assms
proof (induction es arbitrary: s F P)
  case Nil
  then show ?case by auto
next
  case (Cons e es)
  show ?case
  proof (cases e)
    case None
    then show ?thesis
      using Cons.IH [OF commit_rep [OF Cons.prems(1)]] Cons.prems commit_size [OF Cons.prems(1)] by simp
  next
    case (Some m)
    have m: "wf_msg m" "size_of s + length (enc_msg m) < 2 ^ 63" using Cons.prems Some by auto
    obtain off s' where a: "app m s = (off, s')" by fastforce
    obtain F' P' where r: "rep s' F' P'" "F' @ P' = (F @ P) @ [m]"
      using append_rep [OF Cons.prems(1) m] a by auto
    have size: "size_of s' + length (enc_msgs (appended es)) < 2 ^ 63"
      using append_size [OF Cons.prems(1) m] a Cons.prems(3) Some by simp
    have off: "off = int (length (F @ P))" using append_offset [OF Cons.prems(1) m] a by simp
    have tail: "list_all wf_msg (appended es)" "F' @ P' @ appended es = F @ P @ m # appended es"
      using Cons.prems(2) Some arg_cong [OF r(2), of "\<lambda>xs. xs @ appended es"] by simp_all
    have "fst (run_log app commit es s') = map int [Suc (length (F @ P))..<Suc (length (F @ P)) + length (appended es)]"
      "\<exists>F'' P''. rep (snd (run_log app commit es s')) F'' P'' \<and> F'' @ P'' = F @ P @ m # appended es"
      using Cons.IH [OF r(1) tail(1) size] unfolding r(2) tail(2) by simp_all
    then show ?thesis using Some a off by (simp add: upt_conv_Cons case_prod_unfold del: upt_Suc)
  qed
qed

text \<open>After a final commit a read from the start without a byte limit returns every message.\<close>

lemma run_log_read_back:
  assumes "rep s [] []" "list_all wf_msg (appended es)" "size_of s + length (enc_msgs (appended es)) < 2 ^ 63"
  shows "fst (run_log app commit es s) = map int [0..<length (appended es)]"
    and "read (commit (snd (run_log app commit es s))) 0 0
       = ((records_from 0 (appended es), int (length (appended es))), None)"
proof -
  obtain F P where r: "rep (snd (run_log app commit es s)) F P" "F @ P = appended es"
    using run_log_rep [OF assms] by auto
  show "fst (run_log app commit es s) = map int [0..<length (appended es)]"
    using run_log_rep [OF assms] by simp
  show "read (commit (snd (run_log app commit es s))) 0 0
       = ((records_from 0 (appended es), int (length (appended es))), None)"
    using read_rep [OF commit_rep [OF r(1)], of 0 0] r(2) by (simp add: collect_unlimited)
qed

end

interpretation segment: append_log "\<lambda>(ts, k, v). AppendBatch no_faults ts k v"
  "\<lambda>s. snd (flush no_faults s)" ReadRecords seg_rep used
proof unfold_locales
  fix s F P and m :: msg
  assume r: "seg_rep s F P" and "wf_msg m" and "used s + length (enc_msg m) < 2 ^ 63"
  moreover obtain ts k v where m: "m = (ts, k, v)" by (cases m)
  ultimately have *: "wf_msg (ts, k, v)" "used s + length (record_bytes ts k v) < 2 ^ 63" by simp_all
  show "fst ((\<lambda>(ts, k, v). AppendBatch no_faults ts k v) m s) = int (length (F @ P))"
    using AppendBatch_rep(1) [OF r *] by (simp add: m)
  show "\<exists>F' P'. seg_rep (snd ((\<lambda>(ts, k, v). AppendBatch no_faults ts k v) m s)) F' P'
      \<and> F' @ P' = F @ P @ [m] \<and> (F' = F \<or> P' = [])"
    using AppendBatch_rep(2) [OF r *] by (simp add: m)
  show "used (snd ((\<lambda>(ts, k, v). AppendBatch no_faults ts k v) m s)) = used s + length (enc_msg m)"
    using AppendBatch_rep(3) [OF r *] by (simp add: m)
next
  show "seg_rep s F P \<Longrightarrow> seg_rep (snd (flush no_faults s)) (F @ P) []" for s F P
    by (rule flush_rep(2))
  show "seg_rep s F P \<Longrightarrow> used (snd (flush no_faults s)) = used s" for s F P
    by (rule flush_rep(3))
  show "seg_rep s F P \<Longrightarrow> ReadRecords s t maxBytes =
      (let j = min (nat t) (length F); recs = collect maxBytes 0 (int j) (drop j F)
       in ((recs, int j + int (length recs)), None))" for s F P t maxBytes
    by (rule ReadRecords_rep)
qed

section \<open>Damaged files\<close>

text \<open>A record of which only a proper prefix reached the disk cannot be read.\<close>

lemma readAtNoLock_torn:
  assumes "\<not> segClosed s" "segFile s = pre @ take l (record_bytes ts k v)"
    and "l < length (record_bytes ts k v)" "wf_msg (ts, k, v)"
  shows "\<exists>e. readAtNoLock s (int (length pre)) = Inl e"
proof -
  have len: "length (record_bytes ts k v) = 16 + length k + length v"
    by (simp add: record_bytes_def)
  have rd: "seg_ReadAt s n (int (length pre) + int j) =
      (if n = 0 \<or> j + n \<le> l then Inr (take n (drop j (take l (record_bytes ts k v)))) else Inl EOF)" for n j
    using assms(1,2,3) by (simp add: seg_ReadAt_def file_ReadAt_def nat_int_add)
  note r8 = rd [of 8 0, simplified] and rk = rd [of 4 8, simplified] and rK = rd [of "length k" 12, simplified]
    and rv = rd [of 4 "12 + length k", simplified] and rV = rd [of "length v" "16 + length k", simplified]
  have klen: "be_dec (take 4 (drop 8 (take l (record_bytes ts k v)))) = length k" if "12 \<le> l"
    using that assms(4) by (simp add: record_bytes_def drop_take min_def)
  have vlen: "be_dec (take 4 (drop (12 + length k) (take l (record_bytes ts k v)))) = length v" if "16 + length k \<le> l"
    using that assms(4) by (simp add: record_bytes_def drop_take min_def)
  consider "l < 8" | "8 \<le> l" "l < 12" | "12 \<le> l" "l < 12 + length k"
    | "12 + length k \<le> l" "l < 16 + length k" | "16 + length k \<le> l" by linarith
  then show ?thesis
    using r8 rk rK rv rV klen vlen assms(3) len
    by cases (auto simp: readAtNoLock_def Let_def algebra_simps split: sum.splits)
qed

section \<open>Properties\<close>

text \<open>\<^bold>\<open>C1\<close>: on a new segment, any interleaving of appends with ticks of the flush timer assigns the offsets
  \<open>0, 1, 2, \<dots>\<close> in order, and after a last flush a read from offset 0 returns every appended
  message, in order, with its timestamp, key and value and the offset it was assigned.\<close>

theorem appended_messages_are_read_back:
  assumes "NewSegment no_open_faults path [] [] flushInt batchSize = Some (Inr s)"
    and "list_all wf_msg (appended es)" and "length (enc_msgs (appended es)) < 2 ^ 63"
    and "run_log (\<lambda>(ts, k, v). AppendBatch no_faults ts k v) (\<lambda>s. snd (flush no_faults s)) es s = (offs, s')"
  shows "offs = map int [0..<length (appended es)]
       \<and> ReadRecords (snd (flush no_faults s')) 0 0
           = ((records_from 0 (appended es), int (length (appended es))), None)"
proof -
  have s: "s = fresh_segment path batchSize"
    using assms(1) by (auto simp: NewSegment_fresh)
  with assms(3) have "used s + length (enc_msgs (appended es)) < 2 ^ 63" and "seg_rep s [] []"
    by (simp_all add: fresh_segment_rep)
  then show ?thesis
    using segment.run_log_read_back [of s es] assms(2,4) by simp
qed

definition sample_events :: "msg option list" where
  "sample_events = [Some (5, [1], [2]), None, Some (6, [], [3])]"

theorem appended_messages_are_read_back_witness:
  "\<exists>s offs s'. NewSegment no_open_faults ''t.log'' [] [] (10 ^ 8) 65536 = Some (Inr s)
     \<and> run_log (\<lambda>(ts, k, v). AppendBatch no_faults ts k v) (\<lambda>s. snd (flush no_faults s)) sample_events s = (offs, s')
     \<and> offs = [0, 1] \<and> ReadRecords (snd (flush no_faults s')) 0 0
         = ((records_from 0 [(5, [1], [2]), (6, [], [3])], 2), None)"
proof -
  obtain s where s: "NewSegment no_open_faults ''t.log'' [] [] (10 ^ 8) 65536 = Some (Inr s)"
    by (simp add: NewSegment_fresh)
  obtain offs s' where r: "run_log (\<lambda>(ts, k, v). AppendBatch no_faults ts k v)
      (\<lambda>s. snd (flush no_faults s)) sample_events s = (offs, s')" by fastforce
  have "list_all wf_msg (appended sample_events)" "length (enc_msgs (appended sample_events)) < 2 ^ 63"
    by (simp_all add: sample_events_def in_int64_def record_bytes_def)
  from appended_messages_are_read_back [OF s this r] s r show ?thesis
    by (auto simp: sample_events_def)
qed

text \<open>\<^bold>\<open>C14\<close>: a segment that was closed and is opened again on its two files has the same log: every
  message, the unflushed ones included, at the same offset, and the next append continues
  where the log ended.\<close>

theorem close_and_reopen:
  assumes "seg_rep s F P" "0 < flushInt"
  shows "\<exists>s1 s2. Close no_faults s = Some s1
     \<and> NewSegment no_open_faults (segPath s) (segFile s1) (idxFile (segIndex s1)) flushInt batchSize = Some (Inr s2)
     \<and> seg_rep s2 (F @ P) [] \<and> segNextOffset s2 = segNextOffset s
     \<and> ReadRecords s2 0 0 = ((records_from 0 (F @ P), segNextOffset s), None)"
proof -
  let ?s1 = "(snd (flush no_faults s))\<lparr>segClosed := True\<rparr>"
  note f = flush_rep(2) [OF assms(1)]
  have "Close no_faults s = Some ?s1"
    using assms(1) by (simp add: Close_def seg_rep_def file_rep_def)
  moreover obtain s2 where s2: "NewSegment no_open_faults (segPath s) (enc_msgs (F @ P))
      (idxFile (segIndex (snd (flush no_faults s)))) flushInt batchSize = Some (Inr s2)" "seg_rep s2 (F @ P) []"
    using f NewSegment_rep [of "F @ P" "segIndex (snd (flush no_faults s))" flushInt "segPath s" batchSize] assms(2)
    by (auto simp: seg_rep_def file_rep_def)
  moreover have "segFile ?s1 = enc_msgs (F @ P)"
    using f by (simp add: seg_rep_def file_rep_def)
  moreover have "segNextOffset s2 = segNextOffset s"
    using s2(2) assms(1) by (simp add: seg_rep_def)
  moreover have "ReadRecords s2 0 0 = ((records_from 0 (F @ P), segNextOffset s), None)"
    using ReadRecords_rep [OF s2(2), of 0 0] assms(1) by (simp add: collect_unlimited seg_rep_def)
  ultimately show ?thesis
    by (intro exI [of _ ?s1] exI [of _ s2]) simp
qed

definition sample_segment :: Segment where
  "sample_segment = snd (AppendBatch no_faults 5 [1] [2] (fresh_segment ''t.log'' 100))"

lemma sample_segment_rep: "seg_rep sample_segment [] [(5, [1], [2])]"
  by (simp add: sample_segment_def AppendBatch_def Let_def fresh_segment_def seg_rep_def file_rep_def
      idx_ok_def record_bytes_def in_int64_def)

theorem close_and_reopen_witness:
  "\<exists>s1 s2. Close no_faults sample_segment = Some s1
     \<and> NewSegment no_open_faults (segPath sample_segment) (segFile s1) (idxFile (segIndex s1)) 1 9 = Some (Inr s2)
     \<and> seg_rep s2 [(5, [1], [2])] [] \<and> segNextOffset s2 = 1"
  using close_and_reopen [OF sample_segment_rep, of 1 9] sample_segment_rep
  by (auto simp: seg_rep_def)

text \<open>\<^bold>\<open>C15\<close>: if the process dies instead of closing the segment, possibly while the next record is being
  written, reopening finds exactly the flushed messages: the torn record at the end of the
  file is skipped and the next offset is the number of complete records.\<close>

theorem crash_recovery:
  assumes "seg_rep s F P" and "wf_msg (ts, k, v)" and "l < length (record_bytes ts k v)"
    and "NewSegment no_open_faults path (segFile s @ take l (record_bytes ts k v))
           (idxFile (segIndex s)) flushInt batchSize = Some (Inr s')"
  shows "segNextOffset s' = int (length F)
       \<and> ReadRecords s' 0 0 = ((records_from 0 F, int (length F)), None)"
proof -
  from assms(1) have F: "segFile s = enc_msgs F" "list_all wf_msg F"
    and idx: "idx_ok (segIndex s)" "index_rep (idxEntries (segIndex s)) F"
    by (auto simp: seg_rep_def file_rep_def)
  define s0 where "s0 = \<lparr>segPath = path, segFile = segFile s @ take l (record_bytes ts k v), segClosed = False,
     segSize = int (length (segFile s @ take l (record_bytes ts k v))), segIndex = segIndex s,
     segNextOffset = 0, segLastIndexedSize = 0, segBatch = [], segBatchSize = batchSize,
     segBatchStartOffset = 0\<rparr>"
  have "\<exists>e. readAtNoLock s0 (int (length (segFile s))) = Inl e"
    by (rule readAtNoLock_torn [OF _ _ assms(3,2)]) (simp_all add: s0_def)
  then have p: "log_prefix s0 F"
    using F by (auto simp: log_prefix_def s0_def)
  have s': "s' = s0\<lparr>segNextOffset := int (length F), segLastIndexedSize := int (length (enc_msgs F))\<rparr>"
    using assms(4) NewSparseIndex_reload [OF idx(1)] recoverNextOffset_rep [OF p] idx(2)
    by (auto simp: NewSegment_def no_open_faults_def s0_def NewTicker_def split: if_splits)
  have "log_prefix s' F"
    using p log_prefix_cong [of s' s0 F] by (simp add: s')
  moreover have "index_rep (idxEntries (segIndex s')) F"
    using idx(2) by (simp add: s' s0_def)
  then have "LookupEntry (segIndex s') 0 = \<lparr>LogicalOffset = 0, PhysicalPos = 0\<rparr>"
    using LookupEntry_rep [of "segIndex s'" F 0] by auto
  then have "seekPhysicalPos s' 0 = (0, 0, None)"
    by (simp add: seekPhysicalPos_def seekLoop.simps)
  ultimately show ?thesis
    using readLoop_rep [of s' F 0 0 0] by (simp add: ReadRecords_def s' collect_unlimited)
qed

theorem crash_recovery_witness:
  "\<exists>s'. NewSegment no_open_faults ''t.log'' (segFile sample_segment @ take 3 (record_bytes 1 [7] [8]))
           (idxFile (segIndex sample_segment)) 1 100 = Some (Inr s')
     \<and> segNextOffset s' = 0 \<and> ReadRecords s' 0 0 = (([], 0), None)"
proof -
  have "\<exists>s'. NewSegment no_open_faults ''t.log'' (segFile sample_segment @ take 3 (record_bytes 1 [7] [8]))
           (idxFile (segIndex sample_segment)) 1 100 = Some (Inr s')"
    using sample_segment_rep NewSparseIndex_reload [of "segIndex sample_segment"]
    by (simp add: NewSegment_def no_open_faults_def seg_rep_def)
  then obtain s' where s': "NewSegment no_open_faults ''t.log''
      (segFile sample_segment @ take 3 (record_bytes 1 [7] [8])) (idxFile (segIndex sample_segment)) 1 100 = Some (Inr s')"
    by blast
  have "wf_msg (1, [7], [8])" "3 < length (record_bytes 1 [7] [8])"
    by (simp_all add: in_int64_def record_bytes_def)
  from crash_recovery [OF sample_segment_rep this s'] s' show ?thesis by simp
qed

lemma collect_take:
  "\<exists>n. collect maxBytes b off ms = records_from off (take n ms) \<and> n \<le> length ms
     \<and> (0 < maxBytes \<and> 0 < n \<longrightarrow> b + int (length (enc_msgs (take (n - 1) ms))) < maxBytes)"
proof (induction maxBytes b off ms rule: collect.induct)
  case (1 maxBytes b off)
  then show ?case by simp
next
  case (2 maxBytes b off ts k v ms)
  show ?case
  proof (cases "maxBytes > 0 \<and> b \<ge> maxBytes")
    case True
    then show ?thesis by (auto intro!: exI [of _ 0])
  next
    case False
    then obtain n where n: "collect maxBytes (b + int (length (record_bytes ts k v))) (off + 1) ms
        = records_from (off + 1) (take n ms)" "n \<le> length ms"
        "0 < maxBytes \<and> 0 < n \<longrightarrow>
          b + int (length (record_bytes ts k v)) + int (length (enc_msgs (take (n - 1) ms))) < maxBytes"
      using "2.IH" by auto
    with False show ?thesis
      by (intro exI [of _ "Suc n"]) (cases n; auto)
  qed
qed

lemma collect_nonempty: "ms \<noteq> [] \<Longrightarrow> collect maxBytes 0 off ms \<noteq> []"
  by (cases ms) (auto split: if_splits)

text \<open>A consumer always gets on: reading at an offset that has been flushed returns at least one record,
  whatever the byte limit; the offset returned is the one after the last record; the records are
  the stored messages from that offset on; and without the last of them the batch stays below
  a positive limit.\<close>

theorem read_makes_progress:
  assumes "seg_rep s F P" and "0 \<le> t" and "t < int (length F)"
    and "ReadRecords s t maxBytes = ((recs, next), err)"
  shows "err = None \<and> recs \<noteq> [] \<and> next = t + int (length recs)
       \<and> recs = records_from t (take (length recs) (drop (nat t) F))
       \<and> (0 < maxBytes \<longrightarrow>
            int (length (enc_msgs (take (length recs - 1) (drop (nat t) F)))) < maxBytes)"
proof -
  have r: "recs = collect maxBytes 0 t (drop (nat t) F)" "next = t + int (length recs)" "err = None"
    using ReadRecords_rep [OF assms(1), of t maxBytes] assms(2,3,4) by (auto simp: min_def Let_def)
  obtain n where n: "recs = records_from t (take n (drop (nat t) F))" "n \<le> length (drop (nat t) F)"
      "0 < maxBytes \<and> 0 < n \<longrightarrow> int (length (enc_msgs (take (n - 1) (drop (nat t) F)))) < maxBytes"
    using collect_take [of maxBytes 0 t "drop (nat t) F"] r(1) by auto
  then have "length recs = n" by simp
  moreover have "recs \<noteq> []"
    using r(1) collect_nonempty [of "drop (nat t) F"] assms(2,3) by auto
  moreover from calculation have "0 < n" by auto
  ultimately show ?thesis using n r by auto
qed

theorem read_makes_progress_witness:
  "\<exists>recs next err. ReadRecords (snd (flush no_faults sample_segment)) 0 1 = ((recs, next), err)
     \<and> err = None \<and> recs \<noteq> [] \<and> next = int (length recs)"
proof -
  obtain recs "next" err where r: "ReadRecords (snd (flush no_faults sample_segment)) 0 1 = ((recs, next), err)"
    by (metis prod.collapse)
  have "seg_rep (snd (flush no_faults sample_segment)) [(5, [1], [2])] []"
    using flush_rep(2) [OF sample_segment_rep] by simp
  from read_makes_progress [OF this _ _ r] r show ?thesis by simp
qed

text \<open>A consumer that reads again at the offset each read returns.\<close>

primrec read_through :: "nat \<Rightarrow> Segment \<Rightarrow> int \<Rightarrow> int \<Rightarrow> LogRecord list \<times> int" where
  "read_through 0 s maxBytes t = ([], t)"
| "read_through (Suc n) s maxBytes t =
     (case ReadRecords s t maxBytes of ((recs, next), err) \<Rightarrow> apfst ((@) recs) (read_through n s maxBytes next))"

lemma records_from_split: "records_from t (take k ms) @ records_from (t + int (length (take k ms))) (drop k ms) = records_from t ms"
proof (induction ms arbitrary: t k)
  case (Cons m ms)
  show ?case
  proof (cases k)
    case (Suc j)
    then show ?thesis using Cons [of "t + 1" j] by (cases m) (simp add: algebra_simps)
  qed simp
qed simp

text \<open>\<^bold>\<open>C26\<close>: a consumer that keeps reading at the offset the last read returned reaches the end of the flushed log, whatever
  the byte limit: after at most as many reads as there are messages left it has got each of them exactly once and in order, and its
  offset is the number of flushed messages.\<close>

theorem consumer_reads_everything:
  assumes "seg_rep s F P" "0 \<le> t" "t \<le> int (length F)" "length F - nat t \<le> n"
  shows "read_through n s maxBytes t = (records_from t (drop (nat t) F), int (length F))"
  using assms(2-4)
proof (induction n arbitrary: t)
  case (Suc n)
  obtain recs nxt err where r: "ReadRecords s t maxBytes = ((recs, nxt), err)" by (metis prod.collapse)
  show ?case
  proof (cases "t < int (length F)")
    case True
    let ?k = "length recs"
    have p: "recs \<noteq> []" "nxt = t + int ?k" "recs = records_from t (take ?k (drop (nat t) F))"
      using read_makes_progress [OF assms(1) Suc.prems(1) True r] by auto
    have k: "?k \<le> length (drop (nat t) F)" using arg_cong [OF p(3), of length] by simp
    have "0 < ?k" using p(1) by simp
    moreover have nxt: "nat nxt = nat t + ?k" using Suc.prems(1) by (simp add: p(2) nat_add_distrib)
    ultimately have "length F - nat nxt \<le> n" using Suc.prems(3) k by (simp del: length_greater_0_conv)
    then have "read_through n s maxBytes nxt = (records_from nxt (drop (nat nxt) F), int (length F))"
      using Suc.prems(1,2) k by (intro Suc.IH) (auto simp: p(2))
    moreover have "recs @ records_from nxt (drop (nat nxt) F) = records_from t (drop (nat t) F)"
      using records_from_split [of t ?k "drop (nat t) F"] p(3) k Suc.prems(1) by (simp add: p(2) nat_add_distrib add.commute)
    ultimately show ?thesis by (simp add: r)
  next
    case False
    then have t: "t = int (length F)" using Suc.prems by simp
    have "recs = []" "nxt = t" using ReadRecords_rep [OF assms(1), of t maxBytes] r by (simp_all add: t Let_def)
    with Suc.IH [of t] t show ?thesis by (simp add: r [unfolded t])
  qed
qed simp

theorem consumer_reads_everything_witness:
  "read_through 1 (snd (flush no_faults sample_segment)) 1 0 = (records_from 0 [(5, [1], [2])], 1)"
  using consumer_reads_everything [OF flush_rep(2) [OF sample_segment_rep], of 0 1 1] by simp

text \<open>A message that has been acknowledged with an offset but not flushed is invisible: \<^verbatim>\<open>ReadAt\<close> on
  that offset reports the end of the file until the batch fills or the timer fires.\<close>

theorem unflushed_message_reads_eof:
  assumes "seg_rep s F P" and "wf_msg (now, key, value)"
    and "used s + length (record_bytes now key value) < 2 ^ 63"
    and "int (length (segBatch s) + length (record_bytes now key value)) < segBatchSize s"
    and "AppendBatch no_faults now key value s = (off, s')"
  shows "off = int (length (F @ P)) \<and> ReadAt s' off = Inl EOF"
proof -
  have off: "off = int (length (F @ P))"
    using AppendBatch_rep(1) [OF assms(1,2,3)] assms(5) by simp
  have "s' = (if segBatch s = [] then s\<lparr>segBatchStartOffset := segNextOffset s\<rparr> else s)
      \<lparr>segNextOffset := segNextOffset s + 1, segBatch := segBatch s @ record_bytes now key value\<rparr>"
    using assms(4,5) by (auto simp: AppendBatch_def Let_def)
  then have "seg_rep s' F (P @ [(now, key, value)])"
    using assms(1,2,3) by (auto simp: seg_rep_def file_rep_def used_def)
  moreover have "\<not> nat off < length F" using off by simp
  ultimately show ?thesis using ReadAt_rep [of s' F _ off] off by simp
qed

theorem unflushed_message_reads_eof_witness:
  "\<exists>s'. AppendBatch no_faults 7 [3] [4] sample_segment = (1, s') \<and> ReadAt s' 1 = Inl EOF"
proof -
  obtain off s' where a: "AppendBatch no_faults 7 [3] [4] sample_segment = (off, s')" by fastforce
  have "segBatch sample_segment = record_bytes 5 [1] [2]" "segBatchSize sample_segment = 100"
    "segFile sample_segment = []"
    by (simp_all add: sample_segment_def AppendBatch_def fresh_segment_def Let_def record_bytes_def)
  then have "int (length (segBatch sample_segment) + length (record_bytes 7 [3] [4])) < segBatchSize sample_segment"
    "used sample_segment + length (record_bytes 7 [3] [4]) < 2 ^ 63" "wf_msg (7, [3], [4])"
    by (simp_all add: used_def record_bytes_def in_int64_def)
  from unflushed_message_reads_eof [OF sample_segment_rep this(3,2,1) a] a show ?thesis by auto
qed

text \<open>When \<^verbatim>\<open>fsync\<close> fails after the batch was written, the batch stays in the buffer and the next
  flush writes it again: after a restart every message of that batch is in the log twice.\<close>

theorem failed_sync_duplicates_batch:
  assumes "seg_rep s F P" and "P \<noteq> []" and "length (enc_msgs (F @ P @ P)) < 2 ^ 63"
    and "flush (no_faults\<lparr>fSync := Some e\<rparr>) s = (r1, s1)" and "flush no_faults s1 = (r2, s2)"
    and "0 < flushInt"
  shows "r1 = Some e \<and> r2 = None \<and>
    (\<exists>s3. NewSegment no_open_faults path (segFile s2) (idxFile (segIndex s2)) flushInt batchSize = Some (Inr s3)
       \<and> seg_rep s3 (F @ P @ P) [])"
proof -
  have fl: "segFile s = enc_msgs F" "segSize s = pos F (length F)" "segBatch s = enc_msgs P"
      "segBatchStartOffset s = int (length F)" "\<not> segClosed s" "list_all wf_msg (F @ P @ P)"
    and idx: "idx_ok (segIndex s)" "index_rep (idxEntries (segIndex s)) F"
    using assms(1,2) by (auto simp: seg_rep_def file_rep_def)
  have s1: "r1 = Some e" "s1 = s\<lparr>segFile := enc_msgs (F @ P)\<rparr>"
    using assms(2,4) fl by (auto simp: flush_def no_faults_def)
  have "length F < 2 ^ 63" "length (enc_msgs F) < 2 ^ 63"
    using assms(3) length_enc_msgs [of F] by auto
  then have r64: "in_int64 (int (length F))" "in_int64 (pos F (length F))"
    by (auto intro!: in_int64_below)
  have "r2 = None \<and> segFile s2 = enc_msgs (F @ P @ P) \<and> idx_ok (segIndex s2)
      \<and> index_rep (idxEntries (segIndex s2)) (F @ P @ P)"
    using assms(2,5) fl s1(2) AddEntry_ok [OF idx(1) r64] AddEntry_idx_ok [OF idx(1) r64] idx
      index_rep_snoc [OF idx(2), of "P @ P"] index_rep_append [OF idx(2), of "P @ P"]
    by (auto simp: flush_def no_faults_def Let_def split: if_splits)
  then show ?thesis
    using s1(1) NewSegment_rep [OF fl(6) _ _ assms(3,6), of "segIndex s2" path batchSize] by auto
qed

theorem failed_sync_duplicates_batch_witness:
  "\<exists>s1 s2 s3. flush (no_faults\<lparr>fSync := Some EOF\<rparr>) sample_segment = (Some EOF, s1)
     \<and> flush no_faults s1 = (None, s2)
     \<and> NewSegment no_open_faults ''t.log'' (segFile s2) (idxFile (segIndex s2)) 1 100 = Some (Inr s3)
     \<and> seg_rep s3 [(5, [1], [2]), (5, [1], [2])] []"
proof -
  obtain r1 s1 where 1: "flush (no_faults\<lparr>fSync := Some EOF\<rparr>) sample_segment = (r1, s1)" by fastforce
  obtain r2 s2 where 2: "flush no_faults s1 = (r2, s2)" by fastforce
  have "length (enc_msgs ([] @ [(5, [1], [2])] @ [(5, [1], [2])])) < 2 ^ 63"
    by (simp add: record_bytes_def)
  from failed_sync_duplicates_batch [OF sample_segment_rep _ this 1 2, of 1 "''t.log''" 100] 1 2
  show ?thesis by auto
qed

text \<open>Opening a log with a torn record keeps the torn bytes, so what is appended next starts in the
  middle of them: here the message is acknowledged with offset 0 and flushed without an
  error, and a read from offset 0 returns nothing.\<close>

theorem append_after_torn_tail_is_lost:
  "\<exists>s s'. NewSegment no_open_faults ''t.log'' [0] [] 1 1 = Some (Inr s)
     \<and> AppendBatch no_faults 1 [] [] s = (0, s') \<and> segBatch s' = []
     \<and> ReadRecords s' 0 0 = (([], 0), None)"
proof -
  let ?s = "(fresh_segment ''t.log'' 1)\<lparr>segFile := [0], segSize := 1\<rparr>"
  have new: "NewSegment no_open_faults ''t.log'' [0] [] 1 1 = Some (Inr ?s)"
    by code_simp
  define s' where "s' = snd (AppendBatch no_faults 1 [] [] ?s)"
  have app: "AppendBatch no_faults 1 [] [] ?s = (0, s')"
    by (simp add: s'_def AppendBatch_def fresh_segment_def Let_def)
  have s': "segFile s' = 0 # record_bytes 1 [] []" "segSize s' = 17" "segBatch s' = []"
    "\<not> segClosed s'" "idxEntries (segIndex s') = []"
    by (simp_all add: s'_def AppendBatch_def flush_def fresh_segment_def no_faults_def record_bytes_def Let_def)
  have bytes: "segFile s' = [0, 0, 0, 0, 0, 0, 0, 0, 1, 0, 0, 0, 0, 0, 0, 0, 0]"
    unfolding s' by (simp add: record_bytes_def be_enc_numeral uint64_of_int_def)
  have "readAtNoLock s' 0 = Inl EOF"
    using s'(4) by (simp add: readAtNoLock_def seg_ReadAt_def file_ReadAt_def bytes be_dec_def)
  then have "ReadRecords s' 0 0 = (([], 0), None)"
    using s' by (simp add: ReadRecords_def seekPhysicalPos_def LookupEntry_def zeroEntry_def
        seekLoop.simps readLoop.simps)
  with new app s'(3) show ?thesis by blast
qed

end
