(* ===== verification/Group_Coordinator.thy ===== *)
theory Group_Coordinator
  imports Prelude "HOL-Library.List_Lexorder" "HOL-Library.Char_ord" "HOL-Library.Multiset"
begin

text \<open>
  \<^verbatim>\<open>internal/consumer/group_coordinator.go\<close>: consumer groups and the range assignment of the two
  partitions of every topic.

  Go maps that the code iterates over are association lists, in the order in which
  \<^verbatim>\<open>range\<close> happens to visit them; the order is arbitrary in Go, and \<open>rebalance_order\<close> shows that the result
  does not depend on it. Writing to a missing inner map panics in Go and is \<open>None\<close>
  here. Strings are ordered byte by byte, as \<^verbatim>\<open>sort.Strings\<close> orders them.
\<close>

section \<open>State\<close>

record MemberInfo =
  miMemberID :: string
  miTopics :: "string list"

type_synonym topic_parts = "(string \<times> int list) list"
type_synonym assignments = "(string \<times> topic_parts) list"

record GroupState =
  gsGroupID :: string
  gsGeneration :: int
  gsMembers :: "(string \<times> MemberInfo) list"
  gsAssignments :: assignments

type_synonym GroupCoordinator = "string \<rightharpoonup> GroupState"

definition NewGroupCoordinator :: GroupCoordinator where
  "NewGroupCoordinator = Map.empty"

definition minVal :: "nat \<Rightarrow> nat \<Rightarrow> nat" where
  "minVal a b = (if a < b then a else b)"

definition equalSlice :: "string list \<Rightarrow> string list \<Rightarrow> bool" where
  "equalSlice a b \<longleftrightarrow> (if length a \<noteq> length b then False else list_all (\<lambda>i. a ! i = b ! i) [0..<length a])"

section \<open>Rebalancing\<close>

text \<open>\<^verbatim>\<open>gs.Assignments[mID][topic] = append(gs.Assignments[mID][topic], part)\<close>\<close>

definition assignPart :: "string \<Rightarrow> string \<Rightarrow> int \<Rightarrow> assignments \<Rightarrow> assignments option" where
  "assignPart mID topic part ass =
     (case map_of ass mID of
        None \<Rightarrow> None
      | Some inner \<Rightarrow>
          (let old = (case map_of inner topic of None \<Rightarrow> [] | Some ps \<Rightarrow> ps)
           in Some (AList.update mID (AList.update topic (old @ [part]) inner) ass)))"

text \<open>The two nested loops of \<^verbatim>\<open>assignTopicPartitions\<close>, for the two partitions every topic has.\<close>

definition assignTopicPartitions :: "string \<Rightarrow> string list \<Rightarrow> assignments \<Rightarrow> assignments option" where
  "assignTopicPartitions topic members ass =
     (let n = length members in
      if n = 0 then Some ass
      else let p = 2; limit = p div n; rem = p mod n in
        foldl (\<lambda>acc i.
            let numParts = (if i < rem then limit + 1 else limit);
                start = i * limit + minVal i rem;
                mID = members ! i
            in foldl (\<lambda>acc j. Option.bind acc (assignPart mID topic (int32 (int (start + j)))))
                 acc [0..<numParts])
          (Some ass) [0..<n])"

definition addTopicMember :: "string \<Rightarrow> string \<Rightarrow> (string \<times> string list) list \<Rightarrow> (string \<times> string list) list" where
  "addTopicMember mID t tm =
     AList.update t ((case map_of tm t of None \<Rightarrow> [] | Some ms \<Rightarrow> ms) @ [mID]) tm"

definition topicMembers :: "(string \<times> MemberInfo) list \<Rightarrow> (string \<times> string list) list" where
  "topicMembers members =
     foldl (\<lambda>tm (mID, mem). foldl (\<lambda>tm t. addTopicMember mID t tm) tm (miTopics mem)) [] members"

definition clearAssignments :: "(string \<times> MemberInfo) list \<Rightarrow> assignments" where
  "clearAssignments members = foldl (\<lambda>ass (mID, mem). AList.update mID [] ass) [] members"

definition assignTopics :: "(string \<times> string list) list \<Rightarrow> assignments \<Rightarrow> assignments option" where
  "assignTopics tm ass =
     foldl (\<lambda>acc (topic, members). Option.bind acc (assignTopicPartitions topic (sort members))) (Some ass) tm"

definition rebalance :: "GroupState \<Rightarrow> GroupState option" where
  "rebalance gs =
     map_option (\<lambda>ass. gs\<lparr>gsAssignments := ass\<rparr>)
       (assignTopics (topicMembers (gsMembers gs)) (clearAssignments (gsMembers gs)))"

section \<open>Operations\<close>

definition newGroup :: "string \<Rightarrow> GroupState" where
  "newGroup groupID = \<lparr>gsGroupID = groupID, gsGeneration = 0, gsMembers = [], gsAssignments = []\<rparr>"

definition JoinGroup :: "string \<Rightarrow> string \<Rightarrow> string list \<Rightarrow> GroupCoordinator \<Rightarrow> (int \<times> GroupCoordinator) option" where
  "JoinGroup groupID memberID topics gc =
     (let gs = (case gc groupID of Some gs \<Rightarrow> gs | None \<Rightarrow> newGroup groupID);
          memberChanged = (case map_of (gsMembers gs) memberID of
             None \<Rightarrow> True | Some existing \<Rightarrow> \<not> equalSlice (miTopics existing) topics);
          gs = gs\<lparr>gsMembers := AList.update memberID \<lparr>miMemberID = memberID, miTopics = topics\<rparr> (gsMembers gs)\<rparr>
      in case (if memberChanged then rebalance (gs\<lparr>gsGeneration := gsGeneration gs + 1\<rparr>) else Some gs) of
           None \<Rightarrow> None
         | Some gs \<Rightarrow> Some (gsGeneration gs, gc(groupID \<mapsto> gs)))"

definition SyncGroup :: "string \<Rightarrow> string \<Rightarrow> GroupCoordinator \<Rightarrow> topic_parts" where
  "SyncGroup groupID memberID gc =
     (case gc groupID of
        None \<Rightarrow> []
      | Some gs \<Rightarrow> (case map_of (gsAssignments gs) memberID of Some ass \<Rightarrow> ass | None \<Rightarrow> []))"

lemma equalSlice_eq [simp]: "equalSlice a b \<longleftrightarrow> a = b"
  by (auto simp: equalSlice_def list_all_iff intro: nth_equalityI)

section \<open>What is assigned to whom\<close>

definition parts :: "assignments \<Rightarrow> string \<Rightarrow> string \<Rightarrow> int list" where
  "parts ass m t = (case map_of ass m of None \<Rightarrow> []
     | Some inner \<Rightarrow> (case map_of inner t of None \<Rightarrow> [] | Some ps \<Rightarrow> ps))"

text \<open>An assignment as a sequence of single grants of a partition of a topic to a member.\<close>

type_synonym grant = "string \<times> string \<times> int"

abbreviation apply_grants :: "assignments option \<Rightarrow> grant list \<Rightarrow> assignments option" where
  "apply_grants acc gs \<equiv> foldl (\<lambda>acc (m, t, p). Option.bind acc (assignPart m t p)) acc gs"

definition granted :: "grant list \<Rightarrow> string \<Rightarrow> string \<Rightarrow> int list" where
  "granted gs m t = map (snd \<circ> snd) (filter (\<lambda>(m', t', p). m' = m \<and> t' = t) gs)"

lemma granted_simps [simp]:
  "granted [] m t = []"
  "granted ((m', t', p) # gs) m t = (if m' = m \<and> t' = t then p # granted gs m t else granted gs m t)"
  "granted (gs @ hs) m t = granted gs m t @ granted hs m t"
  by (simp_all add: granted_def)

lemma assignPart_Some:
  assumes "m \<in> dom (map_of ass)"
  shows "\<exists>ass'. assignPart m t p ass = Some ass' \<and> dom (map_of ass') = dom (map_of ass)
    \<and> (\<forall>m' t'. parts ass' m' t' = parts ass m' t' @ (if m' = m \<and> t' = t then [p] else []))"
proof -
  obtain inner where "map_of ass m = Some inner" using assms by blast
  then show ?thesis
    using assms by (auto simp: assignPart_def parts_def update_conv' Let_def insert_absorb
        split: option.splits)
qed

lemma apply_grants_Some:
  assumes "\<forall>(m, t, p) \<in> set gs. m \<in> dom (map_of ass)"
  shows "\<exists>ass'. apply_grants (Some ass) gs = Some ass' \<and> dom (map_of ass') = dom (map_of ass)
    \<and> (\<forall>m t. parts ass' m t = parts ass m t @ granted gs m t)"
  using assms
proof (induction gs arbitrary: ass)
  case Nil
  then show ?case by simp
next
  case (Cons g gs)
  obtain m t p where g: "g = (m, t, p)" by (cases g)
  with Cons.prems obtain ass1 where 1: "assignPart m t p ass = Some ass1"
      "dom (map_of ass1) = dom (map_of ass)"
      "\<forall>m' t'. parts ass1 m' t' = parts ass m' t' @ (if m' = m \<and> t' = t then [p] else [])"
    using assignPart_Some [of m ass t p] by auto
  with Cons.IH [of ass1] Cons.prems g show ?case by auto
qed

text \<open>The ranges that the loops hand out, for any number \<open>p\<close> of partitions.\<close>

definition range_start :: "nat \<Rightarrow> nat \<Rightarrow> nat \<Rightarrow> nat" where
  "range_start p n i = i * (p div n) + minVal i (p mod n)"

definition topic_grants :: "string \<Rightarrow> string list \<Rightarrow> grant list" where
  "topic_grants topic members =
     concat (map (\<lambda>i. map (\<lambda>q. (members ! i, topic, int32 (int q)))
         [range_start 2 (length members) i..<range_start 2 (length members) (Suc i)])
       [0..<length members])"

lemma range_start_Suc:
  "range_start p n (Suc i) = range_start p n i + (if i < p mod n then p div n + 1 else p div n)"
  by (simp add: range_start_def minVal_def)

lemma range_start_end: "0 < n \<Longrightarrow> range_start p n n = p"
proof -
  assume "0 < n"
  then have "p mod n < n" by simp
  then show ?thesis using mult_div_mod_eq [of n p] by (simp add: range_start_def minVal_def)
qed

lemma range_start_mono: "range_start p n k \<le> range_start p n (Suc k)"
  by (simp add: range_start_Suc)

lemma ranges_concat:
  "concat (map (\<lambda>i. [range_start p n i..<range_start p n (Suc i)]) [0..<k]) = [0..<range_start p n k]"
proof (induction k)
  case 0
  show ?case by (simp add: range_start_def minVal_def)
next
  case (Suc k)
  obtain d where d: "range_start p n (Suc k) = range_start p n k + d"
    using range_start_mono le_Suc_ex by blast
  show ?case by (simp add: Suc.IH) (simp add: d upt_add_eq_append [of 0])
qed

lemma foldl_concat: "foldl f a (concat xss) = foldl (foldl f) a xss"
  by (induction xss arbitrary: a) simp_all

lemma assignTopicPartitions_grants:
  "assignTopicPartitions topic members ass = apply_grants (Some ass) (topic_grants topic members)"
proof (cases "members = []")
  case True
  then show ?thesis by (simp add: assignTopicPartitions_def topic_grants_def)
next
  case False
  have inner: "foldl (\<lambda>acc j. Option.bind acc (assignPart m topic (int32 (int (s + j))))) acc [0..<k]
      = apply_grants acc (map (\<lambda>q. (m, topic, int32 (int q))) [s..<s + k])" for m s k acc
    by (induction k) simp_all
  show ?thesis
    using False
    by (simp add: assignTopicPartitions_def topic_grants_def foldl_concat foldl_map inner
        range_start_Suc Let_def range_start_def [symmetric] del: of_nat_add of_nat_mult)
qed

lemma topic_grants_parts:
  "map (snd \<circ> snd) (topic_grants t ms) = (if ms = [] then [] else [0, 1])"
proof (cases "ms = []")
  case True
  then show ?thesis by (simp add: topic_grants_def)
next
  case False
  let ?r = "range_start 2 (length ms)"
  have "map (snd \<circ> snd) (topic_grants t ms)
      = map (\<lambda>q. int32 (int q)) (concat (map (\<lambda>i. [?r i..<?r (Suc i)]) [0..<length ms]))"
    by (simp add: topic_grants_def map_concat comp_def)
  also have "\<dots> = map (\<lambda>q. int32 (int q)) [0, 1]"
    using False by (simp only: ranges_concat) (simp add: range_start_end numeral_2_eq_2)
  finally show ?thesis using False by (simp add: int32_def)
qed

lemma topic_grants_mem:
  "(m, t', q) \<in> set (topic_grants t ms) \<Longrightarrow> t' = t \<and> m \<in> set ms"
  by (auto simp: topic_grants_def)

lemma topic_grants_owner:
  assumes "ms \<noteq> []" "q \<in> {0, 1}"
  shows "\<exists>!m. q \<in> set (granted (topic_grants t ms) m t)"
proof -
  let ?gs = "topic_grants t ms"
  have mem: "q \<in> set (granted ?gs m t) \<longleftrightarrow> (m, t, q) \<in> set ?gs" for m
    by (force simp: granted_def)
  have ps: "map (snd \<circ> snd) ?gs = [0, 1]" using assms(1) by (simp add: topic_grants_parts)
  then have "q \<in> (snd \<circ> snd) ` set ?gs" using assms(2) by (metis list.set_map list.simps(15) empty_set)
  then obtain m where m: "(m, t, q) \<in> set ?gs" using topic_grants_mem by fastforce
  moreover have "inj_on (snd \<circ> snd) (set ?gs)" using distinct_map [of "snd \<circ> snd" ?gs] unfolding ps by simp
  ultimately show ?thesis unfolding mem inj_on_def by fastforce
qed

text \<open>The members that subscribe to a topic, a member as often as it lists the topic.\<close>

definition subscribers :: "(string \<times> MemberInfo) list \<Rightarrow> string \<Rightarrow> string list" where
  "subscribers ms t = concat (map (\<lambda>(m, mem). map (\<lambda>_. m) (filter ((=) t) (miTopics mem))) ms)"

definition members_of :: "(string \<times> string list) list \<Rightarrow> string \<Rightarrow> string list" where
  "members_of tm t = (case map_of tm t of None \<Rightarrow> [] | Some ms \<Rightarrow> ms)"

lemma addTopicMember_members:
  "members_of (addTopicMember m t tm) t' = members_of tm t' @ (if t' = t then [m] else [])"
  by (simp add: members_of_def addTopicMember_def update_conv' split: option.split)

lemma topicMembers_spec:
  "distinct (map fst (topicMembers ms)) \<and> (\<forall>t. members_of (topicMembers ms) t = subscribers ms t)"
proof -
  let ?in = "\<lambda>m. foldl (\<lambda>tm t. addTopicMember m t tm)"
  have inner: "(distinct (map fst tm) \<longrightarrow> distinct (map fst (?in m tm ts)))
      \<and> (\<forall>t. members_of (?in m tm ts) t = members_of tm t @ map (\<lambda>_. m) (filter ((=) t) ts))" for m tm ts
  proof (induction ts arbitrary: tm)
    case (Cons a ts)
    have "distinct (map fst tm) \<Longrightarrow> distinct (map fst (addTopicMember m a tm))"
      by (simp add: addTopicMember_def distinct_update)
    with Cons.IH [of "addTopicMember m a tm"] show ?case by (simp add: addTopicMember_members)
  qed simp
  show ?thesis
  proof (induction ms rule: rev_induct)
    case Nil
    show ?case by (simp add: topicMembers_def members_of_def subscribers_def)
  next
    case (snoc x ms)
    obtain m mem where x: "x = (m, mem)" by (cases x)
    have "topicMembers (ms @ [x]) = ?in m (topicMembers ms) (miTopics mem)"
      by (simp add: topicMembers_def x)
    with snoc.IH inner [of "topicMembers ms" m "miTopics mem"] show ?case
      by (simp add: subscribers_def x)
  qed
qed

lemma clearAssignments_spec:
  "dom (map_of (clearAssignments ms)) = fst ` set ms \<and> parts (clearAssignments ms) m t = []"
proof (induction ms rule: rev_induct)
  case (snoc x ms)
  have "clearAssignments (ms @ [x]) = AList.update (fst x) [] (clearAssignments ms)"
    by (simp add: clearAssignments_def split: prod.split)
  then have eq: "map_of (clearAssignments (ms @ [x])) = (map_of (clearAssignments ms))(fst x \<mapsto> [])"
    by (simp add: update_conv')
  have "dom (map_of (clearAssignments (ms @ [x]))) = fst ` set (ms @ [x])"
    using snoc.IH unfolding eq dom_fun_upd by simp
  moreover have "parts (clearAssignments (ms @ [x])) m t = []"
    using snoc.IH by (simp add: eq parts_def)
  ultimately show ?case by blast
qed (simp add: clearAssignments_def parts_def)

lemma granted_none: "(\<And>m' t' q. (m', t', q) \<in> set gs \<Longrightarrow> t' \<noteq> t) \<Longrightarrow> granted gs m t = []"
  by (force simp: granted_def filter_empty_conv)

lemma granted_topics:
  assumes "distinct (map fst tm)"
  shows "granted (concat (map (\<lambda>(t, ms). topic_grants t (sort ms)) tm)) m t
    = granted (topic_grants t (sort (members_of tm t))) m t"
  using assms
proof (induction tm)
  case Nil
  show ?case by (simp add: members_of_def topic_grants_def)
next
  case (Cons x tm)
  obtain t' ms where x: "x = (t', ms)" by (cases x)
  have none: "t' \<noteq> t \<Longrightarrow> granted (topic_grants t' (sort ms)) m t = []"
    using topic_grants_mem by (intro granted_none) blast
  have "t' = t \<Longrightarrow> members_of tm t = []"
    using Cons.prems x by (simp add: members_of_def map_of_eq_None_iff split: option.split)
      (metis fst_conv image_eqI map_of_SomeD)
  with Cons none x show ?case
    by (cases "t' = t") (simp_all add: members_of_def topic_grants_def)
qed

lemma assignTopics_Some:
  assumes "distinct (map fst tm)"
    and "\<And>t. set (members_of tm t) \<subseteq> dom (map_of ass)"
  shows "\<exists>ass'. assignTopics tm ass = Some ass' \<and> dom (map_of ass') = dom (map_of ass)
    \<and> (\<forall>m t. parts ass' m t = parts ass m t @ granted (topic_grants t (sort (members_of tm t))) m t)"
proof -
  let ?gs = "concat (map (\<lambda>(t, ms). topic_grants t (sort ms)) tm)"
  have "Option.bind acc (assignTopicPartitions t ms) = apply_grants acc (topic_grants t ms)" for acc t ms
  proof (cases acc)
    case None
    have "apply_grants None gs = None" for gs by (induction gs) auto
    then show ?thesis by (simp add: None)
  qed (simp add: assignTopicPartitions_grants)
  then have eq: "assignTopics tm ass = apply_grants (Some ass) ?gs"
    by (simp add: assignTopics_def foldl_concat foldl_map case_prod_unfold)
  have "m \<in> dom (map_of ass)" if "(m, t, q) \<in> set ?gs" for m t q
  proof -
    from that obtain ms where "(t, ms) \<in> set tm" "m \<in> set ms"
      using topic_grants_mem by fastforce
    then have "m \<in> set (members_of tm t)" using assms(1) by (simp add: members_of_def)
    then show ?thesis using assms(2) by blast
  qed
  then have "\<forall>(m, t, q) \<in> set ?gs. m \<in> dom (map_of ass)" by blast
  from apply_grants_Some [OF this] show ?thesis
    by (simp only: eq granted_topics [OF assms(1)])
qed

section \<open>Reachable states\<close>

definition group_ok :: "GroupState \<Rightarrow> bool" where
  "group_ok gs \<longleftrightarrow> distinct (map fst (gsMembers gs))
     \<and> (\<forall>(k, mem) \<in> set (gsMembers gs). miMemberID mem = k) \<and> rebalance gs = Some gs"

definition coordinator_ok :: "GroupCoordinator \<Rightarrow> bool" where
  "coordinator_ok gc \<longleftrightarrow> (\<forall>gs \<in> ran gc. group_ok gs)"

definition members :: "GroupCoordinator \<Rightarrow> string \<Rightarrow> (string \<times> MemberInfo) list" where
  "members gc g = (case gc g of None \<Rightarrow> [] | Some gs \<Rightarrow> gsMembers gs)"

definition generation :: "GroupCoordinator \<Rightarrow> string \<Rightarrow> int" where
  "generation gc g = (case gc g of None \<Rightarrow> 0 | Some gs \<Rightarrow> gsGeneration gs)"

definition subscription :: "GroupCoordinator \<Rightarrow> string \<Rightarrow> string \<Rightarrow> string list option" where
  "subscription gc g m = map_option miTopics (map_of (members gc g) m)"

text \<open>The partitions of topic \<open>t\<close> that \<^verbatim>\<open>SyncGroup\<close> reports for a member.\<close>

definition owned :: "GroupCoordinator \<Rightarrow> string \<Rightarrow> string \<Rightarrow> string \<Rightarrow> int list" where
  "owned gc g m t = (case map_of (SyncGroup g m gc) t of None \<Rightarrow> [] | Some ps \<Rightarrow> ps)"

lemma subscribers_mem:
  "distinct (map fst ms) \<Longrightarrow>
   m \<in> set (subscribers ms t) \<longleftrightarrow> (\<exists>mem. map_of ms m = Some mem \<and> t \<in> set (miTopics mem))"
  by (force simp: subscribers_def)

lemma subscribers_dom: "set (subscribers ms t) \<subseteq> fst ` set ms"
  by (force simp: subscribers_def)

lemma subscribers_mset:
  "mset ms = mset ms' \<Longrightarrow> mset (subscribers ms t) = mset (subscribers ms' t)"
proof -
  assume eq: "mset ms = mset ms'"
  let ?f = "\<lambda>(m, mem). mset (map (\<lambda>_. m) (filter ((=) t) (miTopics mem)))"
  have "mset (subscribers ms t) = \<Sum>\<^sub># (image_mset ?f (mset ms))" for ms
    by (induction ms) (auto simp: subscribers_def)
  then show ?thesis using eq by simp
qed

lemma rebalance_Some:
  "\<exists>ass. rebalance gs = Some (gs\<lparr>gsAssignments := ass\<rparr>)
    \<and> (\<forall>m t. parts ass m t = granted (topic_grants t (sort (subscribers (gsMembers gs) t))) m t)"
proof -
  let ?ms = "gsMembers gs"
  have "\<And>t. set (members_of (topicMembers ?ms) t) \<subseteq> dom (map_of (clearAssignments ?ms))"
    using subscribers_dom by (simp add: topicMembers_spec clearAssignments_spec)
  from assignTopics_Some [OF conjunct1 [OF topicMembers_spec] this] show ?thesis
    by (auto simp: rebalance_def topicMembers_spec clearAssignments_spec)
qed

lemma group_ok_parts:
  assumes "group_ok gs"
  shows "parts (gsAssignments gs) m t = granted (topic_grants t (sort (subscribers (gsMembers gs) t))) m t"
proof -
  obtain ass where "rebalance gs = Some (gs\<lparr>gsAssignments := ass\<rparr>)"
    "\<forall>m t. parts ass m t = granted (topic_grants t (sort (subscribers (gsMembers gs) t))) m t"
    using rebalance_Some [of gs] by blast
  moreover have "rebalance gs = Some gs" using assms by (simp add: group_ok_def)
  ultimately show ?thesis by (metis GroupState.select_convs(4) GroupState.surjective
    GroupState.update_convs(4) option.inject)
qed

lemma rebalance_ok:
  assumes "distinct (map fst (gsMembers gs))" "\<forall>(k, mem) \<in> set (gsMembers gs). miMemberID mem = k"
    and "rebalance gs = Some gs'"
  shows "group_ok gs'"
proof -
  have "gsMembers gs' = gsMembers gs" and "rebalance gs' = Some gs'"
    using assms(3) by (auto simp: rebalance_def)
  then show ?thesis using assms by (simp add: group_ok_def)
qed

lemma JoinGroup_step:
  assumes ok: "coordinator_ok gc"
  obtains gc' where "JoinGroup g m ts gc = Some (generation gc' g, gc')" "coordinator_ok gc'"
    "\<And>g'. g' \<noteq> g \<Longrightarrow> gc' g' = gc g'"
    "\<And>m'. subscription gc' g m' = (if m' = m then Some ts else subscription gc g m')"
    "generation gc' g = generation gc g + (if subscription gc g m = Some ts then 0 else 1)"
    "subscription gc g m = Some ts \<Longrightarrow> gc' = gc"
proof -
  define gs where "gs = (case gc g of Some gs \<Rightarrow> gs | None \<Rightarrow> newGroup g)"
  define mi where "mi = \<lparr>miMemberID = m, miTopics = ts\<rparr>"
  define ms where "ms = AList.update m mi (gsMembers gs)"
  have gs: "distinct (map fst (gsMembers gs))" "\<forall>(k, mem) \<in> set (gsMembers gs). miMemberID mem = k"
    using ok by (auto simp: gs_def newGroup_def coordinator_ok_def group_ok_def ran_def split: option.split)
  have sub: "subscription gc g m' = map_option miTopics (map_of (gsMembers gs) m')"
    and gen: "generation gc g = gsGeneration gs" for m'
    by (simp_all add: subscription_def members_def generation_def gs_def newGroup_def split: option.split)
  show thesis
  proof (cases "subscription gc g m = Some ts")
    case True
    then obtain mem where mem: "map_of (gsMembers gs) m = Some mem" "miTopics mem = ts"
      by (auto simp: sub)
    then have "miMemberID mem = m" using gs(2) map_of_SomeD by fastforce
    with mem have "mem = mi" by (simp add: mi_def)
    with mem have ms: "ms = gsMembers gs" by (simp add: ms_def update_triv)
    have "gc g = Some gs" using mem by (simp add: gs_def newGroup_def split: option.splits)
    then have "JoinGroup g m ts gc = Some (gsGeneration gs, gc)"
      using mem ms by (simp add: JoinGroup_def mi_def ms_def Let_def fun_upd_idem)
    with True ok gen show thesis by (intro that [of gc]) auto
  next
    case False
    let ?new = "gs\<lparr>gsMembers := ms, gsGeneration := gsGeneration gs + 1\<rparr>"
    obtain gs' where gs': "rebalance ?new = Some gs'" "gsMembers gs' = ms" "gsGeneration gs' = gsGeneration gs + 1"
      using rebalance_Some [of ?new] by auto
    have "set ms \<subseteq> insert (m, mi) (set (gsMembers gs))" unfolding ms_def by (rule set_update_subset)
    then have "group_ok gs'"
      using gs gs' by (intro rebalance_ok [of ?new]) (auto simp: ms_def mi_def distinct_update)
    have J: "JoinGroup g m ts gc = Some (gsGeneration gs', gc(g \<mapsto> gs'))"
      using False gs' by (auto simp: JoinGroup_def sub gs_def [symmetric] mi_def ms_def Let_def split: option.splits)
    let ?gc = "gc(g \<mapsto> gs')"
    have "coordinator_ok ?gc" using ok \<open>group_ok gs'\<close> by (auto simp: coordinator_ok_def ran_def)
    moreover have "subscription ?gc g m' = (if m' = m then Some ts else subscription gc g m')" for m'
      unfolding sub by (simp add: subscription_def members_def gs'(2) ms_def mi_def update_conv')
    moreover have "generation ?gc g = gsGeneration gs'" by (simp add: generation_def)
    ultimately show thesis using J False gen gs'(3) by (intro that [of ?gc]) auto
  qed
qed

text \<open>Any history of joins, as \<open>(group, member, topics)\<close>.\<close>

primrec run_joins :: "(string \<times> string \<times> string list) list \<Rightarrow> GroupCoordinator \<Rightarrow> GroupCoordinator option" where
  "run_joins [] gc = Some gc"
| "run_joins (j # js) gc =
     (case j of (g, m, ts) \<Rightarrow> Option.bind (JoinGroup g m ts gc) (\<lambda>(_, gc). run_joins js gc))"

primrec last_topics :: "(string \<times> string \<times> string list) list \<Rightarrow> string \<Rightarrow> string \<Rightarrow> string list option" where
  "last_topics [] g m = None"
| "last_topics (j # js) g m =
     (case last_topics js g m of Some ts \<Rightarrow> Some ts
      | None \<Rightarrow> (case j of (g', m', ts) \<Rightarrow> if g' = g \<and> m' = m then Some ts else None))"

lemma run_joins_ok:
  assumes "coordinator_ok gc"
  shows "\<exists>gc'. run_joins js gc = Some gc' \<and> coordinator_ok gc'
    \<and> (\<forall>g m. subscription gc' g m = (case last_topics js g m of Some ts \<Rightarrow> Some ts | None \<Rightarrow> subscription gc g m))"
  using assms
proof (induction js arbitrary: gc)
  case (Cons j js)
  obtain g m ts where j: "j = (g, m, ts)" by (cases j)
  obtain gc1 where gc1: "JoinGroup g m ts gc = Some (generation gc1 g, gc1)" "coordinator_ok gc1"
      "\<And>g'. g' \<noteq> g \<Longrightarrow> gc1 g' = gc g'"
      "\<And>m'. subscription gc1 g m' = (if m' = m then Some ts else subscription gc g m')"
    using JoinGroup_step [OF Cons.prems] by metis
  have other: "g' \<noteq> g \<Longrightarrow> subscription gc1 g' m' = subscription gc g' m'" for g' m'
    using gc1(3) by (simp add: subscription_def members_def)
  have "subscription gc1 g' m' = (if g' = g \<and> m' = m then Some ts else subscription gc g' m')" for g' m'
    using other gc1(4) by (cases "g' = g") auto
  moreover obtain gc' where "run_joins js gc1 = Some gc'" "coordinator_ok gc'"
      "\<forall>g m. subscription gc' g m = (case last_topics js g m of Some ts \<Rightarrow> Some ts | None \<Rightarrow> subscription gc1 g m)"
    using Cons.IH [OF gc1(2)] by blast
  ultimately show ?case using gc1(1) j by (simp split: option.split)
qed simp

lemma coordinator_ok_new [simp]: "coordinator_ok NewGroupCoordinator"
  by (simp add: coordinator_ok_def NewGroupCoordinator_def)

lemma subscription_new [simp]: "subscription NewGroupCoordinator g m = None"
  by (simp add: subscription_def members_def NewGroupCoordinator_def)

lemma owned_parts:
  assumes "coordinator_ok gc"
  shows "owned gc g m t = granted (topic_grants t (sort (subscribers (members gc g) t))) m t"
proof (cases "gc g")
  case None
  then show ?thesis by (simp add: owned_def SyncGroup_def members_def subscribers_def topic_grants_def)
next
  case (Some gs)
  then have "group_ok gs" using assms by (auto simp: coordinator_ok_def ran_def)
  have "owned gc g m t = parts (gsAssignments gs) m t"
    using Some by (simp add: owned_def SyncGroup_def parts_def split: option.split)
  with group_ok_parts [OF \<open>group_ok gs\<close>] Some show ?thesis by (simp add: members_def)
qed

lemma members_distinct: "coordinator_ok gc \<Longrightarrow> distinct (map fst (members gc g))"
  by (auto simp: coordinator_ok_def group_ok_def members_def ran_def split: option.split)

lemma subscribers_subscription:
  "coordinator_ok gc \<Longrightarrow>
   m \<in> set (subscribers (members gc g) t) \<longleftrightarrow> (\<exists>ts. subscription gc g m = Some ts \<and> t \<in> set ts)"
  using subscribers_mem [OF members_distinct] by (auto simp: subscription_def)

lemma owned_sound:
  assumes ok: "coordinator_ok gc" and q: "q \<in> set (owned gc g m t)"
  shows "q \<in> {0, 1} \<and> (\<exists>ts. subscription gc g m = Some ts \<and> t \<in> set ts)"
proof -
  let ?ms = "sort (subscribers (members gc g) t)"
  have grant: "(m, t, q) \<in> set (topic_grants t ?ms)"
    using q by (auto simp: owned_parts [OF ok] granted_def)
  then have "q \<in> set (map (snd \<circ> snd) (topic_grants t ?ms))" by force
  then have "q \<in> {0, 1}" by (auto simp: topic_grants_parts split: if_splits)
  moreover have "m \<in> set (subscribers (members gc g) t)" using topic_grants_mem [OF grant] by simp
  ultimately show ?thesis using subscribers_subscription [OF ok] by blast
qed

section \<open>Properties\<close>

definition sample_joins :: "(string \<times> string \<times> string list) list" where
  "sample_joins = [(''g'', ''c1'', [''t'']), (''g'', ''c2'', [''t''])]"

text \<open>\<^bold>\<open>C17\<close>: after any history of \<^verbatim>\<open>JoinGroup\<close> calls, none of which panics, a topic that some member of
  a group last subscribed to has each of its two partitions assigned by \<^verbatim>\<open>SyncGroup\<close> to exactly one member, and nobody
  is assigned anything but partitions 0 and 1 of topics in its own last subscription.\<close>

theorem partitions_assigned_exactly_once:
  "\<exists>gc. run_joins js NewGroupCoordinator = Some gc
    \<and> (\<forall>g t. (\<exists>m ts. last_topics js g m = Some ts \<and> t \<in> set ts)
         \<longrightarrow> (\<forall>q \<in> {0, 1}. \<exists>!m. q \<in> set (owned gc g m t)))
    \<and> (\<forall>g m t q. q \<in> set (owned gc g m t)
         \<longrightarrow> q \<in> {0, 1} \<and> (\<exists>ts. last_topics js g m = Some ts \<and> t \<in> set ts))"
proof -
  obtain gc where gc: "run_joins js NewGroupCoordinator = Some gc" and ok: "coordinator_ok gc"
    and sub: "\<And>g m. subscription gc g m = last_topics js g m"
    using run_joins_ok [OF coordinator_ok_new, of js] by (force split: option.splits)
  have unique: "\<exists>!m. q \<in> set (owned gc g m t)"
    if "last_topics js g m = Some ts" "t \<in> set ts" "q \<in> {0, 1}" for g m ts t q
  proof -
    have "subscribers (members gc g) t \<noteq> []"
      using subscribers_subscription [OF ok] that sub by (metis empty_iff empty_set)
    then have "sort (subscribers (members gc g) t) \<noteq> []" by (metis set_empty set_sort)
    from topic_grants_owner [OF this that(3)] show ?thesis by (simp add: owned_parts [OF ok])
  qed
  have sound: "q \<in> {0, 1} \<and> (\<exists>ts. last_topics js g m = Some ts \<and> t \<in> set ts)"
    if "q \<in> set (owned gc g m t)" for g m t q
    using owned_sound [OF ok that] sub by simp
  show ?thesis
  proof (intro exI [of _ gc] conjI gc allI impI ballI)
    fix g t q assume "\<exists>m ts. last_topics js g m = Some ts \<and> t \<in> set ts" "q \<in> {0, 1 :: int}"
    then show "\<exists>!m. q \<in> set (owned gc g m t)" using unique by blast
  qed (use sound in blast)+
qed

theorem partitions_assigned_exactly_once_witness:
  "\<exists>gc. run_joins sample_joins NewGroupCoordinator = Some gc
    \<and> (\<exists>!m. 0 \<in> set (owned gc ''g'' m ''t'')) \<and> (\<exists>!m. 1 \<in> set (owned gc ''g'' m ''t''))"
proof -
  have "\<exists>m ts. last_topics sample_joins ''g'' m = Some ts \<and> ''t'' \<in> set ts"
    by (intro exI [of _ "''c2''"]) (simp add: sample_joins_def)
  moreover obtain gc where "run_joins sample_joins NewGroupCoordinator = Some gc"
      "\<forall>g t. (\<exists>m ts. last_topics sample_joins g m = Some ts \<and> t \<in> set ts)
         \<longrightarrow> (\<forall>q \<in> {0, 1}. \<exists>!m. q \<in> set (owned gc g m t))"
    using partitions_assigned_exactly_once [of sample_joins] by (elim exE conjE)
  ultimately show ?thesis by (intro exI [of _ gc]) simp
qed

text \<open>In every reachable state a join returns the old generation exactly when the member already had these
  topics, and then changes nothing; otherwise it returns the old generation plus one. Other groups are
  untouched, so generations never decrease.\<close>

theorem join_generation:
  assumes "run_joins js NewGroupCoordinator = Some gc"
  shows "\<exists>gc'. JoinGroup g m ts gc
      = Some (generation gc g + (if last_topics js g m = Some ts then 0 else 1), gc')
    \<and> (last_topics js g m = Some ts \<longrightarrow> gc' = gc)
    \<and> (\<forall>g'. g' \<noteq> g \<longrightarrow> gc' g' = gc g')"
proof -
  have ok: "coordinator_ok gc" and sub: "subscription gc g m = last_topics js g m"
    using run_joins_ok [OF coordinator_ok_new, of js] assms by (auto split: option.splits)
  from ok obtain gc' where "JoinGroup g m ts gc = Some (generation gc' g, gc')"
    "\<And>g'. g' \<noteq> g \<Longrightarrow> gc' g' = gc g'"
    "generation gc' g = generation gc g + (if subscription gc g m = Some ts then 0 else 1)"
    "subscription gc g m = Some ts \<Longrightarrow> gc' = gc"
    using JoinGroup_step by metis
  then show ?thesis unfolding sub by auto
qed

theorem join_generation_witness:
  "\<exists>gc. run_joins sample_joins NewGroupCoordinator = Some gc
    \<and> (\<exists>gc'. JoinGroup ''g'' ''c1'' [''u''] gc = Some (3, gc'))"
proof -
  obtain gc where gc: "run_joins sample_joins NewGroupCoordinator = Some gc" "generation gc ''g'' = 2"
    by (simp add: sample_joins_def JoinGroup_def NewGroupCoordinator_def newGroup_def rebalance_def
        topicMembers_def addTopicMember_def clearAssignments_def assignTopics_def assignTopicPartitions_def
        assignPart_def minVal_def generation_def Let_def numeral_2_eq_2 upt_rec)
  have "last_topics sample_joins ''g'' ''c1'' \<noteq> Some [''u'']" by (simp add: sample_joins_def)
  with join_generation [OF gc(1), of "''g''" "''c1''" "[''u'']"] gc show ?thesis by auto
qed

text \<open>\<^bold>\<open>C32\<close>: the assignment does not depend on the order in which the two \<^verbatim>\<open>range\<close> loops over Go maps visit
  the members and the topics.\<close>

theorem rebalance_order_independent:
  assumes "mset ms = mset ms'"
    and "mset tm = mset (topicMembers ms)" "mset tm' = mset (topicMembers ms')"
  shows "\<exists>ass ass'. assignTopics tm (clearAssignments ms) = Some ass
    \<and> assignTopics tm' (clearAssignments ms') = Some ass'
    \<and> (\<forall>m t. parts ass m t = parts ass' m t)"
proof -
  have run: "\<exists>ass. assignTopics tm (clearAssignments ms) = Some ass
      \<and> (\<forall>m t. parts ass m t = granted (topic_grants t (sort (subscribers ms t))) m t)"
    if "mset tm = mset (topicMembers ms)" for tm ms
  proof -
    have "mset (map fst tm) = mset (map fst (topicMembers ms))" using that by simp
    then have d: "distinct (map fst tm)" using topicMembers_spec mset_eq_imp_distinct_iff by blast
    moreover have "set tm = set (topicMembers ms)" using that by (rule mset_eq_setD)
    ultimately have "map_of tm = map_of (topicMembers ms)"
      using topicMembers_spec map_of_inject_set by blast
    then have "members_of tm t = subscribers ms t" for t
      using topicMembers_spec [of ms] by (simp add: members_of_def)
    then show ?thesis using assignTopics_Some [OF d, of "clearAssignments ms"] subscribers_dom [of ms]
      by (auto simp: clearAssignments_spec)
  qed
  have "sort (subscribers ms t) = sort (subscribers ms' t)" for t
    using subscribers_mset [OF assms(1)] by (intro properties_for_sort) auto
  with run [OF assms(2)] run [OF assms(3)] show ?thesis by auto
qed

theorem rebalance_order_independent_witness:
  "\<exists>ass ass'. assignTopics (topicMembers [(''a'', \<lparr>miMemberID = ''a'', miTopics = [''t'']\<rparr>), (''b'', \<lparr>miMemberID = ''b'', miTopics = [''t'']\<rparr>)])
       (clearAssignments [(''a'', \<lparr>miMemberID = ''a'', miTopics = [''t'']\<rparr>), (''b'', \<lparr>miMemberID = ''b'', miTopics = [''t'']\<rparr>)]) = Some ass
    \<and> assignTopics (topicMembers [(''b'', \<lparr>miMemberID = ''b'', miTopics = [''t'']\<rparr>), (''a'', \<lparr>miMemberID = ''a'', miTopics = [''t'']\<rparr>)])
       (clearAssignments [(''b'', \<lparr>miMemberID = ''b'', miTopics = [''t'']\<rparr>), (''a'', \<lparr>miMemberID = ''a'', miTopics = [''t'']\<rparr>)]) = Some ass'
    \<and> (\<forall>m t. parts ass m t = parts ass' m t)"
  by (rule rebalance_order_independent) simp_all

end
