(* ===== verification/Producer_State.thy ===== *)
theory Producer_State
  imports Prelude
begin

text \<open>
  The two duplicate tables of producers: \<^verbatim>\<open>internal/producer/idempotent.go\<close>, keyed by message id and
  with a time to live, which the server uses, and \<^verbatim>\<open>internal/broker/producer_state.go\<close>, keyed by
  sequence number. Both implement the contract \<open>dup_cache\<close>, in which the exactly-once lemma of a client that checks,
  writes and records is proved once. Times are nanoseconds; \<open>now\<close> is the value of \<^verbatim>\<open>time.Now()\<close>.
\<close>

section \<open>Message ids: \<open>IdempotentManager\<close>\<close>

record entry =
  eOffset :: int
  eTimestamp :: int

record IdempotentManager =
  imStates :: "int \<rightharpoonup> (string \<rightharpoonup> entry)"
  imTtl :: int

definition NewIdempotentManager :: "int \<Rightarrow> IdempotentManager" where
  "NewIdempotentManager ttl = \<lparr>imStates = Map.empty, imTtl = ttl\<rparr>"

definition CheckDuplicate :: "int \<Rightarrow> int \<Rightarrow> string \<Rightarrow> IdempotentManager \<Rightarrow> int \<times> bool" where
  "CheckDuplicate now producerID messageID m =
     (if messageID = [] then (0, False)
      else case imStates m producerID of
          Some prodMap \<Rightarrow> (case prodMap messageID of
              Some ent \<Rightarrow> if now - eTimestamp ent \<le> imTtl m then (eOffset ent, True) else (0, False)
            | None \<Rightarrow> (0, False))
        | None \<Rightarrow> (0, False))"

definition RecordMessage :: "int \<Rightarrow> int \<Rightarrow> string \<Rightarrow> int \<Rightarrow> IdempotentManager \<Rightarrow> IdempotentManager" where
  "RecordMessage now producerID messageID offset m =
     (if messageID = [] then m
      else let prodMap = (case imStates m producerID of Some pm \<Rightarrow> pm | None \<Rightarrow> Map.empty)
        in m\<lparr>imStates := (imStates m)(producerID \<mapsto>
             prodMap(messageID \<mapsto> \<lparr>eOffset = offset, eTimestamp = now\<rparr>))\<rparr>)"

section \<open>Sequence numbers: \<open>ProducerStateManager\<close>\<close>

type_synonym ProducerStateManager = "int \<rightharpoonup> (int \<rightharpoonup> int)"

definition NewProducerStateManager :: ProducerStateManager where
  "NewProducerStateManager = Map.empty"

definition CheckDuplicateSeq :: "int \<Rightarrow> int \<Rightarrow> ProducerStateManager \<Rightarrow> int \<times> bool" where
  "CheckDuplicateSeq producerID seqNum p =
     (case p producerID of
        Some prodMap \<Rightarrow> (case prodMap seqNum of Some offset \<Rightarrow> (offset, True) | None \<Rightarrow> (0, False))
      | None \<Rightarrow> (0, False))"

definition RecordSequence :: "int \<Rightarrow> int \<Rightarrow> int \<Rightarrow> ProducerStateManager \<Rightarrow> ProducerStateManager" where
  "RecordSequence producerID seqNum offset p =
     (let prodMap = (case p producerID of Some pm \<Rightarrow> pm | None \<Rightarrow> Map.empty)
      in p(producerID \<mapsto> prodMap(seqNum \<mapsto> offset)))"

section \<open>The contract\<close>

text \<open>A client that submits keyed messages: it looks the key up, and only when it is unknown appends the message to
  its log and records the offset. The answers are the offsets it reports.\<close>

fun submit_all ::
  "('t \<Rightarrow> int \<Rightarrow> 'k \<Rightarrow> 's \<Rightarrow> int \<times> bool) \<Rightarrow> ('t \<Rightarrow> int \<Rightarrow> 'k \<Rightarrow> int \<Rightarrow> 's \<Rightarrow> 's)
   \<Rightarrow> ('t \<times> int \<times> 'k) list \<Rightarrow> 's \<Rightarrow> (int \<times> 'k) list \<Rightarrow> int list \<times> 's \<times> (int \<times> 'k) list" where
  "submit_all check rec [] s log = ([], s, log)"
| "submit_all check rec ((now, p, k) # ms) s log =
     (case check now p k s of
        (off, True) \<Rightarrow> (case submit_all check rec ms s log of (offs, s, log) \<Rightarrow> (off # offs, s, log))
      | (_, False) \<Rightarrow>
          (let off = int (length log)
           in case submit_all check rec ms (rec now p k off s) (log @ [(p, k)]) of
                (offs, s, log) \<Rightarrow> (off # offs, s, log)))"

locale dup_cache =
  fixes check :: "'t \<Rightarrow> int \<Rightarrow> 'k \<Rightarrow> 's \<Rightarrow> int \<times> bool"
    and rec :: "'t \<Rightarrow> int \<Rightarrow> 'k \<Rightarrow> int \<Rightarrow> 's \<Rightarrow> 's"
    and fresh :: "'s \<Rightarrow> bool"
    and alive :: "'s \<Rightarrow> 't \<Rightarrow> 't \<Rightarrow> bool"
    and keyed :: "'k \<Rightarrow> bool"
  assumes check_fresh: "fresh s \<Longrightarrow> check t p k s = (0, False)"
    and check_rec: "keyed k \<Longrightarrow> alive s t t' \<Longrightarrow> check t' p k (rec t p k off s) = (off, True)"
    and check_rec_other: "(p', k') \<noteq> (p, k) \<Longrightarrow> check t' p' k' (rec t p k off s) = check t' p' k' s"
    and alive_rec: "alive (rec t p k off s) = alive s"
begin

text \<open>What the table knows agrees with the log: a key is found exactly when it is logged, with its position.\<close>

definition agrees :: "'t set \<Rightarrow> 's \<Rightarrow> (int \<times> 'k) list \<Rightarrow> bool" where
  "agrees T s log \<longleftrightarrow> distinct log
     \<and> (\<forall>t \<in> T. \<forall>p k. (p, k) \<notin> set log \<longrightarrow> check t p k s = (0, False))
     \<and> (\<forall>t \<in> T. \<forall>i < length log. check t (fst (log ! i)) (snd (log ! i)) s = (int i, True))"

lemma agrees_fresh: "fresh s \<Longrightarrow> agrees T s []"
  by (simp add: agrees_def check_fresh)

lemma agrees_hit:
  assumes "agrees T s log" "t \<in> T" "(p, k) \<in> set log"
  obtains i where "i < length log" "log ! i = (p, k)" "check t p k s = (int i, True)"
  using assms unfolding agrees_def in_set_conv_nth by (metis fst_conv snd_conv)

lemma agrees_rec:
  assumes a: "agrees T s log" and new: "(p, k) \<notin> set log" and k: "keyed k"
    and al: "\<And>t'. t' \<in> T \<Longrightarrow> alive s t t'"
  shows "agrees T (rec t p k (int (length log)) s) (log @ [(p, k)])"
proof -
  have "check t' (fst (log ! i)) (snd (log ! i)) (rec t p k (int (length log)) s) = (int i, True)"
    if "t' \<in> T" "i < length log" for t' i
  proof -
    have "(fst (log ! i), snd (log ! i)) \<noteq> (p, k)" using new that(2) nth_mem by fastforce
    then show ?thesis using a that unfolding agrees_def by (metis check_rec_other)
  qed
  moreover have "check t' p' k' (rec t p k (int (length log)) s) = (0, False)"
    if "t' \<in> T" "(p', k') \<notin> set (log @ [(p, k)])" for t' p' k'
    using a that by (simp add: check_rec_other agrees_def)
  ultimately show ?thesis
    using a new al k by (auto simp: agrees_def nth_append check_rec less_Suc_eq)
qed

lemma submit_all_exactly_once:
  assumes "agrees T s log" and "\<forall>(t, p, k) \<in> set ms. t \<in> T \<and> keyed k"
    and "\<forall>t \<in> T. \<forall>t' \<in> T. alive s t t'"
    and "submit_all check rec ms s log = (offs, s', log')"
  shows "agrees T s' log' \<and> (\<exists>new. log' = log @ new) \<and> set log' = set log \<union> snd ` set ms
    \<and> list_all2 (\<lambda>m off. 0 \<le> off \<and> nat off < length log' \<and> log' ! nat off = snd m) ms offs"
  using assms
proof (induction ms arbitrary: s log offs s' log')
  case Nil
  then show ?case by auto
next
  case (Cons x ms)
  obtain t p k where x: "x = (t, p, k)" by (cases x)
  have t: "t \<in> T" and k: "keyed k" and ms: "\<forall>(t, p, k) \<in> set ms. t \<in> T \<and> keyed k"
    using Cons.prems(2) x by auto
  show ?case
  proof (cases "(p, k) \<in> set log")
    case True
    then obtain i where i: "i < length log" "log ! i = (p, k)" "check t p k s = (int i, True)"
      using agrees_hit [OF Cons.prems(1) t] by blast
    obtain offs1 where offs: "offs = int i # offs1" "submit_all check rec ms s log = (offs1, s', log')"
      using Cons.prems(4) x i by (auto split: prod.splits)
    from Cons.IH [OF Cons.prems(1) ms Cons.prems(3) offs(2)] show ?thesis
      using True x offs(1) i by (auto simp: nth_append)
  next
    case False
    then have "check t p k s = (0, False)" using Cons.prems(1) t by (simp add: agrees_def)
    then obtain offs1 where offs: "offs = int (length log) # offs1"
        "submit_all check rec ms (rec t p k (int (length log)) s) (log @ [(p, k)]) = (offs1, s', log')"
      using Cons.prems(4) x by (auto simp: Let_def split: prod.splits)
    have "agrees T (rec t p k (int (length log)) s) (log @ [(p, k)])"
      using agrees_rec [OF Cons.prems(1) False k] Cons.prems(3) t by blast
    from Cons.IH [OF this ms _ offs(2)] Cons.prems(3) show ?thesis
      using x offs(1) by (auto simp: nth_append alive_rec)
  qed
qed

lemma submit_all_from_fresh:
  assumes "fresh s" and "\<forall>(t, p, k) \<in> set ms. keyed k"
    and "\<forall>t \<in> fst ` set ms. \<forall>t' \<in> fst ` set ms. alive s t t'"
    and "submit_all check rec ms s [] = (offs, s', log)"
  shows "distinct log \<and> set log = snd ` set ms
    \<and> list_all2 (\<lambda>m off. 0 \<le> off \<and> nat off < length log \<and> log ! nat off = snd m) ms offs"
proof -
  have "\<forall>(t, p, k) \<in> set ms. t \<in> fst ` set ms \<and> keyed k" using assms(2) by force
  from submit_all_exactly_once [OF agrees_fresh [OF assms(1)] this assms(3,4)] show ?thesis
    by (simp add: agrees_def)
qed

end

section \<open>Both tables meet the contract\<close>

interpretation msgids: dup_cache CheckDuplicate RecordMessage
    "\<lambda>m. imStates m = Map.empty" "\<lambda>m t t'. t' - t \<le> imTtl m" "\<lambda>k. k \<noteq> []"
  by unfold_locales (auto simp: CheckDuplicate_def RecordMessage_def Let_def split: option.splits)

interpretation seqnums: dup_cache "\<lambda>_::unit. CheckDuplicateSeq" "\<lambda>_. RecordSequence"
    "\<lambda>p. p = Map.empty" "\<lambda>_ _ _. True" "\<lambda>_. True"
  by unfold_locales (auto simp: CheckDuplicateSeq_def RecordSequence_def Let_def split: option.splits)

section \<open>Properties\<close>

text \<open>A client that checks a message id, appends the message when it is unknown and records the offset
  appends every message exactly once however often it is retried, as long as all retries fall within the time to
  live, and every retry is answered with the offset of that one copy.\<close>

theorem idempotent_exactly_once:
  assumes "submit_all CheckDuplicate RecordMessage ms (NewIdempotentManager ttl) [] = (offs, m, log)"
    and "\<forall>(t, p, k) \<in> set ms. k \<noteq> []"
    and "\<forall>t \<in> fst ` set ms. \<forall>t' \<in> fst ` set ms. t' - t \<le> ttl"
  shows "distinct log \<and> set log = snd ` set ms
    \<and> list_all2 (\<lambda>msg off. 0 \<le> off \<and> nat off < length log \<and> log ! nat off = snd msg) ms offs"
  using msgids.submit_all_from_fresh [of "NewIdempotentManager ttl" ms offs m log] assms
  by (simp add: NewIdempotentManager_def)

theorem idempotent_exactly_once_witness:
  "submit_all CheckDuplicate RecordMessage [(0, 1, ''a''), (1, 1, ''b''), (2, 1, ''a'')] (NewIdempotentManager 10) []
     = ([0, 1, 0], RecordMessage 1 1 ''b'' 1 (RecordMessage 0 1 ''a'' 0 (NewIdempotentManager 10)), [(1, ''a''), (1, ''b'')])
   \<and> distinct [(1 :: int, ''a''), (1, ''b'')]"
proof -
  have run: "submit_all CheckDuplicate RecordMessage [(0, 1, ''a''), (1, 1, ''b''), (2, 1, ''a'')] (NewIdempotentManager 10) []
     = ([0, 1, 0], RecordMessage 1 1 ''b'' 1 (RecordMessage 0 1 ''a'' 0 (NewIdempotentManager 10)), [(1, ''a''), (1, ''b'')])"
    by (simp add: CheckDuplicate_def RecordMessage_def NewIdempotentManager_def)
  from idempotent_exactly_once [OF this] run show ?thesis by simp
qed

text \<open>The sequence-number table gives the same guarantee without any time limit.\<close>

theorem sequence_exactly_once:
  assumes "submit_all (\<lambda>_::unit. CheckDuplicateSeq) (\<lambda>_. RecordSequence) ms NewProducerStateManager [] = (offs, m, log)"
  shows "distinct log \<and> set log = snd ` set ms
    \<and> list_all2 (\<lambda>msg off. 0 \<le> off \<and> nat off < length log \<and> log ! nat off = snd msg) ms offs"
  using seqnums.submit_all_from_fresh [of NewProducerStateManager ms offs m log] assms
  by (auto simp: NewProducerStateManager_def)

theorem sequence_exactly_once_witness:
  "\<exists>m. submit_all (\<lambda>_::unit. CheckDuplicateSeq) (\<lambda>_. RecordSequence) [((), 1, 7), ((), 1, 7)] NewProducerStateManager []
     = ([0, 0], m, [(1, 7)]) \<and> distinct [(1 :: int, 7 :: int)]"
proof -
  have run: "submit_all (\<lambda>_::unit. CheckDuplicateSeq) (\<lambda>_. RecordSequence) [((), 1, 7), ((), 1, 7)] NewProducerStateManager []
     = ([0, 0], RecordSequence 1 7 0 NewProducerStateManager, [(1, 7)])"
    by (simp add: CheckDuplicateSeq_def RecordSequence_def NewProducerStateManager_def)
  from sequence_exactly_once [OF this] run show ?thesis by blast
qed

end
