(* ===== verification/Auth.thy ===== *)
theory Auth
  imports Wire_Request
begin

text \<open>
  Package \<^verbatim>\<open>internal/auth\<close>: roles, tokens and the handshake of a connection. The JWT library is a
  parameter: \<open>sign\<close> stands for \<^verbatim>\<open>Token.SignedString\<close> with HS256 and \<open>parse\<close> for \<^verbatim>\<open>jwt.ParseWithClaims\<close>. Times are in
  nanoseconds, the numeric dates of a token in seconds.
\<close>

section \<open>Roles\<close>

definition RoleAdmin :: string where "RoleAdmin = ''admin''"
definition RoleProducer :: string where "RoleProducer = ''producer''"
definition RoleConsumer :: string where "RoleConsumer = ''consumer''"

lemmas Role_defs = RoleAdmin_def RoleProducer_def RoleConsumer_def

definition CanProduce :: "string \<Rightarrow> bool" where
  "CanProduce role \<longleftrightarrow> role = RoleAdmin \<or> role = RoleProducer"

definition CanConsume :: "string \<Rightarrow> bool" where
  "CanConsume role \<longleftrightarrow> role = RoleAdmin \<or> role = RoleConsumer"

definition CanAdmin :: "string \<Rightarrow> bool" where
  "CanAdmin role \<longleftrightarrow> role = RoleAdmin"

section \<open>Tokens\<close>

record Claims =
  clUserID :: string
  clRole :: string
  clExpiresAt :: int
  clIssuedAt :: int

definition getSecret :: "string \<Rightarrow> bytes" where
  "getSecret env = (if env = [] then bytes_of ''default-secret-change-me'' else bytes_of env)"

definition numeric_date :: "int \<Rightarrow> int" where
  "numeric_date t = t div 10 ^ 9"

definition day :: int where
  "day = 24 * 3600 * 10 ^ 9"

definition GenerateJWT ::
  "(bytes \<Rightarrow> Claims \<Rightarrow> go_error + string) \<Rightarrow> string \<Rightarrow> int \<Rightarrow> string \<Rightarrow> string \<Rightarrow> go_error + string" where
  "GenerateJWT sign env now username role =
     sign (getSecret env)
       \<lparr>clUserID = username, clRole = role, clExpiresAt = numeric_date (now + day), clIssuedAt = numeric_date now\<rparr>"

text \<open>The key function handed to the library: only HMAC methods get the secret.\<close>

datatype signing_method = SigningMethodHMAC | OtherMethod string

fun keyFunc :: "string \<Rightarrow> signing_method \<Rightarrow> go_error + bytes" where
  "keyFunc env SigningMethodHMAC = Inr (getSecret env)"
| "keyFunc env (OtherMethod alg) = Inl (Err (''unexpected signing method: '' @ alg))"

text \<open>\<open>parse\<close> returns the claims and \<^verbatim>\<open>token.Valid\<close>.\<close>

definition ValidateJWT ::
  "(string \<Rightarrow> (signing_method \<Rightarrow> go_error + bytes) \<Rightarrow> go_error + Claims \<times> bool) \<Rightarrow> string \<Rightarrow> string \<Rightarrow> go_error + Claims" where
  "ValidateJWT parse env tokenString =
     (case parse tokenString (keyFunc env) of
        Inl e \<Rightarrow> Inl e
      | Inr (claims, valid) \<Rightarrow> if valid then Inr claims else Inl (Err ''invalid token''))"

section \<open>The handshake\<close>

definition credentials_role :: "string \<Rightarrow> string \<Rightarrow> string option" where
  "credentials_role username password =
     (if username = ''admin'' \<and> password = ''admin'' then Some RoleAdmin
      else if username = ''producer'' \<and> password = ''producer'' then Some RoleProducer
      else if username = ''consumer'' \<and> password = ''consumer'' then Some RoleConsumer
      else None)"

definition AuthenticateConnection ::
  "(bytes \<Rightarrow> Claims \<Rightarrow> go_error + string) \<Rightarrow> string \<Rightarrow> int \<Rightarrow> (string \<times> string) read_op" where
  "AuthenticateConnection sign env now r =
     (case ReadRequest r of
        (Inl e, r) \<Rightarrow> (Inl e, r)
      | (Inr req, r) \<Rightarrow>
          if rqType req \<noteq> ReqAuthenticate then (Inl (Err ''authentication required''), r)
          else case credentials_role (rqUsername req) (rqPassword req) of
              None \<Rightarrow> (Inl (Err ''invalid credentials''), r)
            | Some role \<Rightarrow>
                (case GenerateJWT sign env now (rqUsername req) role of
                   Inl e \<Rightarrow> (Inl e, r)
                 | Inr token \<Rightarrow> (Inr (role, token), r)))"

section \<open>Lemmas\<close>

lemma credentials_role_only:
  "credentials_role u p = Some role \<Longrightarrow> u = role \<and> p = role \<and> role \<in> {RoleAdmin, RoleProducer, RoleConsumer}"
  by (auto simp: credentials_role_def Role_defs split: if_splits)

lemma AuthenticateConnection_accepts:
  assumes "AuthenticateConnection sign env now r = (Inr (role, token), r')"
  obtains req where "ReadRequest r = (Inr req, r')" "rqType req = ReqAuthenticate"
    "credentials_role (rqUsername req) (rqPassword req) = Some role"
    "GenerateJWT sign env now (rqUsername req) role = Inr token"
  using assms by (auto simp: AuthenticateConnection_def split: prod.splits sum.splits if_splits option.splits)

text \<open>The first frame of a client, as \<^verbatim>\<open>WriteRequest\<close> sends it.\<close>

lemma AuthenticateConnection_frame:
  assumes "wf_request (wire_view req)"
  shows "\<exists>frame. WriteRequest buffer_write req [] = (None, frame)
    \<and> AuthenticateConnection sign env now (Reader (frame @ rest) e) =
      (if rqType req \<noteq> ReqAuthenticate then (Inl (Err ''authentication required''), Reader rest e)
       else case credentials_role (rqUsername (wire_view req)) (rqPassword (wire_view req)) of
           None \<Rightarrow> (Inl (Err ''invalid credentials''), Reader rest e)
         | Some role \<Rightarrow> (map_sum id (Pair role) (GenerateJWT sign env now (rqUsername (wire_view req)) role), Reader rest e))"
proof -
  have ty: "rqType (wire_view req) = rqType req" by (simp add: wire_view_def new_request_def Let_def)
  from WriteRequest_buffer [of req "[]"] ReadRequest_frame [OF assms, of rest e] obtain frame where
    "WriteRequest buffer_write req [] = (None, frame)"
    "ReadRequest (Reader (frame @ rest) e) = (Inr (wire_view req), Reader rest e)" by auto
  then show ?thesis
    by (auto simp: AuthenticateConnection_def ty split: option.split sum.split)
qed

end
