(* ===== verification/Go_Strings.thy ===== *)
theory Go_Strings
  imports Prelude
begin

text \<open>
  What the program uses of \<^verbatim>\<open>strconv\<close>, \<^verbatim>\<open>strings\<close>, \<^verbatim>\<open>fmt\<close> and \<^verbatim>\<open>path/filepath\<close>: decimal
  printing and parsing of integers, the last index of a byte, suffixes, and lexical cleaning and joining of paths
  (on Unix). A Go string is a list of bytes, that is of \<open>char\<close>.
\<close>

section \<open>Decimal integers\<close>

definition digit :: "nat \<Rightarrow> char" where
  "digit d = char_of (48 + d)"

definition digit_val :: "char \<Rightarrow> nat" where
  "digit_val c = of_char c - 48"

definition is_digit :: "char \<Rightarrow> bool" where
  "is_digit c \<longleftrightarrow> 48 \<le> (of_char c :: nat) \<and> (of_char c :: nat) \<le> 57"

fun decimal :: "nat \<Rightarrow> string" where
  "decimal n = (if n < 10 then [digit n] else decimal (n div 10) @ [digit (n mod 10)])"

declare decimal.simps [simp del]

definition digits_val :: "string \<Rightarrow> nat" where
  "digits_val s = foldl (\<lambda>n c. 10 * n + digit_val c) 0 s"

text \<open>\<^verbatim>\<open>%d\<close> and \<^verbatim>\<open>strconv.Itoa\<close>\<close>

definition itoa :: "int \<Rightarrow> string" where
  "itoa x = (if x < 0 then CHR ''-'' # decimal (nat (- x)) else decimal (nat x))"

text \<open>\<^verbatim>\<open>strconv.Atoi\<close>: an optional sign and at least one digit, nothing else, in the range of \<^verbatim>\<open>int\<close>.\<close>

definition unsigned_digits :: "string \<Rightarrow> int option" where
  "unsigned_digits s = (if s \<noteq> [] \<and> list_all is_digit s then Some (int (digits_val s)) else None)"

definition Atoi :: "string \<Rightarrow> int option" where
  "Atoi s =
     (case (case s of
              [] \<Rightarrow> None
            | c # cs \<Rightarrow> if c = CHR ''-'' then map_option uminus (unsigned_digits cs)
                        else if c = CHR ''+'' then unsigned_digits cs
                        else unsigned_digits s) of
        None \<Rightarrow> None
      | Some n \<Rightarrow> if in_int64 n then Some n else None)"

lemma digit_props:
  assumes "d < 10"
  shows "of_char (digit d) = (48 + d :: nat)" "is_digit (digit d)" "digit_val (digit d) = d"
  using assms by (simp_all add: digit_def is_digit_def digit_val_def of_char_of)

lemma decimal_props: "decimal n \<noteq> []" "list_all is_digit (decimal n)" "digits_val (decimal n) = n"
proof (induction n rule: decimal.induct)
  case (1 n)
  show "decimal n \<noteq> []" by (subst decimal.simps) simp
  show "list_all is_digit (decimal n)"
    using 1(2) by (subst decimal.simps) (simp add: digit_props)
  show "digits_val (decimal n) = n"
    using 1(3) by (subst decimal.simps) (simp add: digit_props digits_val_def)
qed

lemma is_digit_not_sign [simp]: "is_digit c \<Longrightarrow> c \<noteq> CHR ''-''" "is_digit c \<Longrightarrow> c \<noteq> CHR ''+''"
  "is_digit c \<Longrightarrow> c \<noteq> CHR ''/''" "is_digit c \<Longrightarrow> c \<noteq> CHR ''_''" "is_digit c \<Longrightarrow> c \<noteq> CHR ''.''"
  by (auto simp: is_digit_def)

lemma not_is_digit [simp]: "\<not> is_digit CHR ''-''" "\<not> is_digit CHR ''/''" "\<not> is_digit CHR ''_''"
  "\<not> is_digit CHR ''.''"
  by (simp_all add: is_digit_def)

lemma decimal_Cons: obtains c cs where "decimal n = c # cs" "is_digit c"
  using decimal_props(1,2) [of n] by (cases "decimal n") auto

lemma unsigned_digits_decimal [simp]: "unsigned_digits (decimal n) = Some (int n)"
  by (simp add: unsigned_digits_def decimal_props)

lemma Atoi_itoa [simp, codec_simps]:
  assumes "in_int64 x"
  shows "Atoi (itoa x) = Some x"
proof (cases "x < 0")
  case True
  then show ?thesis using assms by (simp add: Atoi_def itoa_def)
next
  case False
  obtain c cs where d: "decimal (nat x) = c # cs" "is_digit c" by (rule decimal_Cons)
  have "unsigned_digits (c # cs) = Some x"
    using False unsigned_digits_decimal [of "nat x"] by (simp add: d(1))
  then show ?thesis using assms False d by (simp add: Atoi_def itoa_def)
qed

lemma decimal_length: "n < 10 ^ Suc k \<Longrightarrow> length (decimal n) \<le> Suc k"
proof (induction k arbitrary: n)
  case 0
  then show ?case by (subst decimal.simps) simp
next
  case (Suc k)
  show ?case
  proof (cases "n < 10")
    case False
    have "length (decimal (n div 10)) \<le> Suc k" using Suc.prems by (intro Suc.IH) simp
    then show ?thesis using False by (subst decimal.simps) simp
  qed (subst decimal.simps, simp)
qed

lemma itoa_length: "in_int64 x \<Longrightarrow> length (itoa x) \<le> 20"
  using decimal_length [of "nat x" 18] decimal_length [of "nat (- x)" 18] by (auto simp: itoa_def in_int64_def nat_less_iff)

lemma itoa_inject [simp]: "itoa x = itoa y \<longleftrightarrow> x = y"
proof
  assume eq: "itoa x = itoa y"
  have val: "decimal m = decimal n \<Longrightarrow> m = n" for m n by (metis decimal_props(3))
  have neq: "decimal m \<noteq> CHR ''-'' # cs" for m cs
    using decimal_Cons [of m] by (metis is_digit_not_sign(1) list.inject)
  show "x = y"
    using eq neq neq [symmetric] by (cases "x < 0"; cases "y < 0") (auto simp: itoa_def dest: val)
qed simp

lemma itoa_chars: "c \<in> set (itoa x) \<Longrightarrow> is_digit c \<or> c = CHR ''-''"
  using decimal_props(2) by (auto simp: itoa_def list_all_iff split: if_splits)

lemma itoa_no_slash [simp]: "CHR ''/'' \<notin> set (itoa x)" "CHR ''_'' \<notin> set (itoa x)" "CHR ''.'' \<notin> set (itoa x)"
  by (auto dest!: itoa_chars)

lemma itoa_not_Nil [simp]: "itoa x \<noteq> []"
  by (simp add: itoa_def decimal_props)

section \<open>Searching\<close>

text \<open>\<^verbatim>\<open>strings.LastIndex\<close> for a single byte, \<^verbatim>\<open>strings.HasSuffix\<close> and \<^verbatim>\<open>strings.TrimSuffix\<close>\<close>

definition LastIndex :: "string \<Rightarrow> char \<Rightarrow> int" where
  "LastIndex s c =
     (if c \<in> set s then int (length s) - 1 - int (length (takeWhile (\<lambda>x. x \<noteq> c) (rev s))) else - 1)"

definition HasSuffix :: "string \<Rightarrow> string \<Rightarrow> bool" where
  "HasSuffix s t \<longleftrightarrow> length t \<le> length s \<and> drop (length s - length t) s = t"

definition TrimSuffix :: "string \<Rightarrow> string \<Rightarrow> string" where
  "TrimSuffix s t = (if HasSuffix s t then take (length s - length t) s else s)"

lemma LastIndex_append: "c \<notin> set t \<Longrightarrow> LastIndex (s @ c # t) c = int (length s)"
  by (simp add: LastIndex_def takeWhile_append)

lemma LastIndex_none: "LastIndex s c = - 1 \<longleftrightarrow> c \<notin> set s"
proof (cases "c \<in> set s")
  case True
  then obtain a b where "s = a @ c # b" "c \<notin> set b" by (meson split_list_last)
  then show ?thesis by (simp add: LastIndex_append)
qed (simp add: LastIndex_def)

section \<open>Paths\<close>

fun split_on :: "char \<Rightarrow> string \<Rightarrow> string list" where
  "split_on c [] = [[]]"
| "split_on c (x # xs) =
     (if x = c then [] # split_on c xs
      else case split_on c xs of [] \<Rightarrow> [[x]] | p # ps \<Rightarrow> (x # p) # ps)"

fun join_with :: "string \<Rightarrow> string list \<Rightarrow> string" where
  "join_with sep [] = []"
| "join_with sep [x] = x"
| "join_with sep (x # y # ys) = x @ sep @ join_with sep (y # ys)"

text \<open>\<^verbatim>\<open>filepath.Clean\<close>: drop empty and \<^verbatim>\<open>.\<close> elements, cancel \<^verbatim>\<open>..\<close> against the element before it,
  drop it at the root and keep it at the start of a relative path.\<close>

definition clean_elem :: "bool \<Rightarrow> string list \<Rightarrow> string \<Rightarrow> string list" where
  "clean_elem rooted out e =
     (if e = [] \<or> e = ''.'' then out
      else if e = ''..'' then
        (if out \<noteq> [] \<and> last out \<noteq> ''..'' then butlast out
         else if rooted then out else out @ [e])
      else out @ [e])"

definition rooted :: "string \<Rightarrow> bool" where
  "rooted path \<longleftrightarrow> (case path of [] \<Rightarrow> False | c # cs \<Rightarrow> c = CHR ''/'')"

definition clean_elems :: "bool \<Rightarrow> string list \<Rightarrow> string list" where
  "clean_elems r es = foldl (clean_elem r) [] es"

definition render :: "bool \<Rightarrow> string list \<Rightarrow> string" where
  "render r es = (if r then CHR ''/'' # join_with ''/'' es else if es = [] then ''.'' else join_with ''/'' es)"

definition Clean :: "string \<Rightarrow> string" where
  "Clean path = render (rooted path) (clean_elems (rooted path) (split_on CHR ''/'' path))"

text \<open>\<^verbatim>\<open>filepath.Join\<close>\<close>

definition Join :: "string list \<Rightarrow> string" where
  "Join elems = (case dropWhile (\<lambda>e. e = []) elems of [] \<Rightarrow> [] | es \<Rightarrow> Clean (join_with ''/'' es))"

definition plain :: "string \<Rightarrow> bool" where
  "plain e \<longleftrightarrow> e \<noteq> [] \<and> e \<noteq> ''.'' \<and> e \<noteq> ''..'' \<and> CHR ''/'' \<notin> set e"

lemma split_on_not_Nil [simp]: "split_on c s \<noteq> []"
  by (induction s) (auto split: list.splits)

lemma split_on_append: "split_on c (a @ c # b) = split_on c a @ split_on c b"
  by (induction a) (auto split: list.splits)

lemma split_on_plain: "c \<notin> set s \<Longrightarrow> split_on c s = [s]"
  by (induction s) auto

lemma split_on_no_sep: "e \<in> set (split_on c s) \<Longrightarrow> c \<notin> set e"
proof (induction s arbitrary: e)
  case (Cons x xs)
  obtain p ps where ps: "split_on c xs = p # ps" by (meson neq_Nil_conv split_on_not_Nil)
  with Cons.IH [of p] Cons.IH [of e] Cons.prems show ?case by (auto split: if_splits)
qed simp

lemma split_on_join:
  "es \<noteq> [] \<Longrightarrow> split_on c (join_with [c] es) = concat (map (split_on c) es)"
  by (induction "[c]" es rule: join_with.induct) (simp_all add: split_on_append)

lemma split_on_join_plain:
  assumes "es \<noteq> []" "\<forall>e \<in> set es. c \<notin> set e"
  shows "split_on c (join_with [c] es) = es"
proof -
  have "concat (map (split_on c) es) = es" using assms(2) by (induction es) (simp_all add: split_on_plain)
  then show ?thesis using assms(1) by (simp add: split_on_join)
qed

lemma clean_elems_plain:
  "list_all plain es \<Longrightarrow> foldl (clean_elem r) out es = out @ es"
  by (induction es arbitrary: out) (auto simp: clean_elem_def plain_def)

lemma clean_elem_subset: "set (clean_elem r out e) \<subseteq> insert e (set out)"
  by (auto simp: clean_elem_def dest: in_set_butlastD)

lemma clean_elems_subset: "set (foldl (clean_elem r) out es) \<subseteq> set out \<union> set es"
proof (induction es arbitrary: out)
  case (Cons e es)
  then show ?case using Cons.IH [of "clean_elem r out e"] clean_elem_subset [of r out e] by auto
qed simp

text \<open>Joining plain elements to a base directory is injective in the elements.\<close>

lemma Join_plain:
  assumes "base \<noteq> []" "list_all plain es" "es \<noteq> []"
  shows "Join (base # es)
    = render (rooted base) (clean_elems (rooted base) (split_on CHR ''/'' base) @ es)"
proof -
  have cat: "concat (map (split_on CHR ''/'') es) = es"
    using split_on_join_plain [of es "CHR ''/''"] split_on_join [of es "CHR ''/''"] assms
    by (simp add: list_all_iff plain_def)
  have "rooted (join_with ''/'' (base # es)) = rooted base"
    using assms by (cases es; cases base) (simp_all add: rooted_def)
  moreover have "split_on CHR ''/'' (join_with ''/'' (base # es)) = split_on CHR ''/'' base @ es"
    using split_on_join [of "base # es" "CHR ''/''"] by (simp add: cat)
  ultimately show ?thesis
    using assms by (simp add: Join_def Clean_def clean_elems_def clean_elems_plain)
qed

lemma Join_inject:
  assumes "base \<noteq> []" "list_all plain es" "list_all plain fs" "es \<noteq> []" "fs \<noteq> []"
  shows "Join (base # es) = Join (base # fs) \<longleftrightarrow> es = fs"
proof
  let ?b = "clean_elems (rooted base) (split_on CHR ''/'' base)"
  have no: "\<forall>e \<in> set (?b @ es). CHR ''/'' \<notin> set e" if "list_all plain es" for es
  proof -
    have "set ?b \<subseteq> set (split_on CHR ''/'' base)"
      unfolding clean_elems_def using clean_elems_subset [where out = "[]"] by simp
    then show ?thesis using that split_on_no_sep by (auto simp: plain_def list_all_iff)
  qed
  assume "Join (base # es) = Join (base # fs)"
  then have "join_with ''/'' (?b @ es) = join_with ''/'' (?b @ fs)"
    using assms by (auto simp: Join_plain render_def split: if_splits)
  then have "?b @ es = ?b @ fs"
    using assms(4,5) no [OF assms(2)] no [OF assms(3)] split_on_join_plain by (metis append_is_Nil_conv)
  then show "es = fs" by simp
qed simp

text \<open>Joining a plain name to a directory appends the name to a fixed prefix.\<close>

lemma Join_dir:
  assumes "base \<noteq> []"
  obtains pre where "\<forall>e. plain e \<longrightarrow> Join [base, e] = pre @ e"
proof -
  have snoc: "\<exists>pre. \<forall>e. join_with ''/'' (es @ [e]) = pre @ e" for es
  proof (induction es)
    case (Cons x es)
    then obtain pre where "\<forall>e. join_with ''/'' (es @ [e]) = pre @ e" by blast
    then show ?case by (intro exI [of _ "x @ ''/'' @ pre"]) (cases es; simp)
  qed simp
  let ?b = "clean_elems (rooted base) (split_on CHR ''/'' base)"
  obtain pre where pre: "\<forall>e. join_with ''/'' (?b @ [e]) = pre @ e" using snoc by blast
  show thesis
    by (rule that [of "if rooted base then CHR ''/'' # pre else pre"])
      (use pre assms in \<open>cases "rooted base"; simp add: Join_plain render_def\<close>)
qed

lemma HasSuffix_append [simp]: "HasSuffix (s @ t) t"
  by (simp add: HasSuffix_def)

lemma TrimSuffix_append [simp]: "TrimSuffix (s @ t) t = s"
  by (simp add: TrimSuffix_def)

end
