(* ===== verification/Go_Json.thy ===== *)
theory Go_Json
  imports Go_Strings "HOL-Library.List_Lexorder" "HOL-Library.Char_ord"
begin

text \<open>
  What the program uses of Go's \<^verbatim>\<open>encoding/json\<close>: the scanner (with its nesting limit of 10000), string
  unquoting and quoting at the level of bytes (UTF-8, escapes, surrogates, HTML escaping), decoding into
  \<^verbatim>\<open>map[string]interface{}\<close>, \<^verbatim>\<open>map[string]int\<close>, \<^verbatim>\<open>[]string\<close> and a struct with one
  \<^verbatim>\<open>int64\<close> field, and the encoders the program calls. The input is first cut into tokens and then parsed by a
  pushdown automaton that consumes one token per step, so that no fuel is needed. A decoder reads the first value and ignores
  what follows; \<^verbatim>\<open>Unmarshal\<close> demands the end of the input.
\<close>

datatype json = JNull | JBool bool | JNum string | JStr string | JArr "json list" | JObj "(string \<times> json) list"

section \<open>Strings\<close>

abbreviation code :: "char \<Rightarrow> nat" where "code c \<equiv> of_char c"

text \<open>The length of the UTF-8 sequence at the start of a string, or 0.\<close>

definition cont :: "nat \<Rightarrow> nat \<Rightarrow> char \<Rightarrow> bool" where
  "cont lo hi c \<longleftrightarrow> lo \<le> code c \<and> code c \<le> hi"

definition second_range :: "nat \<Rightarrow> nat \<times> nat" where
  "second_range b = (if b = 224 then (160, 191) else if b = 237 then (128, 159)
     else if b = 240 then (144, 191) else if b = 244 then (128, 143) else (128, 191))"

definition utf8_len :: "string \<Rightarrow> nat" where
  "utf8_len s =
     (case s of
        [] \<Rightarrow> 0
      | c # cs \<Rightarrow>
          let b = code c; (lo, hi) = second_range b in
          if b < 128 then 1
          else if 194 \<le> b \<and> b \<le> 223 then (case cs of c1 # _ \<Rightarrow> if cont lo hi c1 then 2 else 0 | _ \<Rightarrow> 0)
          else if 224 \<le> b \<and> b \<le> 239 then
            (case cs of c1 # c2 # _ \<Rightarrow> if cont lo hi c1 \<and> cont 128 191 c2 then 3 else 0 | _ \<Rightarrow> 0)
          else if 240 \<le> b \<and> b \<le> 244 then
            (case cs of c1 # c2 # c3 # _ \<Rightarrow>
               if cont lo hi c1 \<and> cont 128 191 c2 \<and> cont 128 191 c3 then 4 else 0 | _ \<Rightarrow> 0)
          else 0)"

text \<open>\<^verbatim>\<open>utf8.ValidString\<close>\<close>

function ValidString :: "string \<Rightarrow> bool" where
  "ValidString s =
     (if s = [] then True else if utf8_len s = 0 then False else ValidString (drop (utf8_len s) s))"
  by pat_completeness auto
termination by (relation "measure length") auto

declare ValidString.simps [simp del]

definition encode_rune :: "nat \<Rightarrow> string" where
  "encode_rune r =
     (if r < 128 then [char_of r]
      else if r < 2048 then [char_of (192 + r div 64), char_of (128 + r mod 64)]
      else if r < 65536 then
        [char_of (224 + r div 4096), char_of (128 + r div 64 mod 64), char_of (128 + r mod 64)]
      else [char_of (240 + r div 262144), char_of (128 + r div 4096 mod 64),
            char_of (128 + r div 64 mod 64), char_of (128 + r mod 64)])"

definition rune_error :: string where
  "rune_error = encode_rune 65533"

definition hex_val :: "char \<Rightarrow> nat option" where
  "hex_val c =
     (if is_digit c then Some (digit_val c)
      else if 97 \<le> code c \<and> code c \<le> 102 then Some (code c - 87)
      else if 65 \<le> code c \<and> code c \<le> 70 then Some (code c - 55)
      else None)"

definition hex_digit :: "nat \<Rightarrow> char" where
  "hex_digit n = (if n < 10 then digit n else char_of (87 + n))"

text \<open>Four hexadecimal digits.\<close>

definition hex4 :: "string \<Rightarrow> (nat \<times> string) option" where
  "hex4 s = (case s of
       a # b # c # d # rest \<Rightarrow>
         (case (hex_val a, hex_val b, hex_val c, hex_val d) of
            (Some a, Some b, Some c, Some d) \<Rightarrow> Some (((a * 16 + b) * 16 + c) * 16 + d, rest)
          | _ \<Rightarrow> None)
     | _ \<Rightarrow> None)"

definition unescape :: "char \<Rightarrow> char option" where
  "unescape c =
     (if c = CHR ''\"'' \<or> c = CHR 0x5C \<or> c = CHR ''/'' then Some c
      else if c = CHR ''b'' then Some (CHR 0x08)
      else if c = CHR ''f'' then Some (CHR 0x0C)
      else if c = CHR ''n'' then Some (CHR 0x0A)
      else if c = CHR ''r'' then Some (CHR 0x0D)
      else if c = CHR ''t'' then Some (CHR 0x09)
      else None)"

text \<open>After \<^verbatim>\<open>\u\<close> and its digits: a high surrogate takes a following low surrogate with it.\<close>

definition surrogate :: "nat \<Rightarrow> string \<Rightarrow> string \<times> string" where
  "surrogate r rest =
     (if 55296 \<le> r \<and> r < 57344 then
        (case rest of
           b # u # rest' \<Rightarrow>
             if b = CHR 0x5C \<and> u = CHR ''u'' then
               (case hex4 rest' of
                  Some (r2, rest2) \<Rightarrow>
                    if r < 56320 \<and> 56320 \<le> r2 \<and> r2 < 57344
                    then (encode_rune ((r - 55296) * 1024 + (r2 - 56320) + 65536), rest2)
                    else (rune_error, rest)
                | None \<Rightarrow> (rune_error, rest))
             else (rune_error, rest)
         | _ \<Rightarrow> (rune_error, rest))
      else (encode_rune r, rest))"

lemma hex4_length: "hex4 s = Some (r, rest) \<Longrightarrow> length rest < length s"
  by (auto simp: hex4_def split: list.splits option.splits)

lemma surrogate_length: "length (snd (surrogate r rest)) \<le> length rest"
  by (auto simp: surrogate_def split: list.splits option.splits dest: hex4_length)

text \<open>The body of a string literal, after the opening quote: its decoded value and the rest of the input.\<close>

function scan_str :: "string \<Rightarrow> (string \<times> string) option" where
  "scan_str s =
     (case s of
        [] \<Rightarrow> None
      | c # cs \<Rightarrow>
          if c = CHR ''\"'' then Some ([], cs)
          else if c = CHR 0x5C then
            (case cs of
               [] \<Rightarrow> None
             | e # rest \<Rightarrow>
                 if e = CHR ''u'' then
                   (case hex4 rest of
                      None \<Rightarrow> None
                    | Some (r, rest) \<Rightarrow>
                        map_option (apfst ((@) (fst (surrogate r rest)))) (scan_str (snd (surrogate r rest))))
                 else (case unescape e of
                      None \<Rightarrow> None
                    | Some ch \<Rightarrow> map_option (apfst ((#) ch)) (scan_str rest)))
          else if code c < 32 then None
          else let k = utf8_len s in
            if k = 0 then map_option (apfst ((@) rune_error)) (scan_str cs)
            else map_option (apfst ((@) (take k s))) (scan_str (drop k s)))"
  by pat_completeness auto
termination
  by (relation "measure length") (auto dest!: hex4_length intro: le_less_trans [OF surrogate_length])

declare scan_str.simps [simp del]

lemma scan_str_length: "scan_str s = Some (v, rest) \<Longrightarrow> length rest < length s"
proof (induction s arbitrary: v rest rule: scan_str.induct)
  case (1 s)
  from 1(5) obtain c cs where s: "s = c # cs"
    by (subst (asm) scan_str.simps) (auto split: list.splits)
  note IH = 1(1-4) [OF s]
  consider (quote) "c = CHR ''\"''" | (esc) "c = CHR 0x5C" | (raw) "c \<noteq> CHR ''\"''" "c \<noteq> CHR 0x5C" by blast
  then show ?case
  proof cases
    case quote
    then show ?thesis using 1(5) by (subst (asm) scan_str.simps) (simp add: s)
  next
    case esc
    with 1(5) obtain e rest' where cs: "cs = e # rest'"
      by (subst (asm) scan_str.simps) (auto simp: s split: list.splits)
    show ?thesis
    proof (cases "e = CHR ''u''")
      case True
      with 1(5) esc obtain r r' v' where h: "hex4 rest' = Some (r, r')"
          "scan_str (snd (surrogate r r')) = Some (v', rest)"
        by (subst (asm) scan_str.simps) (auto simp: s cs split: option.splits)
      then have "length rest < length (snd (surrogate r r'))" using IH(1) esc cs True by simp
      then show ?thesis using surrogate_length [of r r'] hex4_length [OF h(1)] by (simp add: s cs)
    next
      case False
      with 1(5) esc obtain ch v' where h: "unescape e = Some ch" "scan_str rest' = Some (v', rest)"
        by (subst (asm) scan_str.simps) (auto simp: s cs split: option.splits)
      then have "length rest < length rest'" using IH(2) esc cs False by simp
      then show ?thesis by (simp add: s cs)
    qed
  next
    case raw
    with 1(5) have c: "\<not> code c < 32" by (subst (asm) scan_str.simps) (auto simp: s)
    show ?thesis
    proof (cases "utf8_len s = 0")
      case True
      with 1(5) raw c obtain v' where "scan_str cs = Some (v', rest)"
        by (subst (asm) scan_str.simps) (auto simp: s)
      then show ?thesis using IH(3) raw c True s by fastforce
    next
      case False
      with raw c have "scan_str s = map_option (apfst ((@) (take (utf8_len s) s))) (scan_str (drop (utf8_len s) s))"
        by (subst scan_str.simps) (simp add: s Let_def)
      with 1(5) obtain v' where "scan_str (drop (utf8_len s) s) = Some (v', rest)" by auto
      then have "length rest < length (drop (utf8_len s) s)" using IH(4) raw c False by blast
      then show ?thesis by simp
    qed
  qed
qed


section \<open>Numbers\<close>

abbreviation digits :: "string \<Rightarrow> string" where "digits s \<equiv> takeWhile is_digit s"
abbreviation after_digits :: "string \<Rightarrow> string" where "after_digits s \<equiv> dropWhile is_digit s"

text \<open>The optional fraction and exponent of a number; \<open>None\<close> when they start but have no digits.\<close>

definition scan_frac :: "string \<Rightarrow> (string \<times> string) option" where
  "scan_frac s = (case s of
       c # cs \<Rightarrow> if c = CHR ''.'' then
           (if digits cs = [] then None else Some (c # digits cs, after_digits cs))
         else Some ([], s)
     | [] \<Rightarrow> Some ([], s))"

definition scan_exp :: "string \<Rightarrow> (string \<times> string) option" where
  "scan_exp s = (case s of
       c # cs \<Rightarrow> if c = CHR ''e'' \<or> c = CHR ''E'' then
           (let (sign, ds) = (case cs of
                  d # ds \<Rightarrow> if d = CHR ''+'' \<or> d = CHR ''-'' then ([d], ds) else ([], cs)
                | [] \<Rightarrow> ([], cs))
            in if digits ds = [] then None else Some (c # sign @ digits ds, after_digits ds))
         else Some ([], s)
     | [] \<Rightarrow> Some ([], s))"

definition scan_int :: "string \<Rightarrow> (string \<times> string) option" where
  "scan_int s = (case s of
       c # cs \<Rightarrow> if c = CHR ''0'' then Some ([c], cs)
         else if is_digit c then Some (digits s, after_digits s) else None
     | [] \<Rightarrow> None)"

definition scan_num :: "string \<Rightarrow> (string \<times> string) option" where
  "scan_num s =
     (let (sign, body) = (case s of c # cs \<Rightarrow> if c = CHR ''-'' then ([c], cs) else ([], s) | [] \<Rightarrow> ([], s)) in
      case scan_int body of None \<Rightarrow> None | Some (i, s1) \<Rightarrow>
      (case scan_frac s1 of None \<Rightarrow> None | Some (f, s2) \<Rightarrow>
      (case scan_exp s2 of None \<Rightarrow> None | Some (e, s3) \<Rightarrow> Some (sign @ i @ f @ e, s3))))"

lemma length_after_digits: "length (after_digits s) \<le> length s"
  by (simp add: length_dropWhile_le)

lemma scan_int_length: "scan_int s = Some (v, rest) \<Longrightarrow> length rest < length s"
  using length_after_digits by (auto simp: scan_int_def le_imp_less_Suc split: list.splits if_splits)

lemma scan_frac_length: "scan_frac s = Some (v, rest) \<Longrightarrow> length rest \<le> length s"
  using length_after_digits by (auto simp: scan_frac_def le_SucI split: list.splits if_splits)

lemma scan_exp_length: "scan_exp s = Some (v, rest) \<Longrightarrow> length rest \<le> length s"
  using length_after_digits by (auto simp: scan_exp_def le_SucI split: list.splits if_splits)

lemma scan_num_length: "scan_num s = Some (v, rest) \<Longrightarrow> length rest < length s"
  unfolding scan_num_def
  by (auto simp: Let_def split: list.splits if_splits option.splits
      dest!: scan_int_length scan_frac_length scan_exp_length)

text \<open>A literal whose value rounds to infinity is an error when it is decoded as a \<^verbatim>\<open>float64\<close>.\<close>

definition float64_limit :: nat where
  "float64_limit = 2 ^ 1024 - 2 ^ 970"

definition float64_overflow :: "string \<Rightarrow> bool" where
  "float64_overflow lit =
     (let s = (case lit of c # cs \<Rightarrow> if c = CHR ''-'' then cs else lit | [] \<Rightarrow> lit);
          i = digits s; s1 = after_digits s;
          (f, s2) = (case s1 of c # cs \<Rightarrow> if c = CHR ''.'' then (digits cs, after_digits cs) else ([], s1) | [] \<Rightarrow> ([], s1));
          e = (case s2 of [] \<Rightarrow> 0 | _ # ds \<Rightarrow> (case ds of
                 c # cs \<Rightarrow> if c = CHR ''-'' then - int (digits_val cs)
                            else if c = CHR ''+'' then int (digits_val cs) else int (digits_val ds)
               | [] \<Rightarrow> 0));
          m = digits_val (i @ f); e = e - int (length f)
      in if e \<ge> 0 then m * 10 ^ nat e \<ge> float64_limit else m \<ge> float64_limit * 10 ^ nat (- e))"

section \<open>Tokens\<close>

datatype tok = LBrace | RBrace | LBrack | RBrack | Colon | Comma | TStr string | TNum string
  | TTrue | TFalse | TNull | TBad

definition space :: "char \<Rightarrow> bool" where
  "space c \<longleftrightarrow> c = CHR '' '' \<or> c = CHR 0x09 \<or> c = CHR 0x0A \<or> c = CHR 0x0D"

function tokens :: "string \<Rightarrow> tok list" where
  "tokens s =
     (case s of
        [] \<Rightarrow> []
      | c # cs \<Rightarrow>
          if space c then tokens cs
          else if c = CHR ''{'' then LBrace # tokens cs
          else if c = CHR ''}'' then RBrace # tokens cs
          else if c = CHR ''['' then LBrack # tokens cs
          else if c = CHR '']'' then RBrack # tokens cs
          else if c = CHR '':'' then Colon # tokens cs
          else if c = CHR '','' then Comma # tokens cs
          else if c = CHR ''\"'' then
            (case scan_str cs of Some (v, rest) \<Rightarrow> TStr v # tokens rest | None \<Rightarrow> [TBad])
          else if take 4 s = ''true'' then TTrue # tokens (drop 4 s)
          else if take 5 s = ''false'' then TFalse # tokens (drop 5 s)
          else if take 4 s = ''null'' then TNull # tokens (drop 4 s)
          else (case scan_num s of Some (v, rest) \<Rightarrow> TNum v # tokens rest | None \<Rightarrow> [TBad]))"
  by pat_completeness auto
termination
proof (relation "measure length")
  fix s c cs x v rest
  assume "s = c # cs" "scan_str cs = Some x" "(v, rest) = x"
  then show "(rest, s) \<in> measure length" using scan_str_length [of cs v rest] by simp
next
  fix s c cs x v rest
  assume "s = c # cs" "scan_num s = Some x" "(v, rest) = x"
  then show "(rest, s) \<in> measure length" using scan_num_length [of s v rest] by simp
qed auto

declare tokens.simps [simp del]


section \<open>The parser\<close>

text \<open>The stack holds the arrays and objects being read; \<open>OKey\<close> has read a key and waits for its value.\<close>

datatype frame = AFrame "json list" | OFrame "(string \<times> json) list" | OKey "(string \<times> json) list" string

datatype pmode = MVal | MValOrEnd | MKey | MKeyOrEnd | MColon | MAfter

datatype presult = PFail | PDone json | PGo pmode "frame list"

fun emit :: "json \<Rightarrow> frame list \<Rightarrow> presult" where
  "emit v [] = PDone v"
| "emit v (AFrame vs # st) = PGo MAfter (AFrame (vs @ [v]) # st)"
| "emit v (OKey kvs k # st) = PGo MAfter (OFrame (kvs @ [(k, v)]) # st)"
| "emit v (OFrame kvs # st) = PFail"

definition max_depth :: nat where
  "max_depth = 10000"

definition open_frame :: "pmode \<Rightarrow> frame \<Rightarrow> frame list \<Rightarrow> presult" where
  "open_frame m f st = (if length st < max_depth then PGo m (f # st) else PFail)"

fun pvalue :: "frame list \<Rightarrow> tok \<Rightarrow> presult" where
  "pvalue st TNull = emit JNull st"
| "pvalue st TTrue = emit (JBool True) st"
| "pvalue st TFalse = emit (JBool False) st"
| "pvalue st (TNum n) = emit (JNum n) st"
| "pvalue st (TStr x) = emit (JStr x) st"
| "pvalue st LBrace = open_frame MKeyOrEnd (OFrame []) st"
| "pvalue st LBrack = open_frame MValOrEnd (AFrame []) st"
| "pvalue st _ = PFail"

fun pkey :: "frame list \<Rightarrow> tok \<Rightarrow> presult" where
  "pkey (OFrame kvs # st) (TStr k) = PGo MColon (OKey kvs k # st)"
| "pkey _ _ = PFail"

fun pstep :: "pmode \<Rightarrow> frame list \<Rightarrow> tok \<Rightarrow> presult" where
  "pstep MVal st t = pvalue st t"
| "pstep MValOrEnd st t = (case (t, st) of
     (RBrack, AFrame vs # st') \<Rightarrow> emit (JArr vs) st' | _ \<Rightarrow> pvalue st t)"
| "pstep MKey st t = pkey st t"
| "pstep MKeyOrEnd st t = (case (t, st) of
     (RBrace, OFrame kvs # st') \<Rightarrow> emit (JObj kvs) st' | _ \<Rightarrow> pkey st t)"
| "pstep MColon st t = (if t = Colon then PGo MVal st else PFail)"
| "pstep MAfter st t = (case (t, st) of
     (Comma, AFrame vs # st') \<Rightarrow> PGo MVal st
   | (Comma, OFrame kvs # st') \<Rightarrow> PGo MKey st
   | (RBrack, AFrame vs # st') \<Rightarrow> emit (JArr vs) st'
   | (RBrace, OFrame kvs # st') \<Rightarrow> emit (JObj kvs) st'
   | _ \<Rightarrow> PFail)"

fun parse :: "pmode \<Rightarrow> frame list \<Rightarrow> tok list \<Rightarrow> (json \<times> tok list) option" where
  "parse m st [] = None"
| "parse m st (t # ts) = (case pstep m st t of
     PFail \<Rightarrow> None | PDone v \<Rightarrow> Some (v, ts) | PGo m' st' \<Rightarrow> parse m' st' ts)"

text \<open>The first value of a stream, and a whole input.\<close>

definition json_first :: "string \<Rightarrow> json option" where
  "json_first s = map_option fst (parse MVal [] (tokens s))"

definition json_whole :: "string \<Rightarrow> json option" where
  "json_whole s = (case parse MVal [] (tokens s) of Some (v, []) \<Rightarrow> Some v | _ \<Rightarrow> None)"

section \<open>Decoding into Go types\<close>

text \<open>\<^verbatim>\<open>map[string]interface{}\<close>: \<open>None\<close> is an error; a nil map behaves as an empty one when it is read. A number that
  does not fit a \<^verbatim>\<open>float64\<close> anywhere in the value is an error.\<close>

fun numbers_fit :: "json \<Rightarrow> bool" where
  "numbers_fit (JNum n) \<longleftrightarrow> \<not> float64_overflow n"
| "numbers_fit (JArr vs) \<longleftrightarrow> list_all numbers_fit vs"
| "numbers_fit (JObj kvs) \<longleftrightarrow> list_all (\<lambda>(k, v). numbers_fit v) kvs"
| "numbers_fit _ \<longleftrightarrow> True"

definition unmarshal_object :: "string \<Rightarrow> (string \<times> json) list option" where
  "unmarshal_object s =
     (case json_whole s of
        Some (JObj kvs) \<Rightarrow> if numbers_fit (JObj kvs) then Some kvs else None
      | Some JNull \<Rightarrow> Some []
      | _ \<Rightarrow> None)"

text \<open>Later duplicates of a key win.\<close>

definition obj_get :: "(string \<times> json) list \<Rightarrow> string \<Rightarrow> json option" where
  "obj_get kvs k = map_of (rev kvs) k"

text \<open>An \<^verbatim>\<open>int\<close> or \<^verbatim>\<open>int64\<close> target: \<open>None\<close> leaves the target alone and is an error except for
  \<^verbatim>\<open>null\<close>.\<close>

fun int_of_json :: "json \<Rightarrow> int option" where
  "int_of_json (JNum n) = Atoi n"
| "int_of_json _ = None"

text \<open>\<^verbatim>\<open>[]string\<close>, as \<^verbatim>\<open>Unmarshal\<close>; a \<^verbatim>\<open>null\<close> element is the empty string.\<close>

fun string_of_json :: "json \<Rightarrow> string option" where
  "string_of_json (JStr x) = Some x"
| "string_of_json JNull = Some []"
| "string_of_json _ = None"

definition unmarshal_strings :: "string \<Rightarrow> string list option" where
  "unmarshal_strings s =
     (case json_whole s of
        Some (JArr vs) \<Rightarrow> those (map string_of_json vs)
      | Some JNull \<Rightarrow> Some []
      | _ \<Rightarrow> None)"

section \<open>Encoding\<close>

definition escape_hex :: "char \<Rightarrow> string" where
  "escape_hex c = [CHR 0x5C, CHR ''u'', CHR ''0'', CHR ''0'', hex_digit (code c div 16), hex_digit (code c mod 16)]"

function quote_body :: "string \<Rightarrow> string" where
  "quote_body s =
     (case s of
        [] \<Rightarrow> []
      | c # cs \<Rightarrow>
          if c = CHR ''\"'' \<or> c = CHR 0x5C then CHR 0x5C # c # quote_body cs
          else if c = CHR 0x0A then CHR 0x5C # CHR ''n'' # quote_body cs
          else if c = CHR 0x0D then CHR 0x5C # CHR ''r'' # quote_body cs
          else if c = CHR 0x09 then CHR 0x5C # CHR ''t'' # quote_body cs
          else if code c < 32 \<or> c = CHR ''<'' \<or> c = CHR ''>'' \<or> c = CHR ''&'' then escape_hex c @ quote_body cs
          else if code c < 128 then c # quote_body cs
          else let k = utf8_len s in
            if k = 0 then CHR 0x5C # ''ufffd'' @ quote_body cs
            else if take k s = encode_rune 8232 then CHR 0x5C # ''u2028'' @ quote_body (drop k s)
            else if take k s = encode_rune 8233 then CHR 0x5C # ''u2029'' @ quote_body (drop k s)
            else take k s @ quote_body (drop k s))"
  by pat_completeness auto
termination by (relation "measure length") auto

declare quote_body.simps [simp del]

definition quote :: "string \<Rightarrow> string" where
  "quote s = CHR ''\"'' # quote_body s @ ''\"''"

text \<open>\<^verbatim>\<open>map[string]int\<close> with its keys in sorted order, \<^verbatim>\<open>[]string\<close>, and the struct with the field
  \<^verbatim>\<open>offset\<close>; an \<^verbatim>\<open>Encoder\<close> adds a newline.\<close>

definition enc_object :: "(string \<times> string) list \<Rightarrow> string" where
  "enc_object kvs = CHR ''{'' # join_with '','' (map (\<lambda>(k, v). quote k @ CHR '':'' # v) kvs) @ ''}''"

definition enc_strings :: "string list \<Rightarrow> string" where
  "enc_strings xs = CHR ''['' # join_with '','' (map quote xs) @ '']''"


section \<open>Decoding what was encoded\<close>

definition ascii :: "string \<Rightarrow> bool" where
  "ascii s \<longleftrightarrow> list_all (\<lambda>c. code c < 128) s"

lemma append_one: "(@) [c] = (#) c"
  by (simp add: fun_eq_iff)

lemma hex_val_digit: "n < 16 \<Longrightarrow> hex_val (hex_digit n) = Some n"
  by (auto simp: hex_val_def hex_digit_def digit_props is_digit_def of_char_of)

lemma hex4_escape:
  assumes "code c < 128"
  shows "hex4 (CHR ''0'' # CHR ''0'' # hex_digit (code c div 16) # hex_digit (code c mod 16) # rest)
    = Some (code c, rest)"
proof -
  have "hex_val CHR ''0'' = Some 0" by (simp add: hex_val_def is_digit_def digit_val_def)
  then show ?thesis using assms by (simp add: hex4_def hex_val_digit)
qed

lemma scan_str_escape_hex:
  assumes "code c < 128"
  shows "scan_str (escape_hex c @ rest) = map_option (apfst ((#) c)) (scan_str rest)"
proof -
  have "surrogate (code c) rest = ([c], rest)" using assms by (simp add: surrogate_def encode_rune_def)
  then show ?thesis
    by (subst scan_str.simps) (simp add: escape_hex_def hex4_escape [OF assms] append_one)
qed

lemma scan_str_escape:
  assumes "unescape e = Some c"
  shows "scan_str (CHR 0x5C # e # rest) = map_option (apfst ((#) c)) (scan_str rest)"
proof -
  have "e \<noteq> CHR ''u''" using assms by (auto simp: unescape_def)
  then show ?thesis using assms by (subst scan_str.simps) simp
qed

lemma scan_str_plain:
  assumes "c \<noteq> CHR ''\"''" "c \<noteq> CHR 0x5C" "32 \<le> code c" "code c < 128"
  shows "scan_str (c # rest) = map_option (apfst ((#) c)) (scan_str rest)"
proof -
  have "utf8_len (c # rest) = 1" using assms(4) by (simp add: utf8_len_def Let_def split: prod.split)
  then show ?thesis using assms by (subst scan_str.simps) (simp add: append_one)
qed

lemma scan_str_quote [codec_simps]:
  "ascii s \<Longrightarrow> scan_str (quote_body s @ CHR ''\"'' # rest) = Some (s, rest)"
proof (induction s)
  case Nil
  show ?case by (simp add: quote_body.simps scan_str.simps)
next
  case (Cons c s)
  let ?go = "map_option (apfst ((#) c)) (scan_str (quote_body s @ CHR ''\"'' # rest))"
  have c: "code c < 128" and IH: "?go = Some (c # s, rest)" using Cons by (simp_all add: ascii_def)
  consider e where "quote_body (c # s) = CHR 0x5C # e # quote_body s" "unescape e = Some c"
    | "quote_body (c # s) = escape_hex c @ quote_body s"
    | "quote_body (c # s) = c # quote_body s" "c \<noteq> CHR ''\"''" "c \<noteq> CHR 0x5C" "32 \<le> code c"
    using c quote_body.simps [of "c # s"] by (auto simp: unescape_def split: if_splits)
  then show ?case
  proof cases
    case (1 e)
    then show ?thesis using scan_str_escape [OF 1(2)] IH by simp
  next
    case 2
    then show ?thesis using scan_str_escape_hex [OF c] IH by simp
  next
    case 3
    then show ?thesis using scan_str_plain [OF 3(2-4) c] IH by simp
  qed
qed

lemma tokens_quote:
  assumes "ascii s"
  shows "tokens (quote s @ rest) = TStr s # tokens rest"
  using assms by (subst tokens.simps) (simp add: quote_def space_def scan_str_quote)


definition delim :: "char \<Rightarrow> bool" where
  "delim c \<longleftrightarrow> c = CHR '','' \<or> c = CHR ''}'' \<or> c = CHR '']''"

lemma decimal_hd: "0 < n \<Longrightarrow> hd (decimal n) \<noteq> CHR ''0''"
proof (induction n rule: decimal.induct)
  case (1 n)
  show ?case
  proof (cases "n < 10")
    case True
    have "digit n = CHR ''0'' \<Longrightarrow> n = 0" using digit_props(3) [OF True] by (simp add: digit_val_def)
    then show ?thesis using True 1(2) by (subst decimal.simps) auto
  next
    case False
    then show ?thesis using 1(1) decimal_props(1) [of "n div 10"] by (subst decimal.simps) simp
  qed
qed

lemma scan_int_decimal:
  assumes "delim c"
  shows "scan_int (decimal n @ c # rest) = Some (decimal n, c # rest)"
proof (cases "n = 0")
  case True
  have "decimal 0 = ''0''" by code_simp
  then show ?thesis by (simp add: True scan_int_def)
next
  case False
  obtain d ds where d: "decimal n = d # ds" "is_digit d" by (rule decimal_Cons)
  have nd: "\<not> is_digit c" using assms by (auto simp: delim_def is_digit_def)
  have all: "\<forall>x \<in> set (decimal n). is_digit x" using decimal_props(2) by (simp add: list_all_iff)
  have "d \<noteq> CHR ''0''" using decimal_hd [of n] False by (simp add: d)
  then show ?thesis
    using takeWhile_append2 [of "decimal n" is_digit "c # rest"] dropWhile_append2 [of "decimal n" is_digit "c # rest"]
      all nd d by (simp add: scan_int_def)
qed

lemma scan_num_itoa:
  assumes "delim c"
  shows "scan_num (itoa n @ c # rest) = Some (itoa n, c # rest)"
proof -
  have tail: "scan_frac (c # rest) = Some ([], c # rest)" "scan_exp (c # rest) = Some ([], c # rest)"
    using assms by (auto simp: scan_frac_def scan_exp_def delim_def)
  obtain d ds where d: "decimal (nat n) = d # ds" "is_digit d" by (rule decimal_Cons)
  show ?thesis
    using d tail scan_int_decimal [OF assms, of "nat n"] scan_int_decimal [OF assms, of "nat (- n)"]
    by (auto simp: scan_num_def itoa_def)
qed

lemma tokens_itoa:
  assumes "delim c"
  shows "tokens (itoa n @ c # rest) = TNum (itoa n) # tokens (c # rest)"
proof -
  obtain d ds where i: "itoa n = d # ds" by (cases "itoa n") auto
  then have "is_digit d \<or> d = CHR ''-''" using itoa_chars [of d n] by simp
  then have "\<not> space d" "d \<notin> set ''{}[]:,\"tfn''" by (auto simp: space_def is_digit_def)
  then show ?thesis
    using scan_num_itoa [OF assms, of n rest] by (subst tokens.simps) (auto simp: i)
qed

lemma tokens_punct:
  "tokens (CHR ''{'' # s) = LBrace # tokens s" "tokens (CHR ''}'' # s) = RBrace # tokens s"
  "tokens (CHR ''['' # s) = LBrack # tokens s" "tokens (CHR '']'' # s) = RBrack # tokens s"
  "tokens (CHR '':'' # s) = Colon # tokens s" "tokens (CHR '','' # s) = Comma # tokens s"
  "tokens (CHR 0x0A # s) = tokens s" "tokens [] = []"
  by (subst tokens.simps; simp add: space_def)+

lemmas encoded_tokens = tokens_punct tokens_quote tokens_itoa


text \<open>Objects with integer members and arrays of strings.\<close>

fun member_toks :: "(string \<times> string) list \<Rightarrow> tok list" where
  "member_toks [] = [RBrace]"
| "member_toks [(k, n)] = [TStr k, Colon, TNum n, RBrace]"
| "member_toks ((k, n) # x # xs) = TStr k # Colon # TNum n # Comma # member_toks (x # xs)"

lemma tokens_members:
  assumes "list_all (\<lambda>(k, n). ascii k) kvs"
  shows "tokens (join_with '','' (map (\<lambda>(k, v). quote k @ CHR '':'' # v) (map (\<lambda>(k, n). (k, itoa n)) kvs)) @ CHR ''}'' # rest)
    = member_toks (map (\<lambda>(k, n). (k, itoa n)) kvs) @ tokens rest"
  using assms
proof (induction kvs rule: induct_list012)
  case (3 x y zs)
  then show ?case by (cases x; cases y) (simp add: encoded_tokens delim_def)
qed (auto simp: encoded_tokens delim_def)

lemma parse_members:
  "kvs \<noteq> [] \<Longrightarrow> parse MKey [OFrame kvs0] (member_toks kvs @ ts) = Some (JObj (kvs0 @ map (\<lambda>(k, n). (k, JNum n)) kvs), ts)"
  by (induction kvs arbitrary: kvs0 rule: member_toks.induct) simp_all

theorem json_first_ints [codec_simps]:
  assumes "list_all (\<lambda>(k, n). ascii k) kvs"
  shows "json_first (enc_object (map (\<lambda>(k, n). (k, itoa n)) kvs) @ rest)
    = Some (JObj (map (\<lambda>(k, n). (k, JNum (itoa n))) kvs))"
proof -
  let ?ts = "member_toks (map (\<lambda>(k, n). (k, itoa n)) kvs) @ tokens rest"
  have "tokens (enc_object (map (\<lambda>(k, n). (k, itoa n)) kvs) @ rest) = LBrace # ?ts"
    using tokens_members [OF assms] by (simp add: enc_object_def tokens_punct)
  moreover have "parse MKeyOrEnd [OFrame []] ?ts
      = Some (JObj (map (\<lambda>(k, n). (k, JNum (itoa n))) kvs), tokens rest)"
  proof (cases kvs)
    case (Cons x xs)
    have "parse MKeyOrEnd [OFrame []] ?ts = parse MKey [OFrame []] ?ts"
      using Cons by (cases x; cases xs) auto
    then show ?thesis using parse_members [of "map (\<lambda>(k, n). (k, itoa n)) kvs" "[]"] Cons
      by (simp add: comp_def case_prod_unfold)
  qed simp
  ultimately show ?thesis by (simp add: json_first_def open_frame_def max_depth_def)
qed

fun elem_toks :: "string list \<Rightarrow> tok list" where
  "elem_toks [] = [RBrack]"
| "elem_toks [x] = [TStr x, RBrack]"
| "elem_toks (x # y # ys) = TStr x # Comma # elem_toks (y # ys)"

lemma tokens_elems:
  assumes "list_all ascii xs"
  shows "tokens (join_with '','' (map quote xs) @ CHR '']'' # rest) = elem_toks xs @ tokens rest"
  using assms by (induction xs rule: induct_list012) (simp_all add: encoded_tokens)

lemma parse_elems:
  "xs \<noteq> [] \<Longrightarrow> parse MVal [AFrame vs] (elem_toks xs @ ts) = Some (JArr (vs @ map JStr xs), ts)"
  by (induction xs arbitrary: vs rule: elem_toks.induct) simp_all

theorem unmarshal_strings_enc [codec_simps]:
  assumes "list_all ascii xs"
  shows "unmarshal_strings (enc_strings xs) = Some xs"
proof -
  have "tokens (enc_strings xs) = LBrack # elem_toks xs"
    using tokens_elems [OF assms, of "[]"] by (simp add: enc_strings_def tokens_punct)
  moreover have "parse MValOrEnd [AFrame []] (elem_toks xs) = Some (JArr (map JStr xs), [])"
  proof (cases xs)
    case (Cons x ys)
    have "parse MValOrEnd [AFrame []] (elem_toks xs) = parse MVal [AFrame []] (elem_toks xs)"
      using Cons by (cases ys) auto
    then show ?thesis using parse_elems [of xs "[]" "[]"] Cons by simp
  qed simp
  moreover have "those (map string_of_json (map JStr xs)) = Some xs" by (induction xs) simp_all
  ultimately show ?thesis
    by (simp add: unmarshal_strings_def json_whole_def open_frame_def max_depth_def)
qed

end
