(* ===== verification/Offset_Store.thy ===== *)
theory Offset_Store
  imports Go_Json
begin

text \<open>
  \<^verbatim>\<open>internal/consumer/offset_manager.go\<close>: committed offsets, one small JSON file per group, topic and
  partition. The disk maps paths to contents; directories are not represented. What can fail is an argument: \<open>None\<close> when the
  call succeeds. \<open>jerr\<close> is the text of the error with which the JSON decoder rejects an input.
\<close>

section \<open>A keyed store\<close>

text \<open>The contract of a store of registers: a put changes the register it names and no other.\<close>

locale registers =
  fixes put :: "'k \<Rightarrow> 'v \<Rightarrow> 's \<Rightarrow> 's" and get :: "'k \<Rightarrow> 's \<Rightarrow> 'r"
    and res :: "'v \<Rightarrow> 'r" and ok :: "'k \<Rightarrow> bool" and okv :: "'v \<Rightarrow> bool"
  assumes get_put: "ok k \<Longrightarrow> okv v \<Longrightarrow> get k (put k v s) = res v"
    and get_put_other: "ok k \<Longrightarrow> ok k' \<Longrightarrow> k' \<noteq> k \<Longrightarrow> get k' (put k v s) = get k' s"
begin

lemma get_after_puts:
  assumes "ok k" "list_all (\<lambda>(k, v). ok k \<and> okv v) kvs"
  shows "get k (foldl (\<lambda>s (k, v). put k v s) s kvs)
    = (case map_of (rev kvs) k of Some v \<Rightarrow> res v | None \<Rightarrow> get k s)"
  using assms(2)
proof (induction kvs rule: rev_induct)
  case (snoc x kvs)
  obtain k' v where x: "x = (k', v)" by (cases x)
  show ?case
  proof (cases "k = k'")
    case True
    then show ?thesis using snoc.prems assms(1) by (simp add: x get_put)
  next
    case False
    then show ?thesis using snoc assms(1) by (simp add: x get_put_other)
  qed
qed simp

end

section \<open>The store\<close>

type_synonym disk = "string \<rightharpoonup> bytes"

record OffsetRecord =
  orOffset :: int

record OffsetStore =
  osBaseDir :: string

definition NewOffsetStore :: "call_fault \<Rightarrow> string \<Rightarrow> go_error + OffsetStore" where
  "NewOffsetStore mkdir baseDir = (case mkdir of Some e \<Rightarrow> Inl e | None \<Rightarrow> Inr \<lparr>osBaseDir = baseDir\<rparr>)"

definition offset_file :: "string \<Rightarrow> int \<Rightarrow> string" where
  "offset_file topic part = topic @ ''_'' @ itoa part @ ''.json''"

definition getFilePath :: "OffsetStore \<Rightarrow> string \<Rightarrow> string \<Rightarrow> int \<Rightarrow> string" where
  "getFilePath st groupID topic part =
     Join [osBaseDir st, ''offsets'', groupID, offset_file topic part]"

record commit_faults =
  cMkdir :: call_fault
  cOpen :: call_fault
  cWrite :: write_fault
  cSync :: call_fault

definition no_commit_faults :: commit_faults where
  "no_commit_faults = \<lparr>cMkdir = None, cOpen = None, cWrite = None, cSync = None\<rparr>"

definition offset_json :: "OffsetRecord \<Rightarrow> string" where
  "offset_json rec = enc_object [(''offset'', itoa (orOffset rec))] @ [CHR 0x0A]"

definition CommitOffset ::
  "commit_faults \<Rightarrow> OffsetStore \<Rightarrow> string \<Rightarrow> string \<Rightarrow> int \<Rightarrow> int \<Rightarrow> disk \<Rightarrow> go_error option \<times> disk" where
  "CommitOffset flt st groupID topic part offset d =
     (let path = getFilePath st groupID topic part in
      case cMkdir flt of Some e \<Rightarrow> (Some e, d) | None \<Rightarrow>
      (case cOpen flt of Some e \<Rightarrow> (Some e, d) | None \<Rightarrow>
       (let out = bytes_of (offset_json \<lparr>orOffset = offset\<rparr>) in
        case cWrite flt of
          Some (n, e) \<Rightarrow> (Some e, d(path \<mapsto> take n out))
        | None \<Rightarrow> (cSync flt, d(path \<mapsto> out)))))"

text \<open>Struct fields are matched without regard to ASCII case; the long s (bytes C5 BF) also matches \<^verbatim>\<open>s\<close>.\<close>

fun fold_name :: "string \<Rightarrow> string" where
  "fold_name [] = []"
| "fold_name [c] = [if 65 \<le> code c \<and> code c \<le> 90 then char_of (code c + 32) else c]"
| "fold_name (c # d # cs) =
     (if c = CHR 0xC5 \<and> d = CHR 0xBF then CHR ''s'' # fold_name cs
      else (if 65 \<le> code c \<and> code c \<le> 90 then char_of (code c + 32) else c) # fold_name (d # cs))"

definition offset_member :: "int \<times> bool \<Rightarrow> string \<times> json \<Rightarrow> int \<times> bool" where
  "offset_member acc kv =
     (case (acc, kv) of ((off, bad), (k, v)) \<Rightarrow>
        if fold_name k \<noteq> ''offset'' \<or> v = JNull then acc
        else case int_of_json v of Some n \<Rightarrow> (n, bad) | None \<Rightarrow> (off, True))"

definition decode_offset :: "string \<Rightarrow> int option" where
  "decode_offset s =
     (case json_first s of
        Some JNull \<Rightarrow> Some 0
      | Some (JObj kvs) \<Rightarrow> (case foldl offset_member (0, False) kvs of (off, bad) \<Rightarrow> if bad then None else Some off)
      | _ \<Rightarrow> None)"

definition FetchOffset ::
  "(string \<Rightarrow> go_error) \<Rightarrow> call_fault \<Rightarrow> OffsetStore \<Rightarrow> string \<Rightarrow> string \<Rightarrow> int \<Rightarrow> disk \<Rightarrow> int \<times> go_error option" where
  "FetchOffset jerr open_fault st groupID topic part d =
     (case open_fault of Some e \<Rightarrow> (- 1, Some e) | None \<Rightarrow>
      (case d (getFilePath st groupID topic part) of
         None \<Rightarrow> (- 1, None)
       | Some content \<Rightarrow>
           (case decode_offset (string_of content) of
              None \<Rightarrow> (- 1, Some (jerr (string_of content)))
            | Some off \<Rightarrow> (off, None))))"

section \<open>Round trip\<close>

lemma decode_offset_json [codec_simps]: "in_int64 n \<Longrightarrow> decode_offset (offset_json \<lparr>orOffset = n\<rparr>) = Some n"
proof -
  assume n: "in_int64 n"
  have "json_first (offset_json \<lparr>orOffset = n\<rparr>) = Some (JObj [(''offset'', JNum (itoa n))])"
    using json_first_ints [of "[(''offset'', n)]" "[CHR 0x0A]"] by (simp add: offset_json_def ascii_def)
  then show ?thesis using n by (simp add: decode_offset_def offset_member_def)
qed

text \<open>Group and topic names that are single path elements.\<close>

definition plain_key :: "string \<times> string \<times> int \<Rightarrow> bool" where
  "plain_key k \<longleftrightarrow> (case k of (g, t, p) \<Rightarrow> plain g \<and> CHR ''/'' \<notin> set t)"

lemma offset_file_plain: "CHR ''/'' \<notin> set t \<Longrightarrow> plain (offset_file t p)"
proof -
  assume t: "CHR ''/'' \<notin> set t"
  have "CHR ''_'' \<in> set (offset_file t p)" by (simp add: offset_file_def)
  moreover have "CHR ''_'' \<notin> set ''.''" "CHR ''_'' \<notin> set ''..''" by simp_all
  ultimately have "offset_file t p \<noteq> ''.''" "offset_file t p \<noteq> ''..''" by (metis, metis)
  then show ?thesis using t by (simp add: plain_def offset_file_def)
qed

lemma offset_file_inject: "offset_file t p = offset_file t' p' \<longleftrightarrow> t = t' \<and> p = p'"
proof
  assume "offset_file t p = offset_file t' p'"
  then have eq: "t @ CHR ''_'' # itoa p = t' @ CHR ''_'' # itoa p'" by (simp add: offset_file_def)
  then have "LastIndex (t @ CHR ''_'' # itoa p) CHR ''_'' = LastIndex (t' @ CHR ''_'' # itoa p') CHR ''_''" by simp
  then have "length t = length t'" by (simp add: LastIndex_append)
  with eq show "t = t' \<and> p = p'" by simp
qed simp

lemma getFilePath_inject:
  assumes "osBaseDir st \<noteq> []" "plain_key (g, t, p)" "plain_key (g', t', p')"
  shows "getFilePath st g t p = getFilePath st g' t' p' \<longleftrightarrow> (g, t, p) = (g', t', p')"
proof -
  have "plain ''offsets''" by (simp add: plain_def)
  then show ?thesis
    using assms Join_inject [of "osBaseDir st" "[''offsets'', g, offset_file t p]"
        "[''offsets'', g', offset_file t' p']"]
    unfolding getFilePath_def by (simp add: plain_key_def offset_file_plain offset_file_inject)
qed

section \<open>The store is a set of registers\<close>

abbreviation commit :: "string \<Rightarrow> string \<times> string \<times> int \<Rightarrow> int \<Rightarrow> disk \<Rightarrow> disk" where
  "commit base k off d \<equiv> (case k of (g, t, p) \<Rightarrow> snd (CommitOffset no_commit_faults \<lparr>osBaseDir = base\<rparr> g t p off d))"

abbreviation fetch :: "(string \<Rightarrow> go_error) \<Rightarrow> string \<Rightarrow> string \<times> string \<times> int \<Rightarrow> disk \<Rightarrow> int \<times> go_error option" where
  "fetch jerr base k d \<equiv> (case k of (g, t, p) \<Rightarrow> FetchOffset jerr None \<lparr>osBaseDir = base\<rparr> g t p d)"

interpretation offsets: registers "commit base" "fetch jerr base" "\<lambda>off. (off, None)"
    "\<lambda>k. base \<noteq> [] \<and> plain_key k" in_int64 for base jerr
proof unfold_locales
  fix k and off :: int and d :: disk
  assume "in_int64 off"
  then show "fetch jerr base k (commit base k off d) = (off, None)"
    by (cases k) (simp add: FetchOffset_def CommitOffset_def no_commit_faults_def decode_offset_json)
next
  fix k k' and off :: int and d :: disk
  assume "base \<noteq> [] \<and> plain_key k" "base \<noteq> [] \<and> plain_key k'" "k' \<noteq> k"
  moreover obtain g t p g' t' p' where k: "k = (g, t, p)" "k' = (g', t', p')" by (cases k; cases k')
  ultimately have "getFilePath \<lparr>osBaseDir = base\<rparr> g' t' p' \<noteq> getFilePath \<lparr>osBaseDir = base\<rparr> g t p"
    using getFilePath_inject [of "\<lparr>osBaseDir = base\<rparr>" g' t' p' g t p] by simp
  then show "fetch jerr base k' (commit base k off d) = fetch jerr base k' d"
    unfolding k by (simp add: FetchOffset_def CommitOffset_def no_commit_faults_def)
qed

section \<open>Properties\<close>

text \<open>\<^bold>\<open>C30\<close>: after any sequence of successful commits, \<^verbatim>\<open>FetchOffset\<close> returns the offset last committed for that
  group, topic and partition, and \<open>-1\<close> without an error when there was none, for names that are single path elements.\<close>

theorem fetch_returns_last_commit:
  assumes "base \<noteq> []" "plain_key (g, t, p)"
    and "list_all (\<lambda>(k, off). plain_key k \<and> in_int64 off) commits"
  shows "FetchOffset jerr None \<lparr>osBaseDir = base\<rparr> g t p (foldl (\<lambda>d (k, off). commit base k off d) Map.empty commits)
    = (case map_of (rev commits) (g, t, p) of Some off \<Rightarrow> (off, None) | None \<Rightarrow> (- 1, None))"
proof -
  have "list_all (\<lambda>(k, off). (base \<noteq> [] \<and> plain_key k) \<and> in_int64 off) commits"
    using assms by (simp add: case_prod_unfold)
  from offsets.get_after_puts [OF _ this, of "(g, t, p)" jerr Map.empty] show ?thesis
    using assms by (simp add: FetchOffset_def split: option.split)
qed

theorem fetch_returns_last_commit_witness:
  "FetchOffset (\<lambda>_. EOF) None \<lparr>osBaseDir = ''data''\<rparr> ''g'' ''t'' 1
     (foldl (\<lambda>d (k, off). commit ''data'' k off d) Map.empty
        [((''g'', ''t'', 1), 5), ((''g'', ''t'', 0), 6), ((''g'', ''t'', 1), 7)]) = (7, None)"
  by (subst fetch_returns_last_commit) (simp_all add: plain_key_def plain_def in_int64_def)

text \<open>The file is truncated before it is rewritten: a commit that fails while writing replaces the committed
  offset by a file that cannot be decoded, and the next fetch is an error.\<close>

theorem failed_commit_loses_offset:
  "CommitOffset (no_commit_faults\<lparr>cWrite := Some (0, e)\<rparr>) st g t p off d
     = (Some e, d(getFilePath st g t p \<mapsto> []))
   \<and> FetchOffset jerr None st g t p (snd (CommitOffset (no_commit_faults\<lparr>cWrite := Some (0, e)\<rparr>) st g t p off d))
     = (- 1, Some (jerr []))"
proof -
  have "decode_offset (string_of []) = None"
    by (simp add: decode_offset_def json_first_def tokens_punct string_of_def)
  then show ?thesis
    by (simp add: CommitOffset_def FetchOffset_def no_commit_faults_def string_of_def)
qed

text \<open>Names are not checked: a slash in a group or topic makes different groups share a file, and a group
  called \<^verbatim>\<open>..\<close> leaves the directory of the offsets.\<close>

theorem offset_paths_collide:
  "getFilePath \<lparr>osBaseDir = ''data''\<rparr> ''a'' ''b/c'' 0 = getFilePath \<lparr>osBaseDir = ''data''\<rparr> ''a/b'' ''c'' 0
   \<and> getFilePath \<lparr>osBaseDir = ''data''\<rparr> ''..'' ''t'' 0 = ''data/t_0.json''"
  by code_simp

end
