(* ===== verification/Deduplicator.thy ===== *)
theory Deduplicator
  imports Offset_Store
begin

text \<open>
  \<^verbatim>\<open>internal/consumer/deduplicator.go\<close>: the message ids a consumer group has processed, kept in memory
  and written to one JSON file per group. The inner Go map is the list of its keys, in the order
  in which \<^verbatim>\<open>range\<close> visits them. \<open>rd\<close> and \<open>wr\<close> are the faults of reading and writing the file.
\<close>

section \<open>Operations\<close>

record Deduplicator =
  ddProcessed :: "string \<rightharpoonup> string list"
  ddDataDir :: string

definition NewDeduplicator :: "string \<Rightarrow> Deduplicator" where
  "NewDeduplicator dataDir = \<lparr>ddProcessed = Map.empty, ddDataDir = dataDir\<rparr>"

definition processed_path :: "Deduplicator \<Rightarrow> string \<Rightarrow> string" where
  "processed_path dd groupID = Join [ddDataDir dd, ''processed_'' @ groupID @ ''.json'']"

text \<open>Create the group's map when it is missing, then set \<^verbatim>\<open>d.processed[groupID][id] = true\<close> for every id.\<close>

definition add_id :: "string list \<Rightarrow> string \<Rightarrow> string list" where
  "add_id xs i = (if i \<in> set xs then xs else xs @ [i])"

definition addIds :: "string \<Rightarrow> string list \<Rightarrow> Deduplicator \<Rightarrow> Deduplicator" where
  "addIds groupID ids dd =
     (let old = (case ddProcessed dd groupID of Some xs \<Rightarrow> xs | None \<Rightarrow> [])
      in dd\<lparr>ddProcessed := (ddProcessed dd)(groupID \<mapsto> foldl add_id old ids)\<rparr>)"

definition Load :: "call_fault \<Rightarrow> string \<Rightarrow> disk \<Rightarrow> Deduplicator \<Rightarrow> Deduplicator" where
  "Load rd groupID d dd =
     (let dd = addIds groupID [] dd in
      if rd \<noteq> None then dd
      else case d (processed_path dd groupID) of
          None \<Rightarrow> dd
        | Some content \<Rightarrow>
            (case unmarshal_strings (string_of content) of
               Some ids \<Rightarrow> addIds groupID ids dd
             | None \<Rightarrow> dd))"

text \<open>\<^verbatim>\<open>os.WriteFile\<close> truncates the file before it writes; \<open>wr\<close> says how many bytes a failing write stores.\<close>

definition Save :: "write_fault \<Rightarrow> string \<Rightarrow> Deduplicator \<Rightarrow> disk \<Rightarrow> disk" where
  "Save wr groupID dd d =
     (let ids = (case ddProcessed dd groupID of Some xs \<Rightarrow> xs | None \<Rightarrow> []);
          out = bytes_of (enc_strings ids)
      in d(processed_path dd groupID \<mapsto> (case wr of None \<Rightarrow> out | Some (n, e) \<Rightarrow> take n out)))"

definition MarkProcessed :: "write_fault \<Rightarrow> string \<Rightarrow> string list \<Rightarrow> Deduplicator \<times> disk \<Rightarrow> Deduplicator \<times> disk" where
  "MarkProcessed wr groupID ids s =
     (case s of (dd, d) \<Rightarrow>
        if ids = [] then (dd, d)
        else let dd = addIds groupID ids dd in (dd, Save wr groupID dd d))"

definition IsProcessed :: "string \<Rightarrow> string \<Rightarrow> Deduplicator \<Rightarrow> bool" where
  "IsProcessed groupID messageID dd =
     (case ddProcessed dd groupID of Some grp \<Rightarrow> messageID \<in> set grp | None \<Rightarrow> False)"

section \<open>Lemmas\<close>

lemma set_add_ids [simp]: "set (foldl add_id xs ids) = set xs \<union> set ids"
  by (induction ids arbitrary: xs) (auto simp: add_id_def)

lemma IsProcessed_addIds [simp]:
  "IsProcessed g i (addIds g' ids dd) \<longleftrightarrow> IsProcessed g i dd \<or> (g = g' \<and> i \<in> set ids)"
  by (auto simp: IsProcessed_def addIds_def Let_def split: option.splits)

lemma addIds_dir [simp]: "ddDataDir (addIds g ids dd) = ddDataDir dd"
  "processed_path (addIds g ids dd) = processed_path dd"
  by (simp_all add: addIds_def Let_def processed_path_def fun_eq_iff)

definition group_ids :: "string \<Rightarrow> Deduplicator \<Rightarrow> string list" where
  "group_ids g dd = (case ddProcessed dd g of Some xs \<Rightarrow> xs | None \<Rightarrow> [])"

lemma IsProcessed_group_ids: "IsProcessed g i dd \<longleftrightarrow> i \<in> set (group_ids g dd)"
  by (simp add: IsProcessed_def group_ids_def split: option.split)

lemma Load_Save:
  assumes "list_all ascii (group_ids g dd)" "ddDataDir dd' = ddDataDir dd"
  shows "IsProcessed g i (Load None g (Save None g dd d) dd') \<longleftrightarrow> IsProcessed g i dd' \<or> IsProcessed g i dd"
proof -
  have path: "processed_path dd' g = processed_path dd g" using assms(2) by (simp add: processed_path_def)
  have "Save None g dd d (processed_path dd g) = Some (bytes_of (enc_strings (group_ids g dd)))"
    by (simp add: Save_def Let_def group_ids_def)
  then show ?thesis
    using path unmarshal_strings_enc [OF assms(1)]
    by (auto simp: Load_def Let_def IsProcessed_group_ids [of g i dd])
qed

lemma group_ids_addIds: "set (group_ids g (addIds g ids dd)) = set (group_ids g dd) \<union> set ids"
  by (simp add: group_ids_def addIds_def Let_def split: option.split)

lemma mark_then_load:
  assumes "list_all ascii (group_ids g dd)" "list_all ascii ids"
  shows "IsProcessed g i (Load None g (Save None g (addIds g ids dd) d) (NewDeduplicator (ddDataDir dd)))
    \<longleftrightarrow> IsProcessed g i dd \<or> i \<in> set ids"
proof -
  have "list_all ascii (group_ids g (addIds g ids dd))"
    using assms by (simp add: list_all_iff group_ids_addIds) blast
  moreover have "\<not> IsProcessed g i (NewDeduplicator (ddDataDir dd))"
    by (simp add: NewDeduplicator_def IsProcessed_def)
  ultimately show ?thesis by (subst Load_Save) (simp_all add: NewDeduplicator_def)
qed

text \<open>The server never calls \<^verbatim>\<open>Load\<close>: the first \<^verbatim>\<open>MarkProcessed\<close> of a group after a restart replaces
  its file, and no id recorded before the restart can be loaded any more.\<close>

lemma restart_forgets_processed_ids:
  assumes "ids \<noteq> []" "list_all ascii ids"
  shows "case MarkProcessed None g ids (NewDeduplicator dir, d) of (dd, d') \<Rightarrow>
    \<forall>i. IsProcessed g i (Load None g d' (NewDeduplicator dir)) \<longleftrightarrow> i \<in> set ids"
  using mark_then_load [of g "NewDeduplicator dir" ids _ d] assms
  by (simp add: MarkProcessed_def Let_def group_ids_def NewDeduplicator_def IsProcessed_def)

section \<open>Properties\<close>

text \<open>What \<^verbatim>\<open>MarkProcessed\<close> records is found by \<^verbatim>\<open>IsProcessed\<close>, other groups keep their ids, and a
  new instance that calls \<^verbatim>\<open>Load\<close> on the written file knows exactly the same ids of the group.\<close>

theorem processed_ids_survive:
  assumes "ids \<noteq> []" "list_all ascii (group_ids g dd)" "list_all ascii ids"
  shows "case MarkProcessed None g ids (dd, d) of (dd', d') \<Rightarrow>
      (\<forall>g' i. IsProcessed g' i dd' \<longleftrightarrow> IsProcessed g' i dd \<or> (g' = g \<and> i \<in> set ids))
    \<and> (\<forall>i. IsProcessed g i (Load None g d' (NewDeduplicator (ddDataDir dd))) \<longleftrightarrow> IsProcessed g i dd')"
  using assms mark_then_load [OF assms(2,3)] by (simp add: MarkProcessed_def Let_def)

theorem processed_ids_survive_witness:
  "\<forall>i. IsProcessed ''g'' i (Load None ''g''
       (snd (MarkProcessed None ''g'' [''a'', ''b''] (NewDeduplicator ''data'', Map.empty))) (NewDeduplicator ''data''))
     \<longleftrightarrow> IsProcessed ''g'' i (fst (MarkProcessed None ''g'' [''a'', ''b''] (NewDeduplicator ''data'', Map.empty)))"
  using processed_ids_survive [of "[''a'', ''b'']" "''g''" "NewDeduplicator ''data''" Map.empty]
  by (simp add: ascii_def group_ids_def NewDeduplicator_def case_prod_unfold)

end
