(* ===== verification/Schema_Registry.thy ===== *)
theory Schema_Registry
  imports Go_Json
begin

text \<open>
  \<^verbatim>\<open>internal/schema/registry.go\<close>: JSON schemas per topic, of which only the top-level list
  \<^verbatim>\<open>required\<close> is enforced. \<open>jerr\<close> is the text with which \<^verbatim>\<open>encoding/json\<close> rejects an input. \<^verbatim>\<open>Validate\<close>
  asserts that every required name is a string and panics otherwise: \<open>None\<close> is a panic.
\<close>

section \<open>Operations\<close>

type_synonym Registry = "string \<rightharpoonup> (string \<times> json) list"

definition NewRegistry :: Registry where
  "NewRegistry = Map.empty"

definition Register :: "(string \<Rightarrow> string) \<Rightarrow> string \<Rightarrow> string \<Rightarrow> Registry \<Rightarrow> go_error option \<times> Registry" where
  "Register jerr topic schemaDef r =
     (case unmarshal_object schemaDef of
        None \<Rightarrow> (Some (Err (''invalid json schema: '' @ jerr schemaDef)), r)
      | Some parsed \<Rightarrow> (None, r(topic \<mapsto> parsed)))"

text \<open>The loop over the required names: the first that is missing, no error, or a panic.\<close>

fun checkRequired :: "(string \<times> json) list \<Rightarrow> json list \<Rightarrow> go_error option option" where
  "checkRequired data [] = Some None"
| "checkRequired data (v # vs) =
     (case v of
        JStr field \<Rightarrow>
          (if obj_get data field = None then Some (Some (Err (''missing required field: '' @ field)))
           else checkRequired data vs)
      | _ \<Rightarrow> None)"

definition Validate :: "(string \<Rightarrow> string) \<Rightarrow> string \<Rightarrow> bytes \<Rightarrow> Registry \<Rightarrow> go_error option option" where
  "Validate jerr topic payload r =
     (case r topic of
        None \<Rightarrow> Some None
      | Some schema \<Rightarrow>
          (case unmarshal_object (string_of payload) of
             None \<Rightarrow> Some (Some (Err (''payload must be valid JSON: '' @ jerr (string_of payload))))
           | Some data \<Rightarrow>
               (case obj_get schema ''required'' of
                  Some (JArr req) \<Rightarrow> checkRequired data req
                | _ \<Rightarrow> Some None)))"

section \<open>Lemmas\<close>

text \<open>The names a schema requires, when they are all strings.\<close>

definition required_names :: "(string \<times> json) list \<Rightarrow> string list option" where
  "required_names schema = (case obj_get schema ''required'' of
     Some (JArr vs) \<Rightarrow> those (map (\<lambda>v. case v of JStr f \<Rightarrow> Some f | _ \<Rightarrow> None) vs)
   | _ \<Rightarrow> Some [])"

lemma checkRequired_names:
  assumes "those (map (\<lambda>v. case v of JStr f \<Rightarrow> Some f | _ \<Rightarrow> None) vs) = Some fs"
  shows "checkRequired data vs
    = Some (map_option (\<lambda>f. Err (''missing required field: '' @ f)) (find (\<lambda>f. obj_get data f = None) fs))"
  using assms
proof (induction vs arbitrary: fs)
  case (Cons v vs)
  then obtain f fs' where "v = JStr f" "fs = f # fs'"
      "those (map (\<lambda>v. case v of JStr f \<Rightarrow> Some f | _ \<Rightarrow> None) vs) = Some fs'"
    by (auto split: json.splits option.splits)
  with Cons.IH show ?case by simp
qed simp

lemma obj_get_dom: "obj_get data f \<noteq> None \<longleftrightarrow> f \<in> fst ` set data"
  by (auto simp: obj_get_def map_of_eq_None_iff)

section \<open>Properties\<close>

text \<open>\<^bold>\<open>C31\<close>: once a schema is registered for a topic whose required names are strings, \<^verbatim>\<open>Validate\<close> never panics
  and accepts exactly the payloads that are a JSON object (or \<^verbatim>\<open>null\<close>, an empty one) with all required names as
  top-level keys; other topics are not affected.\<close>

theorem validate_required:
  assumes "unmarshal_object schemaDef = Some schema" "required_names schema = Some fs"
  shows "\<exists>res. Validate jerr topic payload (snd (Register jerr topic schemaDef r)) = Some res
    \<and> (res = None \<longleftrightarrow> (\<exists>data. unmarshal_object (string_of payload) = Some data \<and> set fs \<subseteq> fst ` set data))
    \<and> (\<forall>t p. t \<noteq> topic \<longrightarrow> Validate jerr t p (snd (Register jerr topic schemaDef r)) = Validate jerr t p r)"
proof (cases "unmarshal_object (string_of payload)")
  case None
  then show ?thesis using assms(1) by (simp add: Validate_def Register_def)
next
  case (Some data)
  let ?r = "map_option (\<lambda>f. Err (''missing required field: '' @ f)) (find (\<lambda>f. obj_get data f = None) fs)"
  have "Validate jerr topic payload (snd (Register jerr topic schemaDef r)) = Some ?r"
    using assms Some checkRequired_names
    by (auto simp: Validate_def Register_def required_names_def split: option.splits json.splits)
  moreover have "?r = None \<longleftrightarrow> set fs \<subseteq> fst ` set data"
    unfolding option.map_disc_iff find_None_iff using obj_get_dom [of data] by (simp add: subset_iff)
  ultimately show ?thesis using assms(1) Some by (simp add: Validate_def Register_def)
qed

definition sample_schema :: string where
  "sample_schema = ''{\"required\":[\"id\"]}''"

theorem validate_required_witness:
  "\<exists>res. Validate (\<lambda>_. []) ''t'' (bytes_of ''{}'') (snd (Register (\<lambda>_. []) ''t'' sample_schema NewRegistry)) = Some res
    \<and> res \<noteq> None"
proof -
  have s: "unmarshal_object sample_schema = Some [(''required'', JArr [JStr ''id''])]" by code_simp
  have "required_names [(''required'', JArr [JStr ''id''])] = Some [''id'']" by code_simp
  note use = validate_required [OF s this, of "\<lambda>_. []" "''t''" "bytes_of ''{}''" NewRegistry]
  have "unmarshal_object ''{}'' = Some []" by code_simp
  with use show ?thesis by (elim exE conjE) (intro exI, auto)
qed

text \<open>The types of the required names are not checked at registration: \<^verbatim>\<open>Register\<close> accepts a schema
  that requires \<^verbatim>\<open>null\<close>, and from then on \<^verbatim>\<open>Validate\<close> panics on every payload that is a JSON object.\<close>

theorem unchecked_schema_panics:
  assumes "unmarshal_object (string_of payload) = Some data"
  shows "fst (Register jerr topic ''{\"required\":[null]}'' r) = None
    \<and> Validate jerr topic payload (snd (Register jerr topic ''{\"required\":[null]}'' r)) = None"
proof -
  have "unmarshal_object ''{\"required\":[null]}'' = Some [(''required'', JArr [JNull])]" by code_simp
  then show ?thesis using assms by (simp add: Register_def Validate_def obj_get_def)
qed

theorem unchecked_schema_panics_witness:
  "Validate (\<lambda>_. []) ''t'' (bytes_of ''{}'') (snd (Register (\<lambda>_. []) ''t'' ''{\"required\":[null]}'' NewRegistry)) = None"
proof -
  have "unmarshal_object (string_of (bytes_of ''{}'')) = Some []" by code_simp
  from unchecked_schema_panics [OF this, of "\<lambda>_. []" "''t''" NewRegistry] show ?thesis by simp
qed

end
