(* ===== verification/Controller.thy ===== *)
theory Controller
  imports Offset_Store
begin

text \<open>
  \<^verbatim>\<open>internal/broker/controller.go\<close> and \<^verbatim>\<open>internal/broker/rebalancer.go\<close>: partition leadership. Every broker caches
  the leaders and shares the file \<^verbatim>\<open>leaders.json\<close> with the others. Go maps are association
  lists in iteration order. The decoder replaces the cache by a nil map when the file holds
  \<^verbatim>\<open>null\<close>; assigning to a nil map panics, and \<open>None\<close> is a panic. \<open>now\<close> is the time at which an operation runs, in
  nanoseconds, and the faults of the file operations are arguments.
\<close>

section \<open>State\<close>

record Controller =
  ctBrokerID :: int
  ctLeadersPath :: string
  ctLeaders :: "(string \<times> int) list option"
  ctActiveNodes :: "(int \<times> int) list"

text \<open>\<open>shared\<close> says whether \<^verbatim>\<open>/data/metadata\<close> exists.\<close>

definition NewController :: "bool \<Rightarrow> int \<Rightarrow> string \<Rightarrow> Controller" where
  "NewController shared brokerID dataDir =
     (let metaDir = (if shared then ''/data/metadata'' else Join [dataDir, ''metadata'']) in
      \<lparr>ctBrokerID = brokerID, ctLeadersPath = Join [metaDir, ''leaders.json''],
       ctLeaders = Some [], ctActiveNodes = []\<rparr>)"

definition leaders :: "Controller \<Rightarrow> (string \<times> int) list" where
  "leaders c = (case ctLeaders c of Some m \<Rightarrow> m | None \<Rightarrow> [])"

definition setLeader :: "string \<Rightarrow> int \<Rightarrow> Controller \<Rightarrow> Controller option" where
  "setLeader key leader c = map_option (\<lambda>m. c\<lparr>ctLeaders := Some (AList.update key leader m)\<rparr>) (ctLeaders c)"

section \<open>The leaders file\<close>

record save_faults =
  sOpen :: call_fault
  sWrite :: write_fault

definition no_save_faults :: save_faults where
  "no_save_faults = \<lparr>sOpen = None, sWrite = None\<rparr>"

definition leaders_json :: "(string \<times> int) list option \<Rightarrow> string" where
  "leaders_json m = (case m of
       None \<Rightarrow> ''null''
     | Some m \<Rightarrow> enc_object (map (\<lambda>(k, n). (k, itoa n)) (sort_key fst m))) @ [CHR 0x0A]"

definition saveLeaders :: "save_faults \<Rightarrow> Controller \<Rightarrow> disk \<Rightarrow> disk" where
  "saveLeaders flt c d =
     (if sOpen flt \<noteq> None then d
      else let out = bytes_of (leaders_json (ctLeaders c)) in
        d(ctLeadersPath c \<mapsto> (case sWrite flt of None \<Rightarrow> out | Some (n, e) \<Rightarrow> take n out)))"

text \<open>Decoding into a \<^verbatim>\<open>map[string]int\<close>: members are added to the map that is there, one that is not an integer
  sets its key to zero.\<close>

definition decode_member :: "(string \<times> int) list \<Rightarrow> string \<times> json \<Rightarrow> (string \<times> int) list" where
  "decode_member m kv = (case kv of (k, v) \<Rightarrow>
     AList.update k (case int_of_json v of Some n \<Rightarrow> n | None \<Rightarrow> 0) m)"

definition decode_leaders :: "string \<Rightarrow> (string \<times> int) list option \<Rightarrow> (string \<times> int) list option" where
  "decode_leaders s m =
     (case json_first s of
        Some JNull \<Rightarrow> None
      | Some (JObj kvs) \<Rightarrow> Some (foldl decode_member (case m of Some m \<Rightarrow> m | None \<Rightarrow> []) kvs)
      | _ \<Rightarrow> m)"

definition loadLeaders ::
  "call_fault \<Rightarrow> save_faults \<Rightarrow> Controller \<times> disk \<Rightarrow> (Controller \<times> disk) option" where
  "loadLeaders open_fault flt s =
     (case s of (c, d) \<Rightarrow>
        (case (if open_fault \<noteq> None then None else d (ctLeadersPath c)) of
           None \<Rightarrow>
             Option.bind (setLeader ''test-0'' 0 c) (\<lambda>c.
             Option.bind (setLeader ''test-1'' 1 c) (\<lambda>c. Some (c, saveLeaders flt c d)))
         | Some content \<Rightarrow> Some (c\<lparr>ctLeaders := decode_leaders (string_of content) (ctLeaders c)\<rparr>, d)))"

section \<open>Failover\<close>

definition lease :: int where
  "lease = 10 * 10 ^ 9"

definition alive :: "int \<Rightarrow> (int \<times> int) list \<Rightarrow> int \<Rightarrow> bool" where
  "alive now active i = (case map_of active i of None \<Rightarrow> False | Some lastSeen \<Rightarrow> now - lastSeen \<le> lease)"

definition lowestActive :: "int \<Rightarrow> int \<Rightarrow> (int \<times> int) list \<Rightarrow> int" where
  "lowestActive now brokerID active =
     foldl (\<lambda>lowest (i, lastSeen). if now - lastSeen \<le> lease \<and> i < lowest then i else lowest) brokerID active"

definition executeFailover ::
  "call_fault \<Rightarrow> save_faults \<Rightarrow> int \<Rightarrow> string \<Rightarrow> (int \<times> int) list \<Rightarrow> Controller \<times> disk \<Rightarrow> (Controller \<times> disk) option" where
  "executeFailover open_fault flt now partitionKey active s =
     (case s of (c, d) \<Rightarrow>
        if lowestActive now (ctBrokerID c) active \<noteq> ctBrokerID c then Some (c, d)
        else Option.bind (loadLeaders open_fault flt (c, d)) (\<lambda>(c, d).
          let curr = (case map_of (leaders c) partitionKey of Some l \<Rightarrow> l | None \<Rightarrow> 0) in
          if \<not> alive now active curr then
            Option.bind (setLeader partitionKey (ctBrokerID c) c) (\<lambda>c. Some (c, saveLeaders flt c d))
          else Some (c, d)))"

definition checkFailover ::
  "call_fault \<Rightarrow> save_faults \<Rightarrow> int \<Rightarrow> Controller \<times> disk \<Rightarrow> (Controller \<times> disk) option" where
  "checkFailover open_fault flt now s =
     (let c = fst s;
          leadersCopy = leaders c;
          activeCopy = AList.update (ctBrokerID c) now (ctActiveNodes c)
      in foldl (\<lambda>acc (partitionKey, leaderID).
           if leaderID = ctBrokerID c then acc
           else if \<not> alive now activeCopy leaderID
             then Option.bind acc (executeFailover open_fault flt now partitionKey activeCopy)
             else acc)
         (Some s) leadersCopy)"

section \<open>Heartbeats\<close>

text \<open>The datagrams a broker sends, and what the receiver makes of one: \<^verbatim>\<open>Sscanf\<close> with \<^verbatim>\<open>%d\<close> skips spaces (of Unicode, in
  UTF-8, but no newline), reads an integer and leaves the id zero when there is none.\<close>

definition sendHeartbeats :: "Controller \<Rightarrow> (string \<times> string) list" where
  "sendHeartbeats c = map (\<lambda>i. (''localhost:'' @ itoa (9095 + i), itoa (ctBrokerID c))) [0, 1, 2]"

definition wide_space :: "string \<Rightarrow> bool" where
  "wide_space cs \<longleftrightarrow> cs = [CHR 0xE1, CHR 0x9A, CHR 0x80] \<or> cs = [CHR 0xE2, CHR 0x81, CHR 0x9F] \<or> cs = [CHR 0xE3, CHR 0x80, CHR 0x80]
     \<or> (take 2 cs = [CHR 0xE2, CHR 0x80]
        \<and> (case drop 2 cs of [c] \<Rightarrow> 0x80 \<le> (of_char c :: nat) \<and> (of_char c :: nat) \<le> 0x8A \<or> c \<in> {CHR 0xA8, CHR 0xA9, CHR 0xAF} | _ \<Rightarrow> False))"

definition space_bytes :: "string \<Rightarrow> nat" where
  "space_bytes cs =
     (if take 1 cs \<in> {[CHR 0x09], [CHR 0x0B], [CHR 0x0C], [CHR 0x0D], [CHR '' '']} then 1
      else if take 2 cs \<in> {[CHR 0xC2, CHR 0x85], [CHR 0xC2, CHR 0xA0]} then 2
      else if wide_space (take 3 cs) then 3 else 0)"

function SkipSpace :: "string \<Rightarrow> string" where
  "SkipSpace cs = (if cs = [] \<or> space_bytes cs = 0 then cs else SkipSpace (drop (space_bytes cs) cs))"
  by auto
termination by (relation "measure length") auto

declare SkipSpace.simps [simp del]

definition scan_int_prefix :: "string \<Rightarrow> int" where
  "scan_int_prefix msg =
     (let s = SkipSpace msg;
          (sign, ds) = (case s of c # cs \<Rightarrow> if c = CHR ''-'' \<or> c = CHR ''+'' then ([c], cs) else ([], s) | [] \<Rightarrow> ([], s))
      in case Atoi (sign @ takeWhile is_digit ds) of Some n \<Rightarrow> n | None \<Rightarrow> 0)"

definition receiveHeartbeat :: "int \<Rightarrow> string \<Rightarrow> Controller \<Rightarrow> Controller" where
  "receiveHeartbeat now msg c =
     c\<lparr>ctActiveNodes := AList.update (scan_int_prefix msg) now (ctActiveNodes c)\<rparr>"

section \<open>Queries and moves\<close>

text \<open>Go's remainder takes the sign of the dividend.\<close>

definition go_mod :: "int \<Rightarrow> int \<Rightarrow> int" where
  "go_mod a b = sgn a * (\<bar>a\<bar> mod \<bar>b\<bar>)"

definition partition_key :: "string \<Rightarrow> int \<Rightarrow> string" where
  "partition_key topic part = topic @ ''-'' @ itoa part"

definition GetLeader :: "string \<Rightarrow> int \<Rightarrow> Controller \<Rightarrow> int" where
  "GetLeader topic part c =
     (case map_of (leaders c) (partition_key topic part) of Some leaderID \<Rightarrow> leaderID | None \<Rightarrow> go_mod part 2)"

definition GetLedPartitions :: "int \<Rightarrow> Controller \<Rightarrow> string list" where
  "GetLedPartitions brokerID c = map fst (filter (\<lambda>(k, v). v = brokerID) (leaders c))"

definition MovePartition ::
  "call_fault \<Rightarrow> save_faults \<Rightarrow> string \<Rightarrow> int \<Rightarrow> Controller \<times> disk \<Rightarrow> (Controller \<times> disk) option" where
  "MovePartition open_fault flt partitionKey newLeaderID s =
     Option.bind (loadLeaders open_fault flt s) (\<lambda>(c, d).
       if map_of (leaders c) partitionKey = Some newLeaderID then Some (c, d)
       else Option.bind (setLeader partitionKey newLeaderID c) (\<lambda>c. Some (c, saveLeaders flt c d)))"

section \<open>Rebalancer\<close>

record Rebalancer =
  rbInterval :: int
  rbThreshold :: int

definition NewRebalancer :: "int \<Rightarrow> int \<Rightarrow> Rebalancer" where
  "NewRebalancer interval threshold = \<lparr>rbInterval = interval, rbThreshold = threshold\<rparr>"

text \<open>\<open>produced\<close> is the counter of \<^verbatim>\<open>metrics.GetStats()\<close>.\<close>

definition checkLoad ::
  "call_fault \<Rightarrow> save_faults \<Rightarrow> int \<Rightarrow> Rebalancer \<Rightarrow> Controller \<times> disk \<Rightarrow> (Controller \<times> disk) option" where
  "checkLoad open_fault flt produced rb s =
     (if produced > rbThreshold rb
      then MovePartition open_fault flt ''test-0'' (go_mod (ctBrokerID (fst s) + 1) 3) s
      else Some s)"

section \<open>What the file holds\<close>

definition wf_map :: "(string \<times> int) list \<Rightarrow> bool" where
  "wf_map m \<longleftrightarrow> distinct (map fst m) \<and> (\<forall>(k, n) \<in> set m. ascii k \<and> in_int64 n)"

definition wf_controller :: "Controller \<Rightarrow> bool" where
  "wf_controller c \<longleftrightarrow> ctLeaders c = Some (leaders c) \<and> wf_map (leaders c) \<and> in_int64 (ctBrokerID c)"

definition on_file :: "string \<Rightarrow> (string \<times> int) list \<Rightarrow> disk \<Rightarrow> bool" where
  "on_file path m d \<longleftrightarrow> wf_map m \<and> d path = Some (bytes_of (leaders_json (Some m)))"

lemma leaders_upd [simp]: "leaders (c\<lparr>ctLeaders := Some m\<rparr>) = m"
  by (simp add: leaders_def)

lemma wf_map_update: "wf_map m \<Longrightarrow> ascii k \<Longrightarrow> in_int64 n \<Longrightarrow> wf_map (AList.update k n m)"
  using set_update_subset [of k n m] by (auto simp: wf_map_def distinct_update)

lemma decode_members:
  assumes "wf_map m0" "wf_map m"
  shows "wf_map (foldl decode_member m0 (map (\<lambda>(k, n). (k, JNum (itoa n))) m))
    \<and> map_of (foldl decode_member m0 (map (\<lambda>(k, n). (k, JNum (itoa n))) m)) = map_of m0 ++ map_of m"
  using assms
proof (induction m arbitrary: m0)
  case Nil
  then show ?case by simp
next
  case (Cons x m)
  obtain k n where x: "x = (k, n)" by (cases x)
  have kn: "ascii k" "in_int64 n" "wf_map m" "k \<notin> fst ` set m" using Cons.prems(2) by (auto simp: wf_map_def x)
  have step: "decode_member m0 (k, JNum (itoa n)) = AList.update k n m0"
    using kn(2) by (simp add: decode_member_def)
  have "map_of m k = None" using kn(4) by (simp add: map_of_eq_None_iff)
  then have eq: "map_of (AList.update k n m0) ++ map_of m = map_of m0 ++ map_of ((k, n) # m)"
    by (auto simp: update_conv' map_add_def fun_eq_iff split: option.split)
  show ?case
    using Cons.IH [OF wf_map_update [OF Cons.prems(1) kn(1,2)] kn(3)]
    by (simp only: eq x list.map(2) foldl_Cons prod.case step)
qed

lemma wf_map_sort:
  assumes "wf_map m"
  shows "wf_map (sort_key fst m)" "map_of (sort_key fst m) = map_of m"
proof -
  have d: "distinct (map fst (sort_key fst m))" using assms by (simp add: wf_map_def distinct_map)
  then show "wf_map (sort_key fst m)" using assms by (simp add: wf_map_def)
  show "map_of (sort_key fst m) = map_of m"
    using d assms by (intro map_of_inject_set [THEN iffD2]) (simp_all add: wf_map_def)
qed

lemma decode_leaders_json:
  assumes "wf_map m0" "wf_map m"
  shows "\<exists>m'. decode_leaders (leaders_json (Some m)) (Some m0) = Some m' \<and> wf_map m' \<and> map_of m' = map_of m0 ++ map_of m"
proof -
  have "list_all (\<lambda>(k, n). ascii k) (sort_key fst m)"
    using assms(2) by (auto simp: wf_map_def list_all_iff)
  then have "json_first (leaders_json (Some m)) = Some (JObj (map (\<lambda>(k, n). (k, JNum (itoa n))) (sort_key fst m)))"
    by (simp add: leaders_json_def json_first_ints)
  then show ?thesis
    using decode_members [OF assms(1) wf_map_sort(1) [OF assms(2)]] wf_map_sort(2) [OF assms(2)]
    by (simp add: decode_leaders_def)
qed

lemma loadLeaders_file:
  assumes "wf_controller c" "on_file (ctLeadersPath c) m d"
  obtains c' where "loadLeaders None flt (c, d) = Some (c', d)" "wf_controller c'"
    "ctBrokerID c' = ctBrokerID c" "ctLeadersPath c' = ctLeadersPath c"
    "ctActiveNodes c' = ctActiveNodes c" "map_of (leaders c') = map_of (leaders c) ++ map_of m"
proof -
  obtain m' where "decode_leaders (leaders_json (Some m)) (Some (leaders c)) = Some m'" "wf_map m'"
      "map_of m' = map_of (leaders c) ++ map_of m"
    using decode_leaders_json assms unfolding wf_controller_def on_file_def by blast
  with assms show thesis
    by (intro that [of "c\<lparr>ctLeaders := Some m'\<rparr>"])
      (simp_all add: loadLeaders_def wf_controller_def on_file_def)
qed

lemma saveLeaders_file:
  "wf_controller c \<Longrightarrow> on_file (ctLeadersPath c) (leaders c) (saveLeaders no_save_faults c d)"
  by (simp add: on_file_def saveLeaders_def no_save_faults_def wf_controller_def)

lemma setLeader_wf:
  assumes "wf_controller c" "ascii k" "in_int64 l"
  obtains c' where "setLeader k l c = Some c'" "wf_controller c'" "ctBrokerID c' = ctBrokerID c"
    "ctLeadersPath c' = ctLeadersPath c" "ctActiveNodes c' = ctActiveNodes c"
    "map_of (leaders c') = (map_of (leaders c))(k \<mapsto> l)"
proof -
  have "setLeader k l c = Some (c\<lparr>ctLeaders := Some (AList.update k l (leaders c))\<rparr>)"
    using assms(1) by (metis (mono_tags) setLeader_def wf_controller_def option.simps(9))
  with assms show thesis
    by (intro that [of "c\<lparr>ctLeaders := Some (AList.update k l (leaders c))\<rparr>"])
      (simp_all add: wf_controller_def wf_map_update update_conv')
qed

section \<open>Views\<close>

text \<open>The view in which a broker checks its peers: itself and the heartbeats it has seen.\<close>

definition view :: "int \<Rightarrow> Controller \<Rightarrow> (int \<times> int) list" where
  "view now c = AList.update (ctBrokerID c) now (ctActiveNodes c)"

lemma alive_self [simp]: "alive now (view now c) (ctBrokerID c)"
  by (simp add: alive_def view_def update_conv' lease_def)

section \<open>Heartbeats\<close>

lemma SkipSpace_printable:
  assumes "is_digit c \<or> c = CHR ''-''"
  shows "SkipSpace (c # cs) = c # cs"
proof -
  have code: "32 < (of_char c :: nat)" "(of_char c :: nat) < 128" using assms by (auto simp: is_digit_def)
  have "c \<noteq> x" if "of_char x \<le> (32 :: nat) \<or> 128 \<le> (of_char x :: nat)" for x using code that by auto
  then have "c \<notin> {CHR 0x09, CHR 0x0B, CHR 0x0C, CHR 0x0D, CHR '' '', CHR 0xC2, CHR 0xE1, CHR 0xE2, CHR 0xE3}" by simp
  then have "space_bytes (c # cs) = 0" by (simp add: space_bytes_def wide_space_def)
  then show ?thesis by (subst SkipSpace.simps) simp
qed

lemma scan_int_prefix_itoa: "in_int64 n \<Longrightarrow> scan_int_prefix (itoa n) = n"
proof -
  assume n: "in_int64 n"
  have all: "takeWhile is_digit (decimal k) = decimal k" for k
    using decimal_props(2) [of k] by (simp add: takeWhile_eq_all_conv list_all_iff)
  obtain d ds where d: "decimal (nat n) = d # ds" "is_digit d" by (rule decimal_Cons)
  have takeWhile_ds: "takeWhile is_digit ds = ds" using all [of "nat n"] d by simp
  have "SkipSpace (itoa n) = itoa n" using d by (simp add: itoa_def SkipSpace_printable)
  then have "scan_int_prefix (itoa n) = (case Atoi (itoa n) of Some n \<Rightarrow> n | None \<Rightarrow> 0)"
    using d by (auto simp: scan_int_prefix_def itoa_def all takeWhile_ds)
  then show ?thesis using n by simp
qed

lemma heartbeat_keeps_alive:
  assumes "in_int64 i" "t \<le> now" "now - t \<le> lease" "i \<noteq> ctBrokerID c"
  shows "alive now (view now (receiveHeartbeat t (itoa i) c)) i"
  using assms by (simp add: alive_def view_def receiveHeartbeat_def scan_int_prefix_itoa update_conv')

section \<open>Properties\<close>

text \<open>What a broker saved, a restarted broker loads: it finds the same leader for every partition.\<close>

theorem leaders_survive_restart:
  assumes "wf_controller c" "ctLeadersPath c = ctLeadersPath (NewController shared b dir)" "in_int64 b"
  shows "\<exists>c'. loadLeaders None flt (NewController shared b dir, saveLeaders no_save_faults c d)
      = Some (c', saveLeaders no_save_faults c d)
    \<and> (\<forall>topic part. GetLeader topic part c' = GetLeader topic part c)"
proof -
  let ?n = "NewController shared b dir"
  have wf: "wf_controller ?n" and none: "leaders ?n = []"
    using assms(3) by (simp_all add: NewController_def wf_controller_def leaders_def wf_map_def Let_def)
  have f: "on_file (ctLeadersPath ?n) (leaders c) (saveLeaders no_save_faults c d)"
    using saveLeaders_file [OF assms(1), of d] assms(2) by simp
  obtain c' where "loadLeaders None flt (?n, saveLeaders no_save_faults c d) = Some (c', saveLeaders no_save_faults c d)"
      "map_of (leaders c') = map_of (leaders ?n) ++ map_of (leaders c)"
    by (rule loadLeaders_file [OF wf f])
  then show ?thesis by (simp add: none GetLeader_def)
qed

theorem leaders_survive_restart_witness:
  "\<exists>c'. loadLeaders None no_save_faults (NewController False 2 ''d'',
        saveLeaders no_save_faults ((NewController False 1 ''d'')\<lparr>ctLeaders := Some [(''test-0'', 1)]\<rparr>) Map.empty)
      = Some (c', saveLeaders no_save_faults ((NewController False 1 ''d'')\<lparr>ctLeaders := Some [(''test-0'', 1)]\<rparr>) Map.empty)
    \<and> GetLeader ''test'' 0 c' = 1"
proof -
  let ?c = "(NewController False 1 ''d'')\<lparr>ctLeaders := Some [(''test-0'', 1)]\<rparr>"
  have wf: "wf_controller ?c" "ctLeadersPath ?c = ctLeadersPath (NewController False 2 ''d'')" "in_int64 2"
    by (simp_all add: NewController_def Let_def wf_controller_def wf_map_def ascii_def in_int64_def leaders_def)
  have "partition_key ''test'' 0 = ''test-0''" by code_simp
  then have "GetLeader ''test'' 0 ?c = 1" by (simp add: GetLeader_def)
  with leaders_survive_restart [OF wf, of no_save_faults Map.empty] show ?thesis by auto
qed

end
