(* ===== verification/Retry.thy ===== *)
theory Retry
  imports Wire_Request Go_Strings
begin

text \<open>
  \<^verbatim>\<open>internal/consumer/retry.go\<close> and \<^verbatim>\<open>internal/consumer/dlq.go\<close>: counting failed deliveries, delayed
  redelivery and the dead letter queue. What a handler starts in the background is its result, a \<open>retry_action\<close>; the two client
  sessions such an action runs are written over an arbitrary writer, and ignore every error.
\<close>

section \<open>Operations\<close>

record RetryManager =
  rtMaxRetries :: int
  rtFailures :: "string \<Rightarrow> int"

definition GlobalRetryManager :: RetryManager where
  "GlobalRetryManager = \<lparr>rtMaxRetries = 3, rtFailures = (\<lambda>_. 0)\<rparr>"

datatype retry_action =
    ToDLQ string bytes bytes
  | Redeliver int string bytes bytes

definition retry_key :: "string \<Rightarrow> string \<Rightarrow> int \<Rightarrow> int \<Rightarrow> string" where
  "retry_key grp topic part offset = grp @ ''-'' @ topic @ ''-'' @ itoa part @ ''-'' @ itoa offset"

definition second :: int where
  "second = 10 ^ 9"

definition HandleFailure ::
  "string \<Rightarrow> string \<Rightarrow> int \<Rightarrow> int \<Rightarrow> bytes \<Rightarrow> bytes \<Rightarrow> RetryManager \<Rightarrow> retry_action \<times> RetryManager" where
  "HandleFailure grp topic part offset key value rm =
     (let k = retry_key grp topic part offset;
          retries = rtFailures rm k + 1;
          rm = rm\<lparr>rtFailures := (rtFailures rm)(k := retries)\<rparr>
      in if retries \<ge> rtMaxRetries rm then (ToDLQ topic key value, rm)
         else (Redeliver (2 ^ nat retries * second) topic key value, rm))"

definition admin_login :: Request where
  "admin_login = (new_request ReqAuthenticate [])\<lparr>rqUsername := ''admin'', rqPassword := ''admin''\<rparr>"

definition produce_request :: "string \<Rightarrow> bytes \<Rightarrow> bytes \<Rightarrow> Request" where
  "produce_request topic key value = (new_request ReqProduce topic)\<lparr>rqKey := key, rqValue := value\<rparr>"

text \<open>The bytes a session sends when it could dial; the response to the login is read and dropped.\<close>

definition reproduceMessage :: "call_fault \<Rightarrow> 's writer \<Rightarrow> string \<Rightarrow> bytes \<Rightarrow> bytes \<Rightarrow> 's write_op" where
  "reproduceMessage dial w topic key value =
     (if dial \<noteq> None then wnil
      else ign (WriteRequest w admin_login) (WriteRequest w (produce_request topic key value)))"

definition SendToDLQ :: "call_fault \<Rightarrow> 's writer \<Rightarrow> string \<Rightarrow> bytes \<Rightarrow> bytes \<Rightarrow> 's write_op" where
  "SendToDLQ dial w originalTopic key value =
     (if dial \<noteq> None then wnil
      else ign (WriteRequest w admin_login) (WriteRequest w (produce_request (originalTopic @ ''-dlq'') key value)))"

lemma session_views:
  "wire_view admin_login = admin_login" "wire_view (produce_request t k v) = produce_request t k v"
  by (simp_all add: wire_view_def admin_login_def produce_request_def new_request_def Let_def Req_defs)

lemma admin_login_wf: "wf_request (wire_view admin_login)"
  unfolding session_views
  by (simp add: wf_request_def admin_login_def new_request_def known_type_def in_int32_def in_int64_def processed_ids_def)

lemma produce_request_wf:
  "length t < 65536 \<Longrightarrow> length k < 2 ^ 32 \<Longrightarrow> length v < 2 ^ 32 \<Longrightarrow> wf_request (wire_view (produce_request t k v))"
  unfolding session_views
  by (simp add: wf_request_def produce_request_def new_request_def known_type_def in_int32_def in_int64_def processed_ids_def)

text \<open>The counter's key joins its parts with the dash that names may contain: two groups can share a counter.\<close>

lemma retry_keys_collide: "retry_key ''a-b'' ''c'' p off = retry_key ''a'' ''b-c'' p off"
  by (simp add: retry_key_def)

section \<open>Properties\<close>

primrec failures :: "nat \<Rightarrow> string \<Rightarrow> string \<Rightarrow> int \<Rightarrow> int \<Rightarrow> bytes \<Rightarrow> bytes \<Rightarrow> RetryManager \<Rightarrow> retry_action list \<times> RetryManager" where
  "failures 0 g t p off k v rm = ([], rm)"
| "failures (Suc n) g t p off k v rm =
     (case failures n g t p off k v rm of (as, rm) \<Rightarrow>
      case HandleFailure g t p off k v rm of (a, rm) \<Rightarrow> (as @ [a], rm))"

text \<open>The first failure of a message is redelivered after 2 seconds, the second after 4 seconds, and the third
  and every later one sends it to the dead letter queue.\<close>

theorem retry_schedule:
  "fst (failures n g t p off k v GlobalRetryManager)
     = take n [Redeliver (2 * second) t k v, Redeliver (4 * second) t k v] @ replicate (n - 2) (ToDLQ t k v)"
proof -
  have "rtMaxRetries (snd (failures n g t p off k v GlobalRetryManager)) = 3
      \<and> rtFailures (snd (failures n g t p off k v GlobalRetryManager)) (retry_key g t p off) = int n
      \<and> fst (failures n g t p off k v GlobalRetryManager)
        = take n [Redeliver (2 * second) t k v, Redeliver (4 * second) t k v] @ replicate (n - 2) (ToDLQ t k v)"
  proof (induction n)
    case 0
    show ?case by (simp add: GlobalRetryManager_def)
  next
    case (Suc n)
    obtain as rm where f: "failures n g t p off k v GlobalRetryManager = (as, rm)" by fastforce
    have rm: "rtMaxRetries rm = 3" "rtFailures rm (retry_key g t p off) = int n"
      and as: "as = take n [Redeliver (2 * second) t k v, Redeliver (4 * second) t k v] @ replicate (n - 2) (ToDLQ t k v)"
      using Suc by (simp_all add: f)
    have step: "failures (Suc n) g t p off k v GlobalRetryManager
        = (case HandleFailure g t p off k v rm of (a, rm) \<Rightarrow> (as @ [a], rm))"
      by (simp add: f)
    consider "n = 0" | "n = 1" | m where "n = Suc (Suc m)" by (metis One_nat_def not0_implies_Suc)
    then show ?case
      unfolding step as by cases (simp_all add: HandleFailure_def rm Let_def replicate_append_same [symmetric])
  qed
  then show ?thesis by blast
qed

text \<open>What a redelivery sends decodes, at the broker, to a login as administrator followed by a
  produce request for the topic itself, and a dead letter to one for the topic with the suffix \<^verbatim>\<open>-dlq\<close>.\<close>

theorem retry_sessions_decode:
  assumes "length topic < 65500" "length key < 2 ^ 32" "length value < 2 ^ 32"
  shows "(\<exists>frames. reproduceMessage None buffer_write topic key value [] = (None, frames)
      \<and> rbind ReadRequest (\<lambda>a. rbind ReadRequest (\<lambda>b. rret (a, b))) (Reader frames e)
        = (Inr (admin_login, produce_request topic key value), Reader [] e))
    \<and> (\<exists>frames. SendToDLQ None buffer_write topic key value [] = (None, frames)
      \<and> rbind ReadRequest (\<lambda>a. rbind ReadRequest (\<lambda>b. rret (a, b))) (Reader frames e)
        = (Inr (admin_login, produce_request (topic @ ''-dlq'') key value), Reader [] e))"
proof -
  have sess: "\<exists>frames. ign (WriteRequest buffer_write admin_login) (WriteRequest buffer_write (produce_request t key value)) []
        = (None, frames)
      \<and> rbind ReadRequest (\<lambda>a. rbind ReadRequest (\<lambda>b. rret (a, b))) (Reader frames e)
        = (Inr (admin_login, produce_request t key value), Reader [] e)" if "length t < 65536" for t
    using that assms ReadRequest_frame [OF admin_login_wf, of "request_frame (produce_request t key value)" e]
      ReadRequest_frame [OF produce_request_wf, of t key "value" "[]" e]
    by (simp add: ign_def WriteRequest_buffer rd_defs session_views)
  from sess [of topic] sess [of "topic @ ''-dlq''"] show ?thesis
    using assms(1) by (simp add: reproduceMessage_def SendToDLQ_def)
qed

theorem retry_sessions_decode_witness:
  "\<exists>frames. SendToDLQ None buffer_write ''t'' [1] [2] [] = (None, frames)
      \<and> rbind ReadRequest (\<lambda>a. rbind ReadRequest (\<lambda>b. rret (a, b))) (Reader frames EOF)
        = (Inr (admin_login, produce_request ''t-dlq'' [1] [2]), Reader [] EOF)"
  using retry_sessions_decode [of "''t''" "[1]" "[2]" EOF] by simp

end
