(* ===== verification/Go_Float.thy ===== *)
theory Go_Float
  imports Go_Strings
begin

text \<open>
  \<^verbatim>\<open>float64\<close> values that are integers: the conversion \<^verbatim>\<open>float64(n)\<close>, which keeps 53 bits and rounds to the nearest value, to the even one in
  the middle, and the text that \<^verbatim>\<open>encoding/json\<close> writes for such a value, which below \<open>10 ^ 21\<close> has no exponent and has the least
  number of digits before its zeros from which the value can be read back, the nearest of them if there are two.

  The lemmas: up to \<open>2 ^ 53\<close> the conversion is exact and the text is the decimal number; beyond, the error is at most half the
  unit in the last place, and the text is that of a number which is converted to the same value. The examples are values at the boundaries.
\<close>

section \<open>Conversion\<close>

function bit_length :: "int \<Rightarrow> nat" where
  "bit_length n = (if n \<le> 0 then 0 else Suc (bit_length (n div 2)))"
  by auto
termination by (relation "measure nat") auto

declare bit_length.simps [simp del]

definition unit_last :: "int \<Rightarrow> int" where
  "unit_last n = 2 ^ (bit_length n - 53)"

definition round_even :: "int \<Rightarrow> int \<Rightarrow> int" where
  "round_even q n = (if 2 * (n mod q) < q \<or> 2 * (n mod q) = q \<and> even (n div q) then n div q * q else (n div q + 1) * q)"

text \<open>The magnitude, and then the value with its sign.\<close>

definition float64_abs :: "int \<Rightarrow> int" where
  "float64_abs n = round_even (unit_last n) n"

definition float64 :: "int \<Rightarrow> int" where
  "float64 i = (if i < 0 then - float64_abs (- i) else float64_abs i)"

section \<open>Text\<close>

definition candidate :: "nat \<Rightarrow> int \<Rightarrow> int option" where
  "candidate k f =
     (let p = 10 ^ k; lo = f div p * p; hi = lo + p in
      if float64_abs lo = f \<and> (float64_abs hi \<noteq> f \<or> f - lo \<le> hi - f) then Some lo
      else if float64_abs hi = f then Some hi else None)"

fun shortest :: "nat \<Rightarrow> int \<Rightarrow> int" where
  "shortest 0 f = f"
| "shortest (Suc k) f = (case candidate (Suc k) f of Some c \<Rightarrow> c | None \<Rightarrow> shortest k f)"

text \<open>Converted integers of 64 bits have at most 20 digits.\<close>

definition FormatFloat :: "int \<Rightarrow> string" where
  "FormatFloat f = itoa (if f < 0 then - shortest 20 (- f) else shortest 20 f)"

section \<open>Lemmas\<close>

lemma bit_length_0 [simp]: "n \<le> 0 \<Longrightarrow> bit_length n = 0"
  by (subst bit_length.simps) simp

lemma bit_length_pos: "0 < n \<Longrightarrow> bit_length n = Suc (bit_length (n div 2))"
  by (subst bit_length.simps) simp

lemma bit_length_above: "n < 2 ^ bit_length n"
proof (induction n rule: bit_length.induct)
  case (1 n)
  show ?case
  proof (cases "n \<le> 0")
    case False
    then have "n div 2 < 2 ^ bit_length (n div 2)" using 1 by blast
    then show ?thesis using bit_length_pos [of n] False by simp
  qed simp
qed

lemma bit_length_below: "0 < n \<Longrightarrow> 2 ^ bit_length n \<le> 2 * n"
proof (induction n rule: bit_length.induct)
  case (1 n)
  show ?case
  proof (cases "0 < n div 2")
    case True
    then have "2 ^ bit_length (n div 2) \<le> 2 * (n div 2)" using 1 by simp
    then show ?thesis using bit_length_pos [OF 1(2)] by simp
  next
    case False
    then show ?thesis using 1(2) bit_length_pos [OF 1(2)] by simp
  qed
qed

lemma bit_length_le: "n < 2 ^ b \<Longrightarrow> bit_length n \<le> b"
proof (rule ccontr)
  assume n: "n < 2 ^ b" and b: "\<not> bit_length n \<le> b"
  then have "0 < n" by (metis bit_length_0 le0 not_le)
  then have "2 ^ bit_length n \<le> 2 * n" by (rule bit_length_below)
  moreover have "(2::int) ^ Suc b \<le> 2 ^ bit_length n" using b by (intro power_increasing) simp_all
  ultimately show False using n by simp
qed

lemma unit_last_pos [simp]: "0 < unit_last n"
  by (simp add: unit_last_def)

lemma round_even_multiple: "q dvd n \<Longrightarrow> 0 < q \<Longrightarrow> round_even q n = n"
  by (auto simp: round_even_def)

lemma round_even_near: "0 < q \<Longrightarrow> 2 * \<bar>round_even q n - n\<bar> \<le> q"
proof -
  assume q: "0 < q"
  have n: "n = n div q * q + n mod q" "0 \<le> n mod q" "n mod q < q" using q by simp_all
  have "round_even q n - n = - (n mod q) \<or> round_even q n - n = q - n mod q \<and> q \<le> 2 * (n mod q)"
    using n(1) by (auto simp: round_even_def algebra_simps)
  moreover have "round_even q n - n = - (n mod q) \<Longrightarrow> 2 * (n mod q) \<le> q"
    using n q by (auto simp: round_even_def algebra_simps split: if_splits)
  ultimately show ?thesis using n(2,3) by auto
qed

lemma round_even_ge: "0 < q \<Longrightarrow> n div q * q \<le> round_even q n"
  by (simp add: round_even_def)

lemma float64_abs_multiple:
  assumes "d \<le> 2 ^ 53"
  shows "float64_abs (d * 2 ^ e) = d * 2 ^ e"
proof -
  let ?m = "d * 2 ^ e" and ?u = "if d = 2 ^ 53 then Suc e else e"
  have "?m < 2 ^ (53 + ?u)" using assms by (auto simp: power_add)
  then have "bit_length ?m \<le> 53 + ?u" by (rule bit_length_le)
  then have "unit_last ?m dvd 2 ^ ?u" unfolding unit_last_def by (intro le_imp_power_dvd) simp
  also have "2 ^ ?u dvd ?m"
  proof (cases "d = 2 ^ 53")
    case True
    have "(2::int) ^ Suc e dvd 2 ^ (53 + e)" by (rule le_imp_power_dvd) simp
    then show ?thesis using True by (simp add: power_add)
  qed simp
  finally show ?thesis by (simp add: float64_abs_def round_even_multiple)
qed

lemma float64_abs_exact: "n \<le> 2 ^ 53 \<Longrightarrow> float64_abs n = n"
  using float64_abs_multiple [of n 0] by simp

lemma float64_abs_large:
  assumes "2 ^ 53 \<le> n"
  shows "2 ^ 53 \<le> float64_abs n"
proof -
  let ?e = "bit_length n - 53"
  have "(2::int) ^ 53 < 2 ^ bit_length n" using bit_length_above [of n] assms by linarith
  then have "53 < bit_length n" by (simp only: power_strict_increasing_iff)
  then have l: "bit_length n = 53 + ?e" "0 < ?e" by simp_all
  have "2 ^ bit_length n \<le> 2 * n" using assms by (intro bit_length_below) simp
  moreover have "(2::int) ^ bit_length n = 2 * (2 ^ 52 * 2 ^ ?e)" by (subst l(1)) (simp add: power_add)
  ultimately have "2 ^ 52 * 2 ^ ?e \<le> n" by simp
  then have "2 ^ 52 * 2 ^ ?e div 2 ^ ?e \<le> n div 2 ^ ?e" by (intro zdiv_mono1) simp_all
  then have "2 ^ 52 \<le> n div 2 ^ ?e" by simp
  moreover have "(2::int) ^ 1 \<le> 2 ^ ?e" using l(2) by (intro power_increasing) simp_all
  ultimately have "2 ^ 52 * 2 \<le> n div 2 ^ ?e * 2 ^ ?e" by (intro mult_mono) simp_all
  then show ?thesis using round_even_ge [of "2 ^ ?e" n] by (simp add: float64_abs_def unit_last_def)
qed

lemma float64_abs_idem: "float64_abs (float64_abs n) = float64_abs n"
proof -
  let ?e = "bit_length n - 53"
  have "(2::int) ^ bit_length n \<le> 2 ^ (53 + ?e)" by (intro power_increasing) simp_all
  then have "n < 2 ^ 53 * 2 ^ ?e" using bit_length_above [of n] by (simp only: power_add)
  moreover have "0 \<le> n mod 2 ^ ?e" by (rule pos_mod_sign) simp
  then have "n div 2 ^ ?e * 2 ^ ?e \<le> n" using div_mult_mod_eq [of n "2 ^ ?e"] by linarith
  ultimately have "n div 2 ^ ?e * 2 ^ ?e < 2 ^ 53 * 2 ^ ?e" by linarith
  then have d: "n div 2 ^ ?e < 2 ^ 53" by (simp only: mult_less_cancel_right_pos zero_less_power zero_less_numeral)
  have "float64_abs n = n div 2 ^ ?e * 2 ^ ?e \<or> float64_abs n = (n div 2 ^ ?e + 1) * 2 ^ ?e"
    unfolding float64_abs_def round_even_def unit_last_def by presburger
  then show ?thesis using float64_abs_multiple [of "n div 2 ^ ?e" ?e] float64_abs_multiple [of "n div 2 ^ ?e + 1" ?e] d by auto
qed

lemma float64_abs_pos: "0 \<le> n \<Longrightarrow> 0 \<le> float64_abs n \<and> (float64_abs n = 0 \<longleftrightarrow> n = 0)"
  using float64_abs_exact [of n] float64_abs_large [of n] by (cases "n \<le> 2 ^ 53") auto

theorem float64_idem: "float64 (float64 i) = float64 i"
  using float64_abs_idem [of i] float64_abs_idem [of "- i"] float64_abs_pos [of i] float64_abs_pos [of "- i"] by (auto simp: float64_def)

theorem float64_exact: "\<bar>i\<bar> \<le> 2 ^ 53 \<Longrightarrow> float64 i = i"
  by (auto simp: float64_def float64_abs_exact)

theorem float64_near: "2 * \<bar>float64 i - i\<bar> \<le> unit_last \<bar>i\<bar>"
proof (cases "i < 0")
  case True
  then have "\<bar>float64 i - i\<bar> = \<bar>round_even (unit_last (- i)) (- i) - (- i)\<bar>" by (simp add: float64_def float64_abs_def abs_minus_commute)
  then show ?thesis using round_even_near [of "unit_last (- i)" "- i"] True by simp
next
  case False
  then show ?thesis using round_even_near [of "unit_last i" i] by (simp add: float64_def float64_abs_def)
qed

lemma shortest_reads_back: "float64_abs f = f \<Longrightarrow> float64_abs (shortest k f) = f"
  by (induction k) (auto simp: candidate_def Let_def split: option.split if_splits)

lemma shortest_pos: "0 \<le> f \<Longrightarrow> 0 \<le> shortest k f"
  by (induction k) (auto simp: candidate_def Let_def div_int_pos_iff split: option.split if_splits)

lemma shortest_exact: "f < 2 ^ 53 \<Longrightarrow> shortest k f = f"
  using shortest_reads_back [of f k] float64_abs_exact [of f] float64_abs_exact [of "shortest k f"] float64_abs_large [of "shortest k f"]
  by linarith

theorem FormatFloat_exact: "\<bar>i\<bar> < 2 ^ 53 \<Longrightarrow> FormatFloat i = itoa i"
  by (auto simp: FormatFloat_def shortest_exact)

lemma FormatFloat_examples:
  "FormatFloat (float64 (2 ^ 53 + 1)) = itoa 9007199254740992" "FormatFloat (float64 (2 ^ 63 - 1)) = itoa 9223372036854776000"
proof -
  have "float64 (2 ^ 53 + 1) = 9007199254740992" "shortest 20 9007199254740992 = 9007199254740992"
    "float64 (2 ^ 63 - 1) = 9223372036854775808" "shortest 20 9223372036854775808 = 9223372036854776000"
    by code_simp+
  then show "FormatFloat (float64 (2 ^ 53 + 1)) = itoa 9007199254740992" "FormatFloat (float64 (2 ^ 63 - 1)) = itoa 9223372036854776000"
    unfolding FormatFloat_def by presburger+
qed

theorem FormatFloat_reads_back: "float64 f = f \<Longrightarrow> \<exists>i. FormatFloat f = itoa i \<and> float64 i = f"
proof (cases "f < 0")
  case True
  assume f: "float64 f = f"
  let ?c = "shortest 20 (- f)"
  have c: "float64_abs ?c = - f" using f True by (intro shortest_reads_back) (simp add: float64_def)
  then have "0 < ?c" using True shortest_pos [of "- f" 20] float64_abs_pos [of ?c] by linarith
  then show ?thesis using c True by (intro exI [of _ "- ?c"]) (simp add: FormatFloat_def float64_def)
next
  case False
  assume f: "float64 f = f"
  then have "float64_abs (shortest 20 f) = f" using False by (intro shortest_reads_back) (simp add: float64_def)
  then show ?thesis using False shortest_pos [of f 20] by (intro exI [of _ "shortest 20 f"]) (simp add: FormatFloat_def float64_def)
qed

end
