(* ===== verification/Metrics.thy ===== *)
theory Metrics
  imports Complex_Main Go_Float
begin

text \<open>
  \<^verbatim>\<open>pkg/metrics/stats.go\<close>, \<^verbatim>\<open>internal/monitoring/metrics_collector.go\<close> and \<^verbatim>\<open>internal/ai/analyzer.go\<close>: counters of
  produced and consumed messages, the snapshot taken once a second and the rule-based analysis. Calls of the
  Prometheus client library are recorded as values, and its registry is an argument of \<open>metrics_init\<close>. Which label values it takes is
  an argument, too; \<^verbatim>\<open>WithLabelValues\<close> panics (\<open>None\<close>) for any other, and the library takes strings of valid UTF-8. Rates are \<^verbatim>\<open>float64\<close>
  values converted from integers, which are integers too; loads, also \<^verbatim>\<open>float64\<close>, are rationals, and the
  random number of the simulated load is an argument.
\<close>

section \<open>Collectors\<close>

datatype collector_kind = CounterVec | HistogramVec "rat list" | GaugeVec

record collector =
  coKind :: collector_kind
  coName :: string
  coHelp :: string
  coLabels :: "string list"

definition MessagesProduced :: collector where
  "MessagesProduced = \<lparr>coKind = CounterVec, coName = ''kafka_messages_produced_total'',
     coHelp = ''Total number of messages produced to a topic.'', coLabels = [''topic'']\<rparr>"

definition MessagesConsumed :: collector where
  "MessagesConsumed = \<lparr>coKind = CounterVec, coName = ''kafka_messages_consumed_total'',
     coHelp = ''Total number of messages consumed from a topic.'', coLabels = [''topic'']\<rparr>"

definition ProduceLatency :: collector where
  "ProduceLatency = \<lparr>coKind = HistogramVec [1 / 1000, 5 / 1000, 1 / 100, 1 / 10], coName = ''kafka_produce_latency_seconds'',
     coHelp = ''Latency in seconds for produce requests.'', coLabels = [''topic'']\<rparr>"

definition PartitionSize :: collector where
  "PartitionSize = \<lparr>coKind = GaugeVec, coName = ''kafka_partition_size_bytes'',
     coHelp = ''Current size in bytes of the partition log segment.'', coLabels = [''topic'']\<rparr>"

text \<open>\<open>register\<close> is \<^verbatim>\<open>prometheus.MustRegister\<close> on the library's registry; \<open>None\<close> is its panic.\<close>

definition metrics_init :: "(collector \<Rightarrow> 'r \<Rightarrow> 'r option) \<Rightarrow> 'r \<Rightarrow> 'r option" where
  "metrics_init register r =
     Option.bind (register MessagesProduced r) (\<lambda>r.
     Option.bind (register MessagesConsumed r) (\<lambda>r.
     Option.bind (register ProduceLatency r) (\<lambda>r.
     register PartitionSize r)))"

section \<open>Counters\<close>

record Stats =
  stMessagesProduced :: int
  stMessagesConsumed :: int

datatype prom_call =
    CounterAdd string string int
  | HistogramObserve string string rat
  | GaugeSet string string int

record Metrics =
  mtStats :: Stats
  mtProm :: "prom_call list"

definition no_metrics :: Metrics where
  "no_metrics = \<lparr>mtStats = \<lparr>stMessagesProduced = 0, stMessagesConsumed = 0\<rparr>, mtProm = []\<rparr>"

text \<open>\<open>label_ok\<close> says which label values the library takes; \<^verbatim>\<open>WithLabelValues\<close> panics for the others, which is \<open>None\<close>. (The library
  in use takes valid UTF-8.)\<close>

definition RecordProduce :: "(string \<Rightarrow> bool) \<Rightarrow> string \<Rightarrow> int \<Rightarrow> int \<Rightarrow> Metrics \<Rightarrow> Metrics option" where
  "RecordProduce label_ok topic sz duration m =
     (if \<not> label_ok topic then None
      else let m = m\<lparr>mtProm := mtProm m @ [CounterAdd (coName MessagesProduced) topic 1,
            HistogramObserve (coName ProduceLatency) topic (of_int duration / 10 ^ 9),
            GaugeSet (coName PartitionSize) topic sz]\<rparr>
      in Some (m\<lparr>mtStats := (mtStats m)\<lparr>stMessagesProduced := int64 (stMessagesProduced (mtStats m) + 1)\<rparr>\<rparr>))"

definition RecordConsume :: "(string \<Rightarrow> bool) \<Rightarrow> string \<Rightarrow> nat \<Rightarrow> Metrics \<Rightarrow> Metrics option" where
  "RecordConsume label_ok topic count m =
     (if \<not> label_ok topic then None
      else let m = m\<lparr>mtProm := mtProm m @ [CounterAdd (coName MessagesConsumed) topic (int count)]\<rparr>
      in Some (m\<lparr>mtStats := (mtStats m)\<lparr>stMessagesConsumed := int64 (stMessagesConsumed (mtStats m) + int count)\<rparr>\<rparr>))"

definition GetStats :: "Metrics \<Rightarrow> Stats" where
  "GetStats m = mtStats m"

section \<open>Snapshots\<close>

record MetricsSnapshot =
  msMessagesProducedTotal :: int
  msMessagesConsumedTotal :: int
  msProduceRate :: int
  msConsumeRate :: int

record MetricsCollector =
  mcSnapshot :: MetricsSnapshot
  mcLastProduced :: int
  mcLastConsumed :: int

definition GlobalCollector :: MetricsCollector where
  "GlobalCollector = \<lparr>mcSnapshot = \<lparr>msMessagesProducedTotal = 0, msMessagesConsumedTotal = 0,
     msProduceRate = 0, msConsumeRate = 0\<rparr>, mcLastProduced = 0, mcLastConsumed = 0\<rparr>"

text \<open>One tick of the collector's timer.\<close>

definition collect_tick :: "Stats \<Rightarrow> MetricsCollector \<Rightarrow> MetricsCollector" where
  "collect_tick stats m =
     (let totalProd = stMessagesProduced stats; totalCons = stMessagesConsumed stats;
          prodRate = float64 (int64 (totalProd - mcLastProduced m));
          consRate = float64 (int64 (totalCons - mcLastConsumed m))
      in m\<lparr>mcSnapshot := \<lparr>msMessagesProducedTotal = totalProd, msMessagesConsumedTotal = totalCons,
             msProduceRate = prodRate, msConsumeRate = consRate\<rparr>,
           mcLastProduced := totalProd, mcLastConsumed := totalCons\<rparr>)"

definition GetSnapshot :: "MetricsCollector \<Rightarrow> MetricsSnapshot" where
  "GetSnapshot m = mcSnapshot m"

section \<open>Analysis\<close>

record Insight =
  inLevel :: string
  inMessage :: string

record AIResponse =
  aiInsights :: "Insight list"
  aiStatus :: string
  aiCPULoad :: rat
  aiProduced :: int
  aiConsumed :: int

definition cpu_insight :: "rat \<Rightarrow> Insight" where
  "cpu_insight cpuLoad =
     (if cpuLoad > 90 then \<lparr>inLevel = ''CRITICAL'',
        inMessage = ''CPU usage is extremely high (>90%). Consider scaling out brokers or pausing non-essential producers.''\<rparr>
      else if cpuLoad > 75 then \<lparr>inLevel = ''WARNING'',
        inMessage = ''CPU usage is elevated. Monitor for potential degraded performance.''\<rparr>
      else \<lparr>inLevel = ''INFO'', inMessage = ''CPU usage is normal.''\<rparr>)"

definition lag_insights :: "Stats \<Rightarrow> Insight list" where
  "lag_insights stats =
     (let lag = int64 (stMessagesProduced stats - stMessagesConsumed stats);
          high = (if lag > 10000 then [\<lparr>inLevel = ''WARNING'',
            inMessage = ''High consumer lag detected (>10k messages). Add more consumer instances to the group.''\<rparr>] else []);
          lag = (if \<not> lag > 10000 \<and> lag < 0 then 0 else lag)
      in high @ (if lag = 0 \<and> stMessagesProduced stats > 0 then [\<lparr>inLevel = ''INFO'',
            inMessage = ''Consumers are fully caught up with producers. Optimal health.''\<rparr>] else []))"

definition AnalyzeCluster :: "rat \<Rightarrow> Metrics \<Rightarrow> AIResponse" where
  "AnalyzeCluster random m =
     (let stats = GetStats m; cpuLoad = 10 + random * 85 in
      \<lparr>aiInsights = cpu_insight cpuLoad # lag_insights stats, aiStatus = ''analyzed'', aiCPULoad = cpuLoad,
       aiProduced = stMessagesProduced stats, aiConsumed = stMessagesConsumed stats\<rparr>)"

section \<open>Lemmas\<close>

text \<open>The start does not panic, on a registry that refuses a collector only when its name is taken, and afterwards every call of
  \<open>RecordProduce\<close> and \<open>RecordConsume\<close> is to a registered collector.\<close>

definition prom_name :: "prom_call \<Rightarrow> string" where
  "prom_name c = (case c of CounterAdd n _ _ \<Rightarrow> n | HistogramObserve n _ _ \<Rightarrow> n | GaugeSet n _ _ \<Rightarrow> n)"

lemmas collector_defs = MessagesProduced_def MessagesConsumed_def ProduceLatency_def PartitionSize_def

lemma metrics_init_registers:
  assumes reg: "\<And>c r. coName c \<notin> names r \<Longrightarrow> \<exists>r'. register c r = Some r' \<and> names r' = insert (coName c) (names r)"
    and "names r = {}"
  obtains r' where "metrics_init register r = Some r'"
    "\<forall>m c. RecordProduce label_ok t sz dur no_metrics = Some m \<or> RecordConsume label_ok t n no_metrics = Some m \<longrightarrow> c \<in> set (mtProm m)
       \<longrightarrow> prom_name c \<in> names r'"
proof -
  obtain r1 where r1: "register MessagesProduced r = Some r1" "names r1 = {coName MessagesProduced}"
    using reg [of MessagesProduced r] assms(2) by auto
  obtain r2 where r2: "register MessagesConsumed r1 = Some r2" "names r2 = {coName MessagesConsumed, coName MessagesProduced}"
    using reg [of MessagesConsumed r1] r1(2) by (auto simp: collector_defs)
  obtain r3 where r3: "register ProduceLatency r2 = Some r3" "names r3 = insert (coName ProduceLatency) (names r2)"
    using reg [of ProduceLatency r2] r2(2) by (auto simp: collector_defs)
  obtain r4 where r4: "register PartitionSize r3 = Some r4" "names r4 = insert (coName PartitionSize) (names r3)"
    using reg [of PartitionSize r3] r3(2) r2(2) by (auto simp: collector_defs)
  show thesis
  proof (rule that [of r4])
    show "metrics_init register r = Some r4" using r1(1) r2(1) r3(1) r4(1) by (simp add: metrics_init_def)
    show "\<forall>m c. RecordProduce label_ok t sz dur no_metrics = Some m \<or> RecordConsume label_ok t n no_metrics = Some m \<longrightarrow> c \<in> set (mtProm m)
       \<longrightarrow> prom_name c \<in> names r4"
      by (auto simp: RecordProduce_def RecordConsume_def no_metrics_def prom_name_def r4(2) r3(2) r2(2) Let_def split: if_splits)
  qed
qed

text \<open>The rates of a run of ticks add up to the messages counted, while the counters stay within the 53 bits of a \<^verbatim>\<open>float64\<close>.\<close>

lemma rates_add_up:
  assumes "\<forall>s \<in> set ss. 0 \<le> stMessagesProduced s \<and> stMessagesProduced s < 2 ^ 53"
    and "0 \<le> mcLastProduced m" "mcLastProduced m < 2 ^ 53"
  shows "sum_list (map (\<lambda>i. msProduceRate (GetSnapshot (foldl (\<lambda>m s. collect_tick s m) m (take (Suc i) ss)))) [0..<length ss])
    = mcLastProduced (foldl (\<lambda>m s. collect_tick s m) m ss) - mcLastProduced m"
  using assms
proof (induction ss arbitrary: m)
  case (Cons s ss)
  have "in_int64 (stMessagesProduced s - mcLastProduced m)" using Cons.prems by (simp add: in_int64_def)
  moreover have "float64 (stMessagesProduced s - mcLastProduced m) = stMessagesProduced s - mcLastProduced m"
    by (rule float64_exact) (use Cons.prems in auto)
  ultimately have tick: "msProduceRate (GetSnapshot (collect_tick s m)) = stMessagesProduced s - mcLastProduced m"
      "mcLastProduced (collect_tick s m) = stMessagesProduced s"
    by (simp_all add: collect_tick_def GetSnapshot_def int64_id Let_def)
  have "[0..<length (s # ss)] = 0 # map Suc [0..<length ss]" by (simp add: upt_conv_Cons map_Suc_upt del: upt_Suc)
  then show ?case using Cons tick by (simp add: comp_def)
qed simp

text \<open>A cluster that has consumed more than it produced is reported as caught up.\<close>

lemma caught_up_when_ahead:
  assumes "0 < stMessagesProduced s" "stMessagesProduced s \<le> stMessagesConsumed s" "stMessagesConsumed s < 2 ^ 63"
  shows "map inLevel (lag_insights s) = [''INFO'']"
proof -
  have "in_int64 (stMessagesProduced s - stMessagesConsumed s)" using assms by (simp add: in_int64_def)
  then show ?thesis using assms by (simp add: lag_insights_def int64_id Let_def)
qed

end
