(* ===== verification/Server.thy ===== *)
theory Server
  imports Wire_Response Segment Group_Coordinator Producer_State Auth Deduplicator Schema_Registry
    Controller Retry Metrics
begin

text \<open>
  \<^verbatim>\<open>internal/broker/server.go\<close> and the leader's side of \<^verbatim>\<open>internal/broker/replication.go\<close>: the broker's state and
  the handling of requests.

  An open segment owns the contents of its two files; \<open>svDisk\<close> holds all other files, and \<open>disk_view\<close> is the
  directory as another process would see it. This is right as long as no two open topics have names that clean to the same
  path, which the step relations demand (\<open>own_file\<close> of \<open>Broker_System\<close>, the plain names of \<open>Broker_Life\<close>). A handler is one step;
  \<open>Idempotence\<close> takes the produce handler apart. The process-wide retry manager and metrics are part of the state, and
  background redeliveries are collected in \<open>svOutbox\<close>. Time and everything that can fail come from an
  environment. \<open>None\<close> is a panic, which in Go ends the whole broker process: a schema with an odd list of required fields, a flush
  interval that is not positive, or a topic that the metrics library does not take as a label.
\<close>

section \<open>Replication manager\<close>

text \<open>A connection is a number; \<open>rmClosed\<close> lists the connections the manager has closed.\<close>

record Replica =
  rpID :: string
  rpConn :: nat

record ReplicationManager =
  rmReplicas :: "(string \<times> Replica) list"
  rmClosed :: "nat list"

definition NewReplicationManager :: ReplicationManager where
  "NewReplicationManager = \<lparr>rmReplicas = [], rmClosed = []\<rparr>"

definition RegisterReplica :: "string \<Rightarrow> nat \<Rightarrow> ReplicationManager \<Rightarrow> ReplicationManager" where
  "RegisterReplica ident conn rm =
     (let rm = (case map_of (rmReplicas rm) ident of
            Some old \<Rightarrow> rm\<lparr>rmClosed := rmClosed rm @ [rpConn old]\<rparr> | None \<Rightarrow> rm)
      in rm\<lparr>rmReplicas := AList.update ident \<lparr>rpID = ident, rpConn = conn\<rparr> (rmReplicas rm)\<rparr>)"

definition RemoveReplica :: "string \<Rightarrow> ReplicationManager \<Rightarrow> ReplicationManager" where
  "RemoveReplica ident rm =
     (case map_of (rmReplicas rm) ident of
        Some rep \<Rightarrow> rm\<lparr>rmClosed := rmClosed rm @ [rpConn rep], rmReplicas := AList.delete ident (rmReplicas rm)\<rparr>
      | None \<Rightarrow> rm)"

definition replicate_request :: "string \<Rightarrow> int \<Rightarrow> bytes \<Rightarrow> bytes \<Rightarrow> Request" where
  "replicate_request topic offset key val =
     (new_request ReqReplicate topic)\<lparr>rqOffset := offset, rqKey := key, rqValue := val\<rparr>"

text \<open>One replica: write the request to its connection and read one response; \<open>None\<close> is an acknowledgement.\<close>

definition replicateToReplica ::
  "'s writer \<Rightarrow> string \<Rightarrow> int \<Rightarrow> bytes \<Rightarrow> bytes \<Rightarrow> 's \<times> reader \<Rightarrow> go_error option \<times> 's \<times> reader" where
  "replicateToReplica w topic offset key val conn =
     (case conn of (s, r) \<Rightarrow>
      (case WriteRequest w (replicate_request topic offset key val) s of
         (Some e, s) \<Rightarrow> (Some e, s, r)
       | (None, s) \<Rightarrow>
           (case ReadResponse False r of
              (Inl e, r) \<Rightarrow> (Some e, s, r)
            | (Inr resp, r) \<Rightarrow>
                if rsStatus resp \<noteq> StatusOk then (Some (Err ''replica returned error status''), s, r)
                else (None, s, r))))"

text \<open>\<open>outcome\<close> is the result of \<^verbatim>\<open>replicateToReplica\<close> for each replica within the two seconds. The first
  acknowledgement ends the wait; every replica that fails is removed, at the latest when the deadline passes, and the
  state is the one after that.\<close>

definition Replicate :: "(Replica \<Rightarrow> go_error option) \<Rightarrow> ReplicationManager \<Rightarrow> go_error option \<times> ReplicationManager" where
  "Replicate outcome rm =
     (let activeReplicas = map snd (rmReplicas rm) in
      if activeReplicas = [] then (None, rm)
      else (if list_ex (\<lambda>rep. outcome rep = None) activeReplicas then None
            else Some (Err ''replication timeout waiting for 1 ACK''),
            foldl (\<lambda>rm rep. if outcome rep \<noteq> None then RemoveReplica (rpID rep) rm else rm) rm activeReplicas))"

section \<open>State\<close>

record Server =
  svBrokerID :: int
  svDataDir :: string
  svTopics :: "(string \<times> Segment) list"
  svDisk :: disk
  svRepManager :: ReplicationManager
  svOffsetStore :: OffsetStore
  svController :: Controller
  svCoordinator :: GroupCoordinator
  svProducerSM :: IdempotentManager
  svDeduplicator :: Deduplicator
  svSchemaRegistry :: Registry
  svRebalancer :: Rebalancer
  svAcks :: int
  svFlushInt :: int
  svBatchSize :: int
  svShutdown :: bool
  svRetry :: RetryManager
  svOutbox :: "retry_action list"
  svMetrics :: Metrics

text \<open>What a request meets outside the state: the clock in nanoseconds (\<open>evNow\<close>), the milliseconds with which its record is stamped
  (\<open>evStamp\<close>), the time it takes, the outcomes of system calls, the texts of JSON errors, the acknowledgements of replicas, and the label
  values that the Prometheus library takes.\<close>

record env =
  evNow :: int
  evStamp :: int
  evElapsed :: int
  evOpen :: open_faults
  evFlush :: flush_faults
  evCommit :: commit_faults
  evFetch :: call_fault
  evSave :: write_fault
  evJsonErr :: "string \<Rightarrow> string"
  evAck :: "Replica \<Rightarrow> go_error option"
  evLabel :: "string \<Rightarrow> bool"

definition calm :: "int \<Rightarrow> int \<Rightarrow> (string \<Rightarrow> string) \<Rightarrow> (Replica \<Rightarrow> go_error option) \<Rightarrow> env" where
  "calm now stamp jerr ack = \<lparr>evNow = now, evStamp = stamp, evElapsed = 0, evOpen = no_open_faults, evFlush = no_faults,
     evCommit = no_commit_faults, evFetch = None, evSave = None, evJsonErr = jerr, evAck = ack, evLabel = ValidString\<rparr>"

definition NewServer ::
  "call_fault \<Rightarrow> call_fault \<Rightarrow> bool \<Rightarrow> int \<Rightarrow> string \<Rightarrow> int \<Rightarrow> int \<Rightarrow> int \<Rightarrow> int \<Rightarrow> int \<Rightarrow> disk \<Rightarrow> go_error + Server" where
  "NewServer mkdir mkdir2 shared brokerID dataDir acks flushInt batchSize rebInterval rebThreshold d =
     (case mkdir of Some e \<Rightarrow> Inl e | None \<Rightarrow>
      (case NewOffsetStore mkdir2 dataDir of Inl e \<Rightarrow> Inl e | Inr store \<Rightarrow>
       Inr \<lparr>svBrokerID = brokerID, svDataDir = dataDir, svTopics = [], svDisk = d,
         svRepManager = NewReplicationManager, svOffsetStore = store,
         svController = NewController shared brokerID dataDir, svCoordinator = NewGroupCoordinator,
         svProducerSM = NewIdempotentManager (24 * 3600 * 10 ^ 9), svDeduplicator = NewDeduplicator dataDir,
         svSchemaRegistry = NewRegistry, svRebalancer = NewRebalancer rebInterval rebThreshold,
         svAcks = acks, svFlushInt = flushInt, svBatchSize = batchSize, svShutdown = False,
         svRetry = GlobalRetryManager, svOutbox = [], svMetrics = no_metrics\<rparr>))"

section \<open>Topics\<close>

definition log_path :: "Server \<Rightarrow> string \<Rightarrow> string" where
  "log_path s topic = Join [svDataDir s, topic @ ''.log'']"

definition content :: "disk \<Rightarrow> string \<Rightarrow> bytes" where
  "content d path = (case d path of Some b \<Rightarrow> b | None \<Rightarrow> [])"

text \<open>\<^verbatim>\<open>storage.NewSegment\<close> on the files of a path; missing files are created empty.\<close>

definition openSegment :: "open_faults \<Rightarrow> string \<Rightarrow> int \<Rightarrow> int \<Rightarrow> disk \<Rightarrow> (go_error + Segment) option" where
  "openSegment flt path flushInt batchSize d =
     NewSegment flt path (content d path) (content d (getIndexPath path)) flushInt batchSize"

definition getOrCreateTopicSegment :: "env \<Rightarrow> string \<Rightarrow> Server \<Rightarrow> (go_error + Segment \<times> Server) option" where
  "getOrCreateTopicSegment ev topic s =
     (case map_of (svTopics s) topic of
        Some seg \<Rightarrow> Some (Inr (seg, s))
      | None \<Rightarrow>
          (case openSegment (evOpen ev) (log_path s topic) (svFlushInt s) (svBatchSize s) (svDisk s) of
             None \<Rightarrow> None
           | Some (Inl e) \<Rightarrow> Some (Inl e)
           | Some (Inr seg) \<Rightarrow> Some (Inr (seg, s\<lparr>svTopics := AList.update topic seg (svTopics s)\<rparr>))))"

definition setSegment :: "string \<Rightarrow> Segment \<Rightarrow> Server \<Rightarrow> Server" where
  "setSegment topic seg s = s\<lparr>svTopics := AList.update topic seg (svTopics s)\<rparr>"

text \<open>The files a closed segment leaves behind.\<close>

definition storeFiles :: "Segment \<Rightarrow> disk \<Rightarrow> disk" where
  "storeFiles seg d = d(segPath seg \<mapsto> segFile seg, getIndexPath (segPath seg) \<mapsto> idxFile (segIndex seg))"

definition disk_view :: "Server \<Rightarrow> disk" where
  "disk_view s = foldl (\<lambda>d (t, seg). storeFiles seg d) (svDisk s) (svTopics s)"

lemma getIndexPath_log: "p \<noteq> [] \<Longrightarrow> getIndexPath (p @ ''.log'') = p @ ''.index''"
  by (simp add: getIndexPath_def)

definition plain_topic :: "string \<Rightarrow> bool" where
  "plain_topic t \<longleftrightarrow> t \<noteq> [] \<and> CHR ''/'' \<notin> set t"

lemma plain_topic_ext: "plain_topic t \<Longrightarrow> ext = ''.log'' \<or> ext = ''.index'' \<Longrightarrow> plain (t @ ext)"
  by (cases t) (auto simp: plain_topic_def plain_def)

lemma topic_paths:
  assumes "svDataDir s \<noteq> []"
  obtains pre where "\<forall>t. plain_topic t \<longrightarrow> log_path s t = pre @ t @ ''.log'' \<and> getIndexPath (log_path s t) = pre @ t @ ''.index''
    \<and> Join [svDataDir s, t @ ''.index''] = pre @ t @ ''.index''"
proof -
  obtain pre where pre: "\<forall>e. plain e \<longrightarrow> Join [svDataDir s, e] = pre @ e" using assms by (rule Join_dir)
  show thesis
  proof (rule that [of pre], intro allI impI)
    fix t assume t: "plain_topic t"
    then have "Join [svDataDir s, t @ ''.log''] = (pre @ t) @ ''.log''" "Join [svDataDir s, t @ ''.index''] = pre @ t @ ''.index''"
      using pre plain_topic_ext by simp_all
    moreover have "pre @ t \<noteq> []" using t by (simp add: plain_topic_def)
    ultimately show "log_path s t = pre @ t @ ''.log'' \<and> getIndexPath (log_path s t) = pre @ t @ ''.index''
        \<and> Join [svDataDir s, t @ ''.index''] = pre @ t @ ''.index''"
      using getIndexPath_log [of "pre @ t"] by (simp add: log_path_def)
  qed
qed

section \<open>Request handlers\<close>

definition err_response :: "string \<Rightarrow> Response" where
  "err_response msg = (new_response StatusErr)\<lparr>rsErrMsg := msg\<rparr>"

definition ok_response :: "int \<Rightarrow> Response" where
  "ok_response off = (new_response StatusOk)\<lparr>rsOffset := off\<rparr>"

text \<open>The failure branch of an offset commit: the first record read at the offset goes to the retry manager.\<close>

definition handleFailedCommit :: "env \<Rightarrow> Request \<Rightarrow> Server \<Rightarrow> Server option" where
  "handleFailedCommit ev req s =
     (case getOrCreateTopicSegment ev (rqTopic req) s of
        None \<Rightarrow> None
      | Some (Inl e) \<Rightarrow> Some s
      | Some (Inr (seg, s)) \<Rightarrow>
          Some (case ReadRecords seg (rqOffset req) 1024 of
             ((rec # recs, next), err) \<Rightarrow>
               (case HandleFailure (rqGroupID req) (rqTopic req) (rqPartition req) (rqOffset req)
                       (lrKey rec) (lrValue rec) (svRetry s) of
                  (act, rm) \<Rightarrow> s\<lparr>svRetry := rm, svOutbox := svOutbox s @ [act]\<rparr>)
           | _ \<Rightarrow> s))"

definition processOffsetRequest :: "env \<Rightarrow> Request \<Rightarrow> Server \<Rightarrow> (Response \<times> Server) option" where
  "processOffsetRequest ev req s =
     (if rqType req = ReqOffsetCommit then
        Option.bind (if \<not> rqSuccess req then handleFailedCommit ev req s else Some s) (\<lambda>s.
        let s = (case rqProcessedIDs req of
                   None \<Rightarrow> s
                 | Some ids \<Rightarrow>
                     (case MarkProcessed (evSave ev) (rqGroupID req) ids (svDeduplicator s, svDisk s) of
                        (dd, d) \<Rightarrow> s\<lparr>svDeduplicator := dd, svDisk := d\<rparr>))
        in Some (case CommitOffset (evCommit ev) (svOffsetStore s) (rqGroupID req) (rqTopic req) (rqPartition req)
                  (rqOffset req) (svDisk s) of
             (Some e, d) \<Rightarrow> (err_response (error_text e), s\<lparr>svDisk := d\<rparr>)
           | (None, d) \<Rightarrow> (new_response StatusOk, s\<lparr>svDisk := d\<rparr>)))
      else
        Some (case FetchOffset (\<lambda>t. Err (evJsonErr ev t)) (evFetch ev) (svOffsetStore s) (rqGroupID req) (rqTopic req)
               (rqPartition req) (svDisk s) of
          (off, Some e) \<Rightarrow> (err_response (error_text e), s)
        | (off, None) \<Rightarrow> (ok_response off, s)))"

text \<open>After the append: remember the message id, then replicate and answer according to \<^verbatim>\<open>acks\<close>.\<close>

definition recordProduced :: "env \<Rightarrow> Request \<Rightarrow> int \<Rightarrow> Server \<Rightarrow> Server" where
  "recordProduced ev req off s =
     (if rqProducerID req \<noteq> 0 \<and> rqMessageID req \<noteq> []
      then s\<lparr>svProducerSM := RecordMessage (evNow ev) (rqProducerID req) (rqMessageID req) off (svProducerSM s)\<rparr>
      else s)"

definition acknowledge :: "env \<Rightarrow> Request \<Rightarrow> int \<Rightarrow> Segment \<Rightarrow> Server \<Rightarrow> (Response \<times> Server) option" where
  "acknowledge ev req off seg s =
     (case Replicate (evAck ev) (svRepManager s) of (repErr, rm) \<Rightarrow>
        let s = s\<lparr>svRepManager := rm\<rparr> in
        if svAcks s = 0 then Some (ok_response off, s)
        else if svAcks s \<noteq> 1 \<and> repErr \<noteq> None then Some (err_response (error_text (the repErr)), s)
        else map_option (\<lambda>m. (ok_response off, s\<lparr>svMetrics := m\<rparr>))
          (RecordProduce (evLabel ev) (rqTopic req) (Size seg) (evElapsed ev) (svMetrics s)))"

definition handleProduceRequest :: "env \<Rightarrow> Request \<Rightarrow> Segment \<Rightarrow> Server \<Rightarrow> (Response \<times> Server) option" where
  "handleProduceRequest ev req seg s =
     (case Validate (evJsonErr ev) (rqTopic req) (rqValue req) (svSchemaRegistry s) of
        None \<Rightarrow> None
      | Some (Some e) \<Rightarrow> Some (err_response (''ErrInvalidSchema: '' @ error_text e), s)
      | Some None \<Rightarrow>
          (let dup = CheckDuplicate (evNow ev) (rqProducerID req) (rqMessageID req) (svProducerSM s) in
           if rqProducerID req \<noteq> 0 \<and> rqMessageID req \<noteq> [] \<and> snd dup then Some (ok_response (fst dup), s)
           else
             (case AppendBatch (evFlush ev) (evStamp ev) (rqKey req) (rqValue req) seg of (off, seg) \<Rightarrow>
                acknowledge ev req off seg (recordProduced ev req off (setSegment (rqTopic req) seg s)))))"

definition keepRecord :: "Request \<Rightarrow> LogRecord \<Rightarrow> bool" where
  "keepRecord req r \<longleftrightarrow>
     \<not> (rqStartTime req > 0 \<and> lrTimestamp r < rqStartTime req)
     \<and> \<not> (rqEndTime req > 0 \<and> lrTimestamp r > rqEndTime req)"

definition wireRecord :: "LogRecord \<Rightarrow> Record" where
  "wireRecord r = \<lparr>recTimestamp = lrTimestamp r, recOffset = lrOffset r, recKey = lrKey r, recValue = lrValue r\<rparr>"

definition handleConsumeRequest :: "env \<Rightarrow> Request \<Rightarrow> Segment \<Rightarrow> Server \<Rightarrow> (Response \<times> Server) option" where
  "handleConsumeRequest ev req seg s =
     (case ReadRecords seg (rqOffset req) (rqMaxBytes req) of
        ((records, nextOffset), Some e) \<Rightarrow> Some (err_response (error_text e), s)
      | ((records, nextOffset), None) \<Rightarrow>
          map_option (\<lambda>m. ((new_response StatusOk)\<lparr>rsOffset := nextOffset, rsRecords := Some (map wireRecord (filter (keepRecord req) records))\<rparr>,
             s\<lparr>svMetrics := m\<rparr>))
            (RecordConsume (evLabel ev) (rqTopic req) (length records) (svMetrics s)))"

definition processGroupRequest :: "Request \<Rightarrow> Server \<Rightarrow> (Response \<times> Server) option" where
  "processGroupRequest req s =
     (if rqType req = ReqJoinGroup then
        map_option (\<lambda>(gen, gc). ((new_response StatusOk)\<lparr>rsGeneration := gen, rsAssignment := Some []\<rparr>, s\<lparr>svCoordinator := gc\<rparr>))
          (JoinGroup (rqGroupID req) (rqMemberID req) (rqTopics req) (svCoordinator s))
      else Some ((new_response StatusOk)\<lparr>rsAssignment := Some (SyncGroup (rqGroupID req) (rqMemberID req) (svCoordinator s))\<rparr>, s))"

definition parseTopicPartition :: "string \<Rightarrow> string \<times> int" where
  "parseTopicPartition topic =
     (let idx = LastIndex topic CHR ''-'' in
      if idx \<noteq> - 1 then
        (case Atoi (drop (nat (idx + 1)) topic) of
           Some val \<Rightarrow> (take (nat idx) topic, int32 val)
         | None \<Rightarrow> (topic, 0))
      else (topic, 0))"

definition isLeaderFor :: "string \<Rightarrow> Server \<Rightarrow> bool" where
  "isLeaderFor topic s =
     (case parseTopicPartition topic of (baseTopic, part) \<Rightarrow> GetLeader baseTopic part (svController s) = svBrokerID s)"

definition processRequest :: "env \<Rightarrow> Request \<Rightarrow> string \<Rightarrow> Server \<Rightarrow> (Response \<times> Server) option" where
  "processRequest ev req role s =
     (if rqType req = ReqOffsetCommit \<or> rqType req = ReqOffsetFetch then processOffsetRequest ev req s
      else if rqType req = ReqJoinGroup \<or> rqType req = ReqSyncGroup then processGroupRequest req s
      else if rqType req = ReqRegisterSchema then
        (case Register (evJsonErr ev) (rqTopic req) (rqSchemaDef req) (svSchemaRegistry s) of
           (Some e, r) \<Rightarrow> Some (err_response (error_text e), s)
         | (None, r) \<Rightarrow> Some (new_response StatusOk, s\<lparr>svSchemaRegistry := r\<rparr>))
      else if \<not> isLeaderFor (rqTopic req) s then Some (err_response ''Not Leader'', s)
      else case getOrCreateTopicSegment ev (rqTopic req) s of
          None \<Rightarrow> None
        | Some (Inl e) \<Rightarrow> Some (err_response (error_text e), s)
        | Some (Inr (seg, s)) \<Rightarrow>
            if rqType req = ReqProduce then
              (if \<not> CanProduce role then Some (err_response ''permission denied'', s)
               else handleProduceRequest ev req seg s)
            else if rqType req = ReqConsume then
              (if \<not> CanConsume role then Some (err_response ''permission denied'', s)
               else handleConsumeRequest ev req seg s)
            else Some (err_response ''invalid request type'', s))"

definition ServerGetLedPartitions :: "Server \<Rightarrow> string list" where
  "ServerGetLedPartitions s = GetLedPartitions (svBrokerID s) (svController s)"

section \<open>What requests never change\<close>

text \<open>Configuration, controller and life cycle are left alone by every request.\<close>

definition config :: "Server \<Rightarrow> int \<times> string \<times> OffsetStore \<times> Controller \<times> int \<times> int \<times> int \<times> bool" where
  "config s = (svBrokerID s, svDataDir s, svOffsetStore s, svController s, svAcks s, svFlushInt s, svBatchSize s, svShutdown s)"

lemma getOrCreate_frame:
  assumes "getOrCreateTopicSegment ev topic s = Some (Inr (seg, s'))"
  obtains ts where "s' = s\<lparr>svTopics := ts\<rparr>" "map_of ts topic = Some seg"
    "\<And>t. t \<noteq> topic \<Longrightarrow> map_of ts t = map_of (svTopics s) t"
proof (cases "map_of (svTopics s) topic")
  case None
  with assms show thesis
    by (intro that [of "AList.update topic seg (svTopics s)"])
      (auto simp: getOrCreateTopicSegment_def update_conv' split: sum.splits option.splits)
next
  case (Some a)
  with assms show thesis by (intro that [of "svTopics s"]) (auto simp: getOrCreateTopicSegment_def)
qed

lemma config_upd [simp]:
  "config (s\<lparr>svTopics := a\<rparr>) = config s" "config (s\<lparr>svDisk := b\<rparr>) = config s"
  "config (s\<lparr>svRetry := c\<rparr>) = config s" "config (s\<lparr>svOutbox := d\<rparr>) = config s"
  "config (s\<lparr>svDeduplicator := e\<rparr>) = config s" "config (s\<lparr>svProducerSM := f\<rparr>) = config s"
  "config (s\<lparr>svRepManager := g\<rparr>) = config s" "config (s\<lparr>svMetrics := h\<rparr>) = config s"
  "config (s\<lparr>svCoordinator := i\<rparr>) = config s" "config (s\<lparr>svSchemaRegistry := j\<rparr>) = config s"
  by (simp_all add: config_def)

lemma getOrCreate_config: "getOrCreateTopicSegment ev topic s = Some (Inr (seg, s')) \<Longrightarrow> config s' = config s"
  by (erule getOrCreate_frame) simp

lemma handleFailedCommit_frame:
  assumes "handleFailedCommit ev req s = Some s'"
  obtains (result) ts rm out where "s' = s\<lparr>svTopics := ts, svRetry := rm, svOutbox := out\<rparr>" "config s' = config s"
proof (cases "getOrCreateTopicSegment ev (rqTopic req) s")
  case (Some x)
  show thesis
  proof (cases x)
    case (Inl e)
    then show thesis using result [where ts = "svTopics s" and rm = "svRetry s" and out = "svOutbox s"] assms Some by (simp add: handleFailedCommit_def)
  next
    case (Inr y)
    obtain seg s1 where y: "y = (seg, s1)" by (cases y)
    from Some [unfolded Inr y] obtain ts where s1: "s1 = s\<lparr>svTopics := ts\<rparr>" by (rule getOrCreate_frame)
    have "s' = s1 \<or> (\<exists>rm out. s' = s1\<lparr>svRetry := rm, svOutbox := out\<rparr>)"
      using assms by (auto simp: handleFailedCommit_def Some Inr y split: prod.splits list.splits)
    then show thesis
    proof
      assume "s' = s1"
      then show thesis using result [where ts = ts and rm = "svRetry s" and out = "svOutbox s"] s1 by simp
    next
      assume "\<exists>rm out. s' = s1\<lparr>svRetry := rm, svOutbox := out\<rparr>"
      then obtain rm out where "s' = s1\<lparr>svRetry := rm, svOutbox := out\<rparr>" by blast
      then show thesis using result [where ts = ts and rm = rm and out = out] s1 by simp
    qed
  qed
qed (use assms in \<open>simp add: handleFailedCommit_def\<close>)

lemma processOffsetRequest_frame:
  assumes "processOffsetRequest ev req s = Some (resp, s')"
  obtains ts rm out dd d where "s' = s\<lparr>svTopics := ts, svRetry := rm, svOutbox := out, svDeduplicator := dd, svDisk := d\<rparr>"
proof (cases "rqType req = ReqOffsetCommit")
  case True
  then obtain s1 where s1: "(if \<not> rqSuccess req then handleFailedCommit ev req s else Some s) = Some s1"
    using assms by (auto simp: processOffsetRequest_def split: bind_splits)
  obtain ts rm out where f: "s1 = s\<lparr>svTopics := ts, svRetry := rm, svOutbox := out\<rparr>"
  proof (cases "rqSuccess req")
    case True
    then show thesis using s1 that [where ts = "svTopics s" and rm = "svRetry s" and out = "svOutbox s"] by simp
  next
    case False
    then have "handleFailedCommit ev req s = Some s1" using s1 by simp
    then show thesis using that by (rule handleFailedCommit_frame)
  qed
  have "s' = s1\<lparr>svDeduplicator := svDeduplicator s', svDisk := svDisk s'\<rparr>"
    using assms True s1 by (auto simp: processOffsetRequest_def Let_def split: prod.splits option.splits)
  then show thesis using that [where ts = ts and rm = rm and out = out and dd = "svDeduplicator s'" and d = "svDisk s'"] f
    by simp
next
  case False
  then have "s' = s" using assms by (auto simp: processOffsetRequest_def split: prod.splits option.splits)
  then show thesis using that [where ts = "svTopics s" and rm = "svRetry s" and out = "svOutbox s" and dd = "svDeduplicator s" and d = "svDisk s"] by simp
qed

lemma processOffsetRequest_config: "processOffsetRequest ev req s = Some (resp, s') \<Longrightarrow> config s' = config s"
  by (erule processOffsetRequest_frame) simp

text \<open>An acknowledgement changes the replicas and the metrics only.\<close>

lemma acknowledge_cases:
  assumes "acknowledge ev req off seg s = Some (resp, s')"
  obtains rm m where "s' = s\<lparr>svRepManager := rm, svMetrics := m\<rparr>"
proof -
  have "\<exists>rm m. s' = s\<lparr>svRepManager := rm, svMetrics := m\<rparr>"
  proof (cases "svMetrics s' = svMetrics s")
    case True
    with assms have "s' = s\<lparr>svRepManager := svRepManager s', svMetrics := svMetrics s\<rparr>"
      by (auto simp: acknowledge_def Let_def split: prod.splits if_splits)
    then show ?thesis by blast
  next
    case False
    with assms have "s' = s\<lparr>svRepManager := svRepManager s', svMetrics := svMetrics s'\<rparr>"
      by (auto simp: acknowledge_def Let_def split: prod.splits if_splits)
    then show ?thesis by blast
  qed
  then show thesis using that by blast
qed

lemma acknowledge_frame:
  assumes "acknowledge ev req off seg s = Some (resp, s')"
  shows "config s' = config s" "svTopics s' = svTopics s" "svProducerSM s' = svProducerSM s"
    "svSchemaRegistry s' = svSchemaRegistry s" "svCoordinator s' = svCoordinator s"
    "svDeduplicator s' = svDeduplicator s" "svDisk s' = svDisk s"
  using assms by (auto elim!: acknowledge_cases)

lemma consume_cases:
  assumes "handleConsumeRequest ev req seg s = Some (resp, s')"
  obtains m where "s' = s\<lparr>svMetrics := m\<rparr>"
proof -
  have "s' = s \<or> (\<exists>m. s' = s\<lparr>svMetrics := m\<rparr>)"
    using assms by (auto simp: handleConsumeRequest_def split: prod.splits option.splits)
  then show thesis using that [of "svMetrics s"] that by auto
qed

lemma recordProduced_frame:
  "config (recordProduced ev req off s) = config s"
  "svTopics (recordProduced ev req off s) = svTopics s"
  "svSchemaRegistry (recordProduced ev req off s) = svSchemaRegistry s"
  "svCoordinator (recordProduced ev req off s) = svCoordinator s"
  "svRepManager (recordProduced ev req off s) = svRepManager s"
  "svAcks (recordProduced ev req off s) = svAcks s"
  by (simp_all add: recordProduced_def)

lemma handleProduceRequest_cases:
  assumes "handleProduceRequest ev req seg s = Some (resp, s')"
  obtains "s' = s"
  | off seg' where "AppendBatch (evFlush ev) (evStamp ev) (rqKey req) (rqValue req) seg = (off, seg')"
      "acknowledge ev req off seg' (recordProduced ev req off (setSegment (rqTopic req) seg' s)) = Some (resp, s')"
proof -
  obtain off seg' where a: "AppendBatch (evFlush ev) (evStamp ev) (rqKey req) (rqValue req) seg = (off, seg')" by fastforce
  have "s' = s \<or> acknowledge ev req off seg' (recordProduced ev req off (setSegment (rqTopic req) seg' s)) = Some (resp, s')"
    using assms by (auto simp: handleProduceRequest_def a Let_def split: option.splits if_splits)
  then show thesis using that a by blast
qed

lemma handleProduceRequest_config:
  "handleProduceRequest ev req seg s = Some (resp, s') \<Longrightarrow> config s' = config s"
  by (erule handleProduceRequest_cases) (simp_all add: acknowledge_frame recordProduced_frame setSegment_def)

lemma processRequest_config:
  assumes "processRequest ev req role s = Some (resp, s')"
  shows "config s' = config s"
proof -
  have cons: "config s' = config s1" if "handleConsumeRequest ev req seg s1 = Some (resp, s')" for seg s1
    using that by (auto elim: consume_cases)
  show ?thesis
    using assms processOffsetRequest_config cons handleProduceRequest_config getOrCreate_config
    unfolding processRequest_def processGroupRequest_def
    by (fastforce split: if_splits sum.splits option.splits prod.splits)
qed

end
