(* ===== verification/Connection.thy ===== *)
theory Connection
  imports Server
begin

text \<open>
  The connection handler of \<^verbatim>\<open>internal/broker/server.go\<close>: the handshake, the request loop and the shutdown. The input of a
  connection is a finite \<open>reader\<close> and its output goes to an arbitrary writer. The \<open>i\<close>-th request of a connection is
  served in the environment \<open>evs i\<close>. Every request read consumes input, so the loop is a total function.
\<close>

section \<open>Operations\<close>

text \<open>How a connection ends: closed by the broker, handed to the replication manager, or by a panic of the process.\<close>

datatype conn_end = Closed | Replicating | Panicked

function serveLoop ::
  "(nat \<Rightarrow> env) \<Rightarrow> nat \<Rightarrow> 's writer \<Rightarrow> string \<Rightarrow> nat \<Rightarrow> reader \<Rightarrow> Server \<times> 's \<Rightarrow> conn_end \<times> Server \<times> 's" where
  "serveLoop evs i w role conn r st =
     (case st of (s, out) \<Rightarrow>
      if svShutdown s then (Closed, s, out)
      else case ReadRequest r of
        (Inl e, r') \<Rightarrow> (Closed, s, out)
      | (Inr req, r') \<Rightarrow>
          if rqType req = ReqJoinReplica
          then (Replicating, s\<lparr>svRepManager := RegisterReplica (rqTopic req) conn (svRepManager s)\<rparr>, out)
          else (case processRequest (evs i) req role s of
              None \<Rightarrow> (Panicked, s, out)
            | Some (resp, s) \<Rightarrow>
                (case WriteResponse w resp out of
                   (Some e, out) \<Rightarrow> (Closed, s, out)
                 | (None, out) \<Rightarrow> serveLoop evs (Suc i) w role conn r' (s, out))))"
  by pat_completeness auto
termination
  by (relation "measure (\<lambda>(evs, i, w, role, conn, r, st). length (rbuf r))") (auto intro: ReadRequest_consumes [OF sym])

declare serveLoop.simps [simp del]

definition token_reply :: "string \<Rightarrow> Response" where
  "token_reply token = (new_response StatusOk)\<lparr>rsToken := token\<rparr>"

definition handleConnection ::
  "(bytes \<Rightarrow> Claims \<Rightarrow> go_error + string) \<Rightarrow> string \<Rightarrow> int \<Rightarrow> (nat \<Rightarrow> env) \<Rightarrow> 's writer \<Rightarrow> nat \<Rightarrow> reader
   \<Rightarrow> Server \<times> 's \<Rightarrow> conn_end \<times> Server \<times> 's" where
  "handleConnection sign secret now evs w conn r st =
     (case st of (s, out) \<Rightarrow>
      (case AuthenticateConnection sign secret now r of
         (Inl e, r) \<Rightarrow> (Closed, s, snd (WriteResponse w (err_response (error_text e)) out))
       | (Inr (role, token), r) \<Rightarrow>
           (case WriteResponse w (token_reply token) out of
              (Some e, out) \<Rightarrow> (Closed, s, out)
            | (None, out) \<Rightarrow> serveLoop evs 0 w role conn r (s, out))))"

text \<open>\<^verbatim>\<open>Server.Close\<close>, as one step: in the code a connection may still append to a segment that is closed already, to no effect
  (\<open>append_after_close\<close> of \<open>Segment\<close>). A second call panics on the closed channel. Closing a segment flushes it; its files stay.\<close>

definition closeSegments :: "flush_faults \<Rightarrow> (string \<times> Segment) list \<Rightarrow> (string \<times> Segment) list option" where
  "closeSegments flt ts = those (map (\<lambda>(t, seg). map_option (Pair t) (Close flt seg)) ts)"

definition ServerClose :: "flush_faults \<Rightarrow> Server \<Rightarrow> Server option" where
  "ServerClose flt s =
     (if svShutdown s then None
      else map_option (\<lambda>ts. s\<lparr>svShutdown := True, svTopics := ts\<rparr>) (closeSegments flt (svTopics s)))"

text \<open>A tick of the flush timer of one topic's segment.\<close>

definition flushTick :: "flush_faults \<Rightarrow> string \<Rightarrow> Server \<Rightarrow> Server" where
  "flushTick flt topic s =
     (case map_of (svTopics s) topic of
        Some seg \<Rightarrow> setSegment topic (snd (flush flt seg)) s
      | None \<Rightarrow> s)"

section \<open>Sessions\<close>

text \<open>What a sequence of requests does to the broker, one after the other.\<close>

fun run_requests ::
  "(nat \<Rightarrow> env) \<Rightarrow> nat \<Rightarrow> string \<Rightarrow> Request list \<Rightarrow> Server \<Rightarrow> (Response list \<times> Server) option" where
  "run_requests evs i role [] s = Some ([], s)"
| "run_requests evs i role (req # reqs) s =
     (case processRequest (evs i) req role s of
        None \<Rightarrow> None
      | Some (resp, s) \<Rightarrow> map_option (apfst ((#) resp)) (run_requests evs (Suc i) role reqs s))"

definition session_request :: "Request \<Rightarrow> bool" where
  "session_request req \<longleftrightarrow> wf_request req \<and> wire_view req = req \<and> rqType req \<noteq> ReqJoinReplica"

lemma serveLoop_requests:
  assumes "list_all session_request reqs" "\<not> svShutdown s" "run_requests evs i role reqs s = Some (resps, s')"
  shows "serveLoop evs i buffer_write role conn (Reader (concat (map request_frame reqs)) EOF) (s, out)
    = (Closed, s', out @ concat (map response_frame resps))"
  using assms
proof (induction reqs arbitrary: i s out resps)
  case Nil
  have "ReadRequest (Reader [] EOF) = (Inl EOF, Reader [] EOF)"
    by (simp add: ReadRequest_def binary_Read_int32_def rbind_def)
  then show ?case using Nil by (subst serveLoop.simps) simp
next
  case (Cons req reqs)
  obtain resp s1 resps' where p: "processRequest (evs i) req role s = Some (resp, s1)"
      "run_requests evs (Suc i) role reqs s1 = Some (resps', s')" "resps = resp # resps'"
    using Cons.prems(3) by (auto split: option.splits)
  have req: "ReadRequest (Reader (request_frame req @ concat (map request_frame reqs)) EOF)
      = (Inr req, Reader (concat (map request_frame reqs)) EOF)" "rqType req \<noteq> ReqJoinReplica"
    using ReadRequest_frame [of req] Cons.prems(1) by (simp_all add: session_request_def)
  have "serveLoop evs i buffer_write role conn (Reader (concat (map request_frame (req # reqs))) EOF) (s, out)
      = serveLoop evs (Suc i) buffer_write role conn (Reader (concat (map request_frame reqs)) EOF) (s1, out @ response_frame resp)"
    using Cons.prems(2) req p(1) by (subst serveLoop.simps) (simp add: WriteResponse_buffer)
  also have "\<dots> = (Closed, s', (out @ response_frame resp) @ concat (map response_frame resps'))"
    using Cons.prems p processRequest_config [OF p(1)] by (intro Cons.IH) (simp_all add: config_def)
  finally show ?case by (simp add: p(3))
qed

definition login :: "string \<Rightarrow> string \<Rightarrow> Request" where
  "login u p = (new_request ReqAuthenticate [])\<lparr>rqUsername := u, rqPassword := p\<rparr>"

lemma login_wf:
  assumes "length u < 65536" "length p < 65536"
  shows "wf_request (login u p)" "wire_view (login u p) = login u p"
  using assms by (simp_all add: login_def wf_request_def wire_view_def new_request_def known_type_def Req_defs
      in_int32_def in_int64_def processed_ids_def Let_def)

lemma login_frame:
  assumes "length u < 65536" "length p < 65536"
  shows "AuthenticateConnection sign secret now (Reader (request_frame (login u p) @ rest) e) =
      (case credentials_role u p of
           None \<Rightarrow> (Inl (Err ''invalid credentials''), Reader rest e)
         | Some role \<Rightarrow> (map_sum id (Pair role) (GenerateJWT sign secret now u role), Reader rest e))"
proof -
  have "rqType (login u p) = ReqAuthenticate" "rqUsername (login u p) = u" "rqPassword (login u p) = p"
    by (simp_all add: login_def new_request_def)
  with AuthenticateConnection_frame [of "login u p" sign secret now rest e] login_wf [OF assms] show ?thesis
    by (simp add: WriteRequest_buffer split: option.split)
qed

lemma credentials_short: "credentials_role u p = Some role \<Longrightarrow> length u < 65536 \<and> length p < 65536"
  by (auto simp: credentials_role_def split: if_splits)

lemma session_run:
  assumes "credentials_role u p = Some role" "GenerateJWT sign secret now u role = Inr token"
    and "list_all session_request reqs" "\<not> svShutdown s"
    and "run_requests evs 0 role reqs s = Some (resps, s')"
  shows "handleConnection sign secret now evs buffer_write conn
      (Reader (request_frame (login u p) @ concat (map request_frame reqs)) EOF) (s, [])
    = (Closed, s', response_frame (token_reply token) @ concat (map response_frame resps))"
  using serveLoop_requests [OF assms(3,4,5), of conn "response_frame (token_reply token)"]
    login_frame [of u p sign secret now "concat (map request_frame reqs)" EOF] credentials_short [OF assms(1)] assms(1,2)
  by (simp add: handleConnection_def WriteResponse_buffer)

section \<open>Properties\<close>

text \<open>\<^bold>\<open>C7\<close>: a client that logs in with valid credentials and sends well-formed requests gets, over the wire,
  its token and then exactly one response frame per request, in order; the broker's state is the one
  that processing the requests one by one with the client's role yields.\<close>

theorem session_answers:
  assumes "credentials_role u p = Some role" "GenerateJWT sign secret now u role = Inr token"
    and "list_all session_request reqs" "\<not> svShutdown s"
    and "run_requests evs 0 role reqs s = Some (resps, s')"
  shows "handleConnection sign secret now evs buffer_write conn
      (Reader (request_frame (login u p) @ concat (map request_frame reqs)) EOF) (s, [])
    = (Closed, s', response_frame (token_reply token) @ concat (map response_frame resps))"
  by (rule session_run [OF assms])

definition sample_server :: Server where
  "sample_server = (case NewServer None None False 0 ''data'' 1 (10 ^ 8) 65536 0 0 Map.empty of Inr s \<Rightarrow> s | Inl e \<Rightarrow> undefined)"

definition sample_env :: env where
  "sample_env = calm 5000000 5 (\<lambda>_. []) (\<lambda>_. None)"

definition sample_fetch :: Request where
  "sample_fetch = (new_request ReqOffsetFetch ''t'')\<lparr>rqGroupID := ''g''\<rparr>"

theorem session_answers_witness:
  "handleConnection (\<lambda>_ _. Inr ''tok'') [] 0 (\<lambda>_. sample_env) buffer_write 0
      (Reader (request_frame (login ''consumer'' ''consumer'') @ concat (map request_frame [sample_fetch])) EOF) (sample_server, [])
    = (Closed, sample_server, response_frame (token_reply ''tok'') @ concat (map response_frame [ok_response (- 1)]))"
proof (rule session_answers)
  show "credentials_role ''consumer'' ''consumer'' = Some RoleConsumer" by (simp add: credentials_role_def)
  show "GenerateJWT (\<lambda>_ _. Inr ''tok'') [] 0 ''consumer'' RoleConsumer = Inr ''tok''" by (simp add: GenerateJWT_def)
  show "list_all session_request [sample_fetch]"
    by (simp add: session_request_def sample_fetch_def wf_request_def wire_view_def new_request_def known_type_def
        Req_defs in_int32_def in_int64_def processed_ids_def Let_def)
  show "\<not> svShutdown sample_server" by (simp add: sample_server_def NewServer_def NewOffsetStore_def)
  show "run_requests (\<lambda>_. sample_env) 0 RoleConsumer [sample_fetch] sample_server = Some ([ok_response (- 1)], sample_server)"
    by (simp add: processRequest_def processOffsetRequest_def sample_fetch_def new_request_def Req_defs
        FetchOffset_def sample_env_def calm_def sample_server_def NewServer_def NewOffsetStore_def)
qed

text \<open>\<^bold>\<open>C24\<close>: whatever bytes a client sends, either the first request on the connection is a login with
  the name and the password of one of the three users, and the connection is served from then on with the role
  of that user and no other, starting from the unchanged broker; or the connection is closed after a
  single error response, with the broker's state as it was.\<close>

theorem no_service_before_login:
  "(\<exists>u req r' token. u \<in> {''admin'', ''producer'', ''consumer''} \<and> ReadRequest r = (Inr req, r')
      \<and> rqType req = ReqAuthenticate \<and> rqUsername req = u \<and> rqPassword req = u
      \<and> GenerateJWT sign secret now u u = Inr token
      \<and> handleConnection sign secret now evs buffer_write conn r (s, out)
        = serveLoop evs 0 buffer_write u conn r' (s, out @ response_frame (token_reply token)))
   \<or> (\<exists>msg. handleConnection sign secret now evs buffer_write conn r (s, out)
        = (Closed, s, out @ response_frame (err_response msg)))"
proof -
  obtain res r' where auth: "AuthenticateConnection sign secret now r = (res, r')" by fastforce
  show ?thesis
  proof (cases res)
    case (Inl e)
    with auth have "handleConnection sign secret now evs buffer_write conn r (s, out)
        = (Closed, s, out @ response_frame (err_response (error_text e)))"
      by (simp add: handleConnection_def WriteResponse_buffer)
    then show ?thesis by blast
  next
    case (Inr x)
    obtain role token where x: "x = (role, token)" by (cases x)
    have ok: "AuthenticateConnection sign secret now r = (Inr (role, token), r')" using auth Inr x by simp
    then obtain req where req: "ReadRequest r = (Inr req, r')" "rqType req = ReqAuthenticate"
        "credentials_role (rqUsername req) (rqPassword req) = Some role"
        "GenerateJWT sign secret now (rqUsername req) role = Inr token"
      by (rule AuthenticateConnection_accepts)
    from credentials_role_only [OF req(3)] have u: "rqUsername req = role" "rqPassword req = role"
        "role \<in> {''admin'', ''producer'', ''consumer''}"
      by (simp_all add: Role_defs)
    have "handleConnection sign secret now evs buffer_write conn r (s, out)
        = serveLoop evs 0 buffer_write role conn r' (s, out @ response_frame (token_reply token))"
      by (simp add: handleConnection_def ok WriteResponse_buffer)
    with req(1,2,4) u show ?thesis by blast
  qed
qed

text \<open>A follower opens its replication connection with a join request and no login; the broker answers
  ``authentication required'' and registers no replica.\<close>

theorem follower_handshake_refused:
  assumes "length nodeID < 65536"
  shows "handleConnection sign secret now evs buffer_write conn
      (Reader (request_frame (new_request ReqJoinReplica nodeID) @ rest) e) (s, [])
    = (Closed, s, response_frame (err_response ''authentication required''))"
proof -
  let ?req = "new_request ReqJoinReplica nodeID"
  have "wf_request (wire_view ?req)" "rqType ?req = ReqJoinReplica"
    using assms by (simp_all add: wf_request_def wire_view_def new_request_def known_type_def Req_defs
        in_int32_def in_int64_def processed_ids_def Let_def)
  with AuthenticateConnection_frame [of ?req sign secret now rest e]
  have "AuthenticateConnection sign secret now (Reader (request_frame ?req @ rest) e)
      = (Inl (Err ''authentication required''), Reader rest e)"
    by (simp add: WriteRequest_buffer Req_defs)
  then show ?thesis by (simp add: handleConnection_def WriteResponse_buffer)
qed

theorem follower_handshake_refused_witness:
  "handleConnection (\<lambda>_ _. Inr ''tok'') [] 0 (\<lambda>_. sample_env) buffer_write 0
      (Reader (request_frame (new_request ReqJoinReplica ''follower-node'') @ []) EOF) (sample_server, [])
    = (Closed, sample_server, response_frame (err_response ''authentication required''))"
  by (rule follower_handshake_refused) simp

end
