(* ===== verification/Requests.thy ===== *)
theory Requests
  imports Connection
begin

text \<open>
  What the request handlers of \<open>Server\<close> guarantee: no panics and a preserved invariant, storage and retries of produced
  messages, what a consumer reads, committed offsets, and permissions.
\<close>

section \<open>Invariant\<close>

text \<open>Group assignments are those of the members, every registered schema requires only strings, and the flush interval is
  positive.\<close>

definition broker_ok :: "Server \<Rightarrow> bool" where
  "broker_ok s \<longleftrightarrow> coordinator_ok (svCoordinator s) \<and> (\<forall>schema \<in> ran (svSchemaRegistry s). required_names schema \<noteq> None)
     \<and> 0 < svFlushInt s"

definition schema_ok :: "Request \<Rightarrow> bool" where
  "schema_ok req \<longleftrightarrow> (rqType req = ReqRegisterSchema \<longrightarrow>
     (\<forall>schema. unmarshal_object (rqSchemaDef req) = Some schema \<longrightarrow> required_names schema \<noteq> None))"

lemma checkRequired_no_panic:
  "those (map (\<lambda>v. case v of JStr f \<Rightarrow> Some f | _ \<Rightarrow> None) vs) \<noteq> None \<Longrightarrow> checkRequired data vs \<noteq> None"
  using checkRequired_names by fastforce

lemma Validate_no_panic:
  assumes "\<forall>schema \<in> ran r. required_names schema \<noteq> None"
  shows "Validate jerr topic payload r \<noteq> None"
proof (cases "r topic")
  case (Some schema)
  then have "required_names schema \<noteq> None" using assms by (auto simp: ran_def)
  then show ?thesis
    using Some checkRequired_no_panic by (auto simp: Validate_def required_names_def split: option.splits json.splits)
qed (simp add: Validate_def)

lemma acknowledge_no_panic: "evLabel ev (rqTopic req) \<Longrightarrow> \<exists>resp s'. acknowledge ev req off seg s = Some (resp, s')"
  by (auto simp: acknowledge_def RecordProduce_def Let_def split: prod.split)

lemma openSegment_no_panic: "0 < flushInt \<Longrightarrow> openSegment flt path flushInt batchSize d \<noteq> None"
  by (auto simp: openSegment_def NewSegment_def split: option.splits sum.splits)

lemma getOrCreate_no_panic: "0 < svFlushInt s \<Longrightarrow> getOrCreateTopicSegment ev topic s \<noteq> None"
  using openSegment_no_panic [of "svFlushInt s" "evOpen ev" "log_path s topic" "svBatchSize s" "svDisk s"]
  by (auto simp: getOrCreateTopicSegment_def split: option.split sum.split)

lemma handleProduceRequest_no_panic:
  assumes "broker_ok s" "evLabel ev (rqTopic req)"
  shows "\<exists>resp s'. handleProduceRequest ev req seg s = Some (resp, s')"
proof -
  have "Validate (evJsonErr ev) (rqTopic req) (rqValue req) (svSchemaRegistry s) \<noteq> None"
    using assms Validate_no_panic by (simp add: broker_ok_def)
  then show ?thesis
    using acknowledge_no_panic [OF assms(2)]
    by (auto simp: handleProduceRequest_def Let_def split: option.splits prod.splits if_splits)
qed

lemma handleConsumeRequest_no_panic:
  "evLabel ev (rqTopic req) \<Longrightarrow> \<exists>resp s'. handleConsumeRequest ev req seg s = Some (resp, s')"
  by (auto simp: handleConsumeRequest_def RecordConsume_def Let_def split: prod.split option.split)

lemma ran_upd_subset: "ran (m(k \<mapsto> v)) \<subseteq> insert v (ran m)"
  by (auto simp: ran_def)

lemma broker_ok_cong:
  "broker_ok s \<Longrightarrow> svCoordinator s' = svCoordinator s \<Longrightarrow> svSchemaRegistry s' = svSchemaRegistry s \<Longrightarrow> config s' = config s
    \<Longrightarrow> broker_ok s'"
  by (simp add: broker_ok_def config_def)

lemma handleProduceRequest_keeps:
  "handleProduceRequest ev req seg s = Some (resp, s') \<Longrightarrow>
    svCoordinator s' = svCoordinator s \<and> svSchemaRegistry s' = svSchemaRegistry s"
  by (erule handleProduceRequest_cases) (simp_all add: acknowledge_frame recordProduced_frame setSegment_def)

lemma processOffsetRequest_ok:
  assumes "broker_ok s"
  shows "\<exists>resp s'. processOffsetRequest ev req s = Some (resp, s') \<and> broker_ok s'"
proof -
  have "handleFailedCommit ev req s \<noteq> None"
    using getOrCreate_no_panic [of s ev "rqTopic req"] assms
    by (auto simp: broker_ok_def handleFailedCommit_def split: option.splits sum.splits prod.splits)
  then obtain resp s' where run: "processOffsetRequest ev req s = Some (resp, s')"
    by (cases "processOffsetRequest ev req s") (auto simp: processOffsetRequest_def Let_def split: if_splits bind_splits prod.splits)
  then have "broker_ok s'"
    using processOffsetRequest_config [OF run] by (elim processOffsetRequest_frame) (auto intro: broker_ok_cong [OF assms])
  with run show ?thesis by blast
qed

lemma processGroupRequest_ok:
  assumes "broker_ok s"
  shows "\<exists>resp s'. processGroupRequest req s = Some (resp, s') \<and> broker_ok s'"
proof (cases "rqType req = ReqJoinGroup")
  case True
  obtain gc where "JoinGroup (rqGroupID req) (rqMemberID req) (rqTopics req) (svCoordinator s) = Some (generation gc (rqGroupID req), gc)"
      "coordinator_ok gc"
    using JoinGroup_step [of "svCoordinator s" "rqGroupID req" "rqMemberID req" "rqTopics req"] assms
    unfolding broker_ok_def by metis
  then show ?thesis using assms True by (simp add: processGroupRequest_def broker_ok_def)
qed (use assms in \<open>simp add: processGroupRequest_def\<close>)

lemma register_ok:
  assumes "broker_ok s" "schema_ok req" "rqType req = ReqRegisterSchema"
    and "Register jerr (rqTopic req) (rqSchemaDef req) (svSchemaRegistry s) = (None, r)"
  shows "broker_ok (s\<lparr>svSchemaRegistry := r\<rparr>)"
proof -
  obtain schema where "unmarshal_object (rqSchemaDef req) = Some schema" "r = (svSchemaRegistry s)(rqTopic req \<mapsto> schema)"
    using assms(4) by (auto simp: Register_def split: option.splits)
  moreover from this have "required_names schema \<noteq> None" using assms(2,3) by (simp add: schema_ok_def)
  ultimately show ?thesis using assms(1) ran_upd_subset by (fastforce simp: broker_ok_def)
qed

lemma dispatch_ok:
  assumes "broker_ok s" "rqType req = ReqProduce \<or> rqType req = ReqConsume \<longrightarrow> evLabel ev (rqTopic req)"
  shows "\<exists>resp s'. (case getOrCreateTopicSegment ev (rqTopic req) s of
          None \<Rightarrow> None
        | Some (Inl e) \<Rightarrow> Some (err_response (error_text e), s)
        | Some (Inr (seg, s)) \<Rightarrow>
            if rqType req = ReqProduce then
              (if \<not> CanProduce role then Some (err_response ''permission denied'', s)
               else handleProduceRequest ev req seg s)
            else if rqType req = ReqConsume then
              (if \<not> CanConsume role then Some (err_response ''permission denied'', s)
               else handleConsumeRequest ev req seg s)
            else Some (err_response ''invalid request type'', s)) = Some (resp, s') \<and> broker_ok s'"
proof -
  obtain x where g: "getOrCreateTopicSegment ev (rqTopic req) s = Some x"
    using getOrCreate_no_panic [of s ev "rqTopic req"] assms(1) by (auto simp: broker_ok_def)
  show ?thesis
  proof (cases x)
    case (Inr y)
    obtain seg s1 where y: "y = (seg, s1)" by (cases y)
    from g [unfolded Inr y] obtain ts where s1: "s1 = s\<lparr>svTopics := ts\<rparr>" by (rule getOrCreate_frame)
    then have ok: "broker_ok s1" using assms(1) by (simp add: broker_ok_def)
    have p: "\<exists>resp s2. handleProduceRequest ev req seg s1 = Some (resp, s2) \<and> broker_ok s2" if "rqType req = ReqProduce"
      using handleProduceRequest_no_panic [OF ok, of ev req seg] handleProduceRequest_keeps handleProduceRequest_config
        broker_ok_cong [OF ok] assms(2) that by metis
    have c: "\<exists>resp s2. handleConsumeRequest ev req seg s1 = Some (resp, s2) \<and> broker_ok s2" if ty: "rqType req = ReqConsume"
    proof -
      obtain resp s2 where r: "handleConsumeRequest ev req seg s1 = Some (resp, s2)"
        using handleConsumeRequest_no_panic [of ev req seg s1] assms(2) ty by auto
      then obtain m where "s2 = s1\<lparr>svMetrics := m\<rparr>" by (rule consume_cases)
      then show ?thesis using r broker_ok_cong [OF ok, of s2] by simp
    qed
    show ?thesis using ok p c by (simp add: g Inr y)
  qed (use assms(1) g in simp)
qed

section \<open>Produced messages\<close>

definition holds :: "Server \<Rightarrow> string \<Rightarrow> msg list \<Rightarrow> msg list \<Rightarrow> bool" where
  "holds s topic F P \<longleftrightarrow> (\<exists>seg. map_of (svTopics s) topic = Some seg \<and> seg_rep seg F P)"

definition room :: "Server \<Rightarrow> string \<Rightarrow> msg \<Rightarrow> bool" where
  "room s topic m \<longleftrightarrow> (\<forall>seg. map_of (svTopics s) topic = Some seg \<longrightarrow> used seg + length (enc_msg m) < 2 ^ 63)"

definition idempotent :: "Request \<Rightarrow> bool" where
  "idempotent req \<longleftrightarrow> rqProducerID req \<noteq> 0 \<and> rqMessageID req \<noteq> []"

definition known :: "env \<Rightarrow> Request \<Rightarrow> Server \<Rightarrow> bool" where
  "known ev req s \<longleftrightarrow> idempotent req \<and> snd (CheckDuplicate (evNow ev) (rqProducerID req) (rqMessageID req) (svProducerSM s))"

definition accepted :: "env \<Rightarrow> Request \<Rightarrow> Server \<Rightarrow> bool" where
  "accepted ev req s \<longleftrightarrow> Validate (evJsonErr ev) (rqTopic req) (rqValue req) (svSchemaRegistry s) = Some None"

text \<open>The answer to a stored message: with \<^verbatim>\<open>acks\<close> 0 and 1 always a success.\<close>

definition produce_answer :: "env \<Rightarrow> int \<Rightarrow> Server \<Rightarrow> Response" where
  "produce_answer ev off s =
     (case fst (Replicate (evAck ev) (svRepManager s)) of
        Some e \<Rightarrow> if svAcks s = 0 \<or> svAcks s = 1 then ok_response off else err_response (error_text e)
      | None \<Rightarrow> ok_response off)"

lemma produce_stores:
  assumes "holds s (rqTopic req) F P" and "map_of (svTopics s) (rqTopic req) = Some seg"
    and "wf_msg (evStamp ev, rqKey req, rqValue req)" "room s (rqTopic req) (evStamp ev, rqKey req, rqValue req)"
    and "evFlush ev = no_faults" "accepted ev req s" "\<not> known ev req s" "evLabel ev (rqTopic req)"
  obtains s' F' P' where "handleProduceRequest ev req seg s = Some (produce_answer ev (int (length (F @ P))) s, s')"
    "holds s' (rqTopic req) F' P'" "F' @ P' = F @ P @ [(evStamp ev, rqKey req, rqValue req)]"
    "config s' = config s" "svSchemaRegistry s' = svSchemaRegistry s"
    "svProducerSM s' = (if idempotent req
       then RecordMessage (evNow ev) (rqProducerID req) (rqMessageID req) (int (length (F @ P))) (svProducerSM s)
       else svProducerSM s)"
    "\<forall>t. t \<noteq> rqTopic req \<longrightarrow> map_of (svTopics s') t = map_of (svTopics s) t"
proof -
  let ?m = "(evStamp ev, rqKey req, rqValue req)"
  have rep: "seg_rep seg F P" using assms(1,2) by (simp add: holds_def)
  have size: "used seg + length (enc_msg ?m) < 2 ^ 63" using assms(2,4) by (simp add: room_def)
  obtain off seg' where a: "AppendBatch no_faults (evStamp ev) (rqKey req) (rqValue req) seg = (off, seg')" by fastforce
  have off: "off = int (length (F @ P))" using segment.append_offset [OF rep assms(3) size] a by simp
  obtain F' P' where seg': "seg_rep seg' F' P'" "F' @ P' = F @ P @ [?m]"
    using segment.append_rep [OF rep assms(3) size] a by auto
  let ?s1 = "recordProduced ev req off (setSegment (rqTopic req) seg' s)"
  have dup: "\<not> (rqProducerID req \<noteq> 0 \<and> rqMessageID req \<noteq> []
      \<and> snd (CheckDuplicate (evNow ev) (rqProducerID req) (rqMessageID req) (svProducerSM s)))"
    using assms(7) by (auto simp: known_def idempotent_def)
  obtain resp s' where ack: "acknowledge ev req off seg' ?s1 = Some (resp, s')"
    using acknowledge_no_panic [of ev req off seg' ?s1] assms(8) by auto
  have ans: "resp = produce_answer ev off s"
    using ack by (auto simp: acknowledge_def produce_answer_def recordProduced_frame setSegment_def Let_def
        split: prod.splits option.splits if_splits)
  have run: "handleProduceRequest ev req seg s = Some (produce_answer ev off s, s')"
    using assms(5,6) dup a ack ans by (auto simp: handleProduceRequest_def accepted_def Let_def)
  have s': "map_of (svTopics s') (rqTopic req) = Some seg'" "svSchemaRegistry s' = svSchemaRegistry s"
      "svProducerSM s' = (if idempotent req
         then RecordMessage (evNow ev) (rqProducerID req) (rqMessageID req) off (svProducerSM s) else svProducerSM s)"
    using acknowledge_frame [OF ack] by (simp_all add: setSegment_def update_conv' recordProduced_def idempotent_def)
  have others: "\<forall>t. t \<noteq> rqTopic req \<longrightarrow> map_of (svTopics s') t = map_of (svTopics s) t"
    using acknowledge_frame(2) [OF ack] by (simp add: recordProduced_frame setSegment_def update_conv')
  have "holds s' (rqTopic req) F' P'" using s'(1) seg'(1) by (simp add: holds_def)
  with run seg'(2) handleProduceRequest_config [OF run] s'(2,3) others show thesis
    unfolding off by (intro that [of s' F' P'])
qed

lemma processRequest_open:
  assumes "isLeaderFor (rqTopic req) s" "map_of (svTopics s) (rqTopic req) = Some seg"
  shows "rqType req = ReqProduce \<Longrightarrow> CanProduce role \<Longrightarrow> processRequest ev req role s = handleProduceRequest ev req seg s"
    "rqType req = ReqConsume \<Longrightarrow> CanConsume role \<Longrightarrow> processRequest ev req role s = handleConsumeRequest ev req seg s"
  using assms by (simp_all add: processRequest_def Req_defs getOrCreateTopicSegment_def)

lemma isLeaderFor_cong: "config s' = config s \<Longrightarrow> isLeaderFor t s' = isLeaderFor t s"
  by (simp add: config_def isLeaderFor_def split: prod.split)

lemma Validate_accepts: "Validate jerr t v r = Some None \<Longrightarrow> Validate jerr' t v r = Some None"
  by (auto simp: Validate_def split: option.splits)

lemma known_answer:
  assumes "known ev req s" "accepted ev req s"
  shows "handleProduceRequest ev req seg s
    = Some (ok_response (fst (CheckDuplicate (evNow ev) (rqProducerID req) (rqMessageID req) (svProducerSM s))), s)"
  using assms by (simp add: handleProduceRequest_def known_def accepted_def idempotent_def)

lemma just_recorded:
  assumes "idempotent req" "svProducerSM s' = RecordMessage now (rqProducerID req) (rqMessageID req) off sm"
    and "evNow ev - now \<le> imTtl sm"
  shows "CheckDuplicate (evNow ev) (rqProducerID req) (rqMessageID req) (svProducerSM s') = (off, True)"
  using assms by (simp add: idempotent_def msgids.check_rec)

text \<open>A produce request for an open topic this broker leads, from a client that may produce.\<close>

definition producible :: "env \<Rightarrow> Request \<Rightarrow> string \<Rightarrow> Server \<Rightarrow> bool" where
  "producible ev req role s \<longleftrightarrow> rqType req = ReqProduce \<and> CanProduce role \<and> isLeaderFor (rqTopic req) s
     \<and> wf_msg (evStamp ev, rqKey req, rqValue req) \<and> room s (rqTopic req) (evStamp ev, rqKey req, rqValue req)
     \<and> evFlush ev = no_faults \<and> accepted ev req s \<and> evLabel ev (rqTopic req)"

lemma produce_request_stores:
  assumes "producible ev req role s" "holds s (rqTopic req) F P" "\<not> known ev req s"
  obtains s' F' P' where "processRequest ev req role s = Some (produce_answer ev (int (length (F @ P))) s, s')"
    "holds s' (rqTopic req) F' P'" "F' @ P' = F @ P @ [(evStamp ev, rqKey req, rqValue req)]"
    "config s' = config s" "svSchemaRegistry s' = svSchemaRegistry s"
    "svProducerSM s' = (if idempotent req
       then RecordMessage (evNow ev) (rqProducerID req) (rqMessageID req) (int (length (F @ P))) (svProducerSM s)
       else svProducerSM s)"
    "\<forall>t. t \<noteq> rqTopic req \<longrightarrow> map_of (svTopics s') t = map_of (svTopics s) t"
proof -
  obtain seg where seg: "map_of (svTopics s) (rqTopic req) = Some seg" using assms(2) by (auto simp: holds_def)
  have "processRequest ev req role s = handleProduceRequest ev req seg s"
    using assms(1) seg processRequest_open(1) by (simp add: producible_def)
  then show thesis
    using produce_stores [OF assms(2) seg _ _ _ _ assms(3)] assms(1) that unfolding producible_def by metis
qed

section \<open>Properties\<close>

text \<open>\<^bold>\<open>C16\<close>: processing a request does not panic and keeps the invariant, whatever the request, the role, the
  time and the faults, as long as the flush interval is positive, the schemas clients register require only strings, and the
  topic of a produce or consume request is a label the metrics library takes (a string of valid UTF-8). Each of these is
  needed, as the lemmas after it show.\<close>

theorem requests_never_panic:
  assumes "broker_ok s" "schema_ok req" "rqType req = ReqProduce \<or> rqType req = ReqConsume \<longrightarrow> evLabel ev (rqTopic req)"
  shows "\<exists>resp s'. processRequest ev req role s = Some (resp, s') \<and> broker_ok s'"
proof -
  consider (off) "rqType req = ReqOffsetCommit \<or> rqType req = ReqOffsetFetch"
    | (grp) "rqType req = ReqJoinGroup \<or> rqType req = ReqSyncGroup"
    | (sch) "rqType req = ReqRegisterSchema"
    | (else) "\<not> (rqType req = ReqOffsetCommit \<or> rqType req = ReqOffsetFetch)"
        "\<not> (rqType req = ReqJoinGroup \<or> rqType req = ReqSyncGroup)" "rqType req \<noteq> ReqRegisterSchema"
    by blast
  then show ?thesis
  proof cases
    case off
    then show ?thesis using processOffsetRequest_ok [OF assms(1)] by (simp add: processRequest_def)
  next
    case grp
    then have "processRequest ev req role s = processGroupRequest req s" by (auto simp: processRequest_def Req_defs)
    then show ?thesis using processGroupRequest_ok [OF assms(1)] by simp
  next
    case sch
    then have "processRequest ev req role s =
        (case Register (evJsonErr ev) (rqTopic req) (rqSchemaDef req) (svSchemaRegistry s) of
           (Some e, r) \<Rightarrow> Some (err_response (error_text e), s)
         | (None, r) \<Rightarrow> Some (new_response StatusOk, s\<lparr>svSchemaRegistry := r\<rparr>))"
      by (simp add: processRequest_def Req_defs)
    then show ?thesis using register_ok [OF assms(1,2) sch, of "evJsonErr ev"] assms(1) by (auto split: prod.split option.split)
  next
    case else
    then show ?thesis using dispatch_ok [OF assms(1,3), where role = role] assms(1) by (simp add: processRequest_def)
  qed
qed

theorem requests_never_panic_witness:
  "\<exists>resp s'. processRequest sample_env sample_fetch RoleConsumer sample_server = Some (resp, s') \<and> broker_ok s'"
proof (rule requests_never_panic)
  show "broker_ok sample_server"
    using coordinator_ok_new by (simp add: broker_ok_def sample_server_def NewServer_def NewOffsetStore_def NewRegistry_def)
  show "schema_ok sample_fetch" by (simp add: schema_ok_def sample_fetch_def new_request_def Req_defs)
  show "rqType sample_fetch = ReqProduce \<or> rqType sample_fetch = ReqConsume \<longrightarrow> evLabel sample_env (rqTopic sample_fetch)"
    by (simp add: sample_fetch_def new_request_def Req_defs)
qed

text \<open>The other side: a produce request whose topic the metrics library refuses as a label ends the broker process, after the message was appended.
  Topic names come unchecked from the wire.\<close>

lemma refused_label_panics:
  assumes "rqType req = ReqProduce" "CanProduce role" "isLeaderFor (rqTopic req) s"
    and "map_of (svTopics s) (rqTopic req) = Some seg" "accepted ev req s" "\<not> known ev req s"
    and "svAcks s = 1" "\<not> evLabel ev (rqTopic req)"
  shows "processRequest ev req role s = None"
proof -
  have "acknowledge ev req off seg' (recordProduced ev req off (setSegment (rqTopic req) seg' s)) = None" for off seg'
    using assms(7,8) by (simp add: acknowledge_def recordProduced_frame setSegment_def RecordProduce_def Let_def split: prod.split)
  then have "handleProduceRequest ev req seg s = None"
    using assms(5,6) by (auto simp: handleProduceRequest_def accepted_def known_def idempotent_def Let_def split: prod.split)
  then show ?thesis using processRequest_open(1) [OF assms(3,4,1,2)] by simp
qed

text \<open>A broker started with a flush interval of zero or less ends with the first request that opens a segment.\<close>

lemma flush_interval_panics:
  assumes "rqType req = ReqProduce \<or> rqType req = ReqConsume" "isLeaderFor (rqTopic req) s"
    and "map_of (svTopics s) (rqTopic req) = None" "evOpen ev = no_open_faults" "svFlushInt s \<le> 0"
    and "svDisk s (log_path s (rqTopic req)) = None" "svDisk s (getIndexPath (log_path s (rqTopic req))) = None"
  shows "processRequest ev req role s = None"
proof -
  have "openSegment no_open_faults (log_path s (rqTopic req)) (svFlushInt s) (svBatchSize s) (svDisk s) = None"
    using assms(5-7) by (simp add: openSegment_def content_def NewSegment_fresh NewTicker_def)
  then show ?thesis using assms(1-4) by (auto simp: processRequest_def Req_defs getOrCreateTopicSegment_def)
qed

text \<open>\<^bold>\<open>C8\<close>: a produced message is stored at the end of its topic's log and is what a consumer reads at the
  returned offset after the next flush, with the time, key and value it was produced with, whatever byte limit the consumer
  asks for.\<close>

theorem produce_then_consume:
  assumes "producible ev req role s" "holds s (rqTopic req) F P" "\<not> known ev req s"
    and "rqType creq = ReqConsume" "rqTopic creq = rqTopic req" "CanConsume crole"
    and "rqOffset creq = int (length (F @ P))" "rqStartTime creq \<le> 0" "rqEndTime creq \<le> 0" "evLabel cev (rqTopic req)"
  shows "\<exists>s1 s2. processRequest ev req role s = Some (produce_answer ev (int (length (F @ P))) s, s1)
    \<and> processRequest cev creq crole (flushTick no_faults (rqTopic req) s1)
      = Some ((new_response StatusOk)\<lparr>rsOffset := int (length (F @ P)) + 1, rsRecords := Some [\<lparr>recTimestamp = evStamp ev,
            recOffset = int (length (F @ P)), recKey = rqKey req, recValue = rqValue req\<rparr>]\<rparr>, s2)"
proof -
  let ?n = "length (F @ P)"
  obtain s1 F' P' where s1: "processRequest ev req role s = Some (produce_answer ev (int ?n) s, s1)"
    "holds s1 (rqTopic req) F' P'" "F' @ P' = F @ P @ [(evStamp ev, rqKey req, rqValue req)]" "config s1 = config s"
    using produce_request_stores [OF assms(1-3)] by metis
  obtain seg where seg: "map_of (svTopics s1) (rqTopic req) = Some seg" "seg_rep seg F' P'"
    using s1(2) by (auto simp: holds_def)
  let ?seg = "snd (flush no_faults seg)" and ?s = "flushTick no_faults (rqTopic req) s1"
  have rep: "seg_rep ?seg (F @ P @ [(evStamp ev, rqKey req, rqValue req)]) []"
    using segment.commit_rep [OF seg(2)] by (simp add: s1(3))
  have top: "map_of (svTopics ?s) (rqTopic creq) = Some ?seg" "config ?s = config s"
    using seg(1) s1(4) assms(5) by (simp_all add: flushTick_def setSegment_def update_conv')
  have lead: "isLeaderFor (rqTopic creq) ?s"
    using assms(1,5) isLeaderFor_cong [OF top(2)] by (simp add: producible_def)
  have "ReadRecords ?seg (int ?n) (rqMaxBytes creq)
      = (([\<lparr>lrTimestamp = evStamp ev, lrOffset = int ?n, lrKey = rqKey req, lrValue = rqValue req\<rparr>], int ?n + 1), None)"
    using segment.read_rep [OF rep, of "int ?n" "rqMaxBytes creq"] by (simp add: Let_def)
  then show ?thesis
    using s1(1) processRequest_open(2) [OF lead top(1) assms(4,6), of cev] assms(5,7-10)
    by (auto simp: handleConsumeRequest_def keepRecord_def wireRecord_def RecordConsume_def Let_def)
qed

definition sample_topic_server :: Server where
  "sample_topic_server = sample_server\<lparr>svTopics := [(''test-0'', fresh_segment ''data/test-0.log'' 65536)]\<rparr>"

definition sample_put :: Request where
  "sample_put = (new_request ReqProduce ''test-0'')\<lparr>rqKey := [1], rqValue := [2], rqProducerID := 7, rqMessageID := ''m''\<rparr>"

definition sample_get :: Request where
  "sample_get = new_request ReqConsume ''test-0''"

lemma sample_leads_topic: "isLeaderFor ''test-0'' (sample_server\<lparr>svTopics := ts\<rparr>)"
proof -
  have p: "parseTopicPartition ''test-0'' = (''test'', 0)"
    by code_simp
  have "GetLeader ''test'' 0 (svController sample_server) = 0"
    by (simp add: GetLeader_def sample_server_def NewServer_def NewOffsetStore_def NewController_def leaders_def
        Let_def go_mod_def)
  then show ?thesis
    by (simp add: isLeaderFor_def p) (simp add: sample_server_def NewServer_def NewOffsetStore_def)
qed

lemma sample_labels: "ValidString ''test-0''" "ValidString ''other''"
  by code_simp+

lemma sample_producible: "producible sample_env sample_put RoleProducer sample_topic_server"
  using fresh_segment_rep(2) [of "''data/test-0.log''" 65536]
  by (simp add: producible_def sample_put_def new_request_def CanProduce_def sample_topic_server_def sample_leads_topic
      room_def sample_env_def calm_def in_int64_def record_bytes_def accepted_def Validate_def sample_labels)
    (simp add: sample_server_def NewServer_def NewOffsetStore_def NewRegistry_def)

lemma sample_holds: "holds sample_topic_server (rqTopic sample_put) [] []"
  by (simp add: holds_def sample_topic_server_def sample_put_def new_request_def fresh_segment_rep)

definition sample_bad_put :: Request where
  "sample_bad_put = sample_put\<lparr>rqTopic := [CHR 0xFF]\<rparr>"

lemma sample_bad_put_panics:
  "processRequest sample_env sample_bad_put RoleProducer
     (sample_server\<lparr>svTopics := [([CHR 0xFF], fresh_segment (''data/'' @ [CHR 0xFF] @ ''.log'') 65536)]\<rparr>) = None"
  (is "processRequest _ _ _ ?s = None")
proof (rule refused_label_panics)
  have "parseTopicPartition [CHR 0xFF] = ([CHR 0xFF], 0)" by code_simp
  then show "isLeaderFor (rqTopic sample_bad_put) ?s"
    by (simp add: sample_bad_put_def isLeaderFor_def GetLeader_def sample_server_def NewServer_def NewOffsetStore_def
        NewController_def leaders_def Let_def go_mod_def)
  have "\<not> ValidString [CHR 0xFF]" by code_simp
  then show "\<not> evLabel sample_env (rqTopic sample_bad_put)" by (simp add: sample_bad_put_def sample_env_def calm_def)
qed (simp_all add: sample_bad_put_def sample_put_def new_request_def CanProduce_def accepted_def Validate_def known_def
    sample_server_def NewServer_def NewOffsetStore_def NewRegistry_def CheckDuplicate_def NewIdempotentManager_def)

lemma sample_new: "\<not> known sample_env sample_put sample_topic_server"
  by (simp add: known_def sample_topic_server_def sample_server_def NewServer_def NewOffsetStore_def CheckDuplicate_def
      NewIdempotentManager_def)

theorem produce_then_consume_witness:
  "\<exists>s1 s2. processRequest sample_env sample_put RoleProducer sample_topic_server = Some (ok_response 0, s1)
    \<and> processRequest sample_env sample_get RoleConsumer (flushTick no_faults ''test-0'' s1)
      = Some ((new_response StatusOk)\<lparr>rsOffset := 1, rsRecords := Some [\<lparr>recTimestamp = 5,
            recOffset = 0, recKey = [1], recValue = [2]\<rparr>]\<rparr>, s2)"
proof -
  have ans: "produce_answer sample_env 0 sample_topic_server = ok_response 0"
    by (simp add: produce_answer_def sample_topic_server_def sample_server_def NewServer_def NewOffsetStore_def
        Replicate_def NewReplicationManager_def)
  have f: "evStamp sample_env = 5" "rqTopic sample_put = ''test-0''" "rqKey sample_put = [1]" "rqValue sample_put = [2]"
    by (simp_all add: sample_env_def calm_def sample_put_def new_request_def)
  have g: "rqType sample_get = ReqConsume" "rqTopic sample_get = rqTopic sample_put" "CanConsume RoleConsumer"
    "rqOffset sample_get = int (length ([] @ [] :: msg list))" "rqStartTime sample_get \<le> 0" "rqEndTime sample_get \<le> 0" "evLabel sample_env (rqTopic sample_put)"
    by (simp_all add: sample_get_def sample_put_def new_request_def CanConsume_def sample_env_def calm_def sample_labels)
  from produce_then_consume [OF sample_producible sample_holds sample_new g] show ?thesis
    by (simp add: ans f)
qed

text \<open>The table of message ids does not know topics: after a message was stored in one topic, a different message
  with the same producer and message id for another topic is acknowledged with the first one's
  offset and stored nowhere.\<close>

theorem same_id_in_other_topic_is_dropped:
  assumes "producible ev req role s" "holds s (rqTopic req) F P" "\<not> known ev req s" "idempotent req"
    and "rqTopic req2 \<noteq> rqTopic req" "rqProducerID req2 = rqProducerID req" "rqMessageID req2 = rqMessageID req"
    and "producible ev req2 role s" "holds s (rqTopic req2) G Q" "0 \<le> imTtl (svProducerSM s)"
  shows "\<exists>s1. processRequest ev req role s = Some (produce_answer ev (int (length (F @ P))) s, s1)
    \<and> processRequest ev req2 role s1 = Some (ok_response (int (length (F @ P))), s1) \<and> holds s1 (rqTopic req2) G Q"
proof -
  let ?n = "length (F @ P)"
  obtain s1 where s1: "processRequest ev req role s = Some (produce_answer ev (int ?n) s, s1)"
    "config s1 = config s" "svSchemaRegistry s1 = svSchemaRegistry s"
    "svProducerSM s1 = RecordMessage (evNow ev) (rqProducerID req) (rqMessageID req) (int ?n) (svProducerSM s)"
    "\<forall>t. t \<noteq> rqTopic req \<longrightarrow> map_of (svTopics s1) t = map_of (svTopics s) t"
    using produce_request_stores [OF assms(1-3)] assms(4) by metis
  have other: "holds s1 (rqTopic req2) G Q" using assms(5,9) s1(5) by (simp add: holds_def)
  then obtain seg where seg: "map_of (svTopics s1) (rqTopic req2) = Some seg" by (auto simp: holds_def)
  have "evNow ev - evNow ev \<le> imTtl (svProducerSM s)" using assms(10) by simp
  note dup = just_recorded [OF assms(4) s1(4) this]
  have "known ev req2 s1" "accepted ev req2 s1"
    using dup assms(4,6-8) s1(3) by (simp_all add: known_def idempotent_def producible_def accepted_def)
  from known_answer [OF this, of seg] have "processRequest ev req2 role s1 = Some (ok_response (int ?n), s1)"
    using dup processRequest_open(1) [of req2 s1 seg role ev] seg assms(6-8) isLeaderFor_cong [OF s1(2)]
    by (simp add: producible_def)
  with s1(1) other show ?thesis by blast
qed

definition sample_two_topics :: Server where
  "sample_two_topics = sample_server\<lparr>svTopics := [(''test-0'', fresh_segment ''data/test-0.log'' 65536),
     (''other'', fresh_segment ''data/other.log'' 65536)]\<rparr>"

lemma sample_two_facts:
  "producible sample_env sample_put RoleProducer sample_two_topics" "holds sample_two_topics ''test-0'' [] []"
  "producible sample_env (sample_put\<lparr>rqTopic := ''other'', rqValue := [3]\<rparr>) RoleProducer sample_two_topics"
  "holds sample_two_topics ''other'' [] []" "\<not> known sample_env sample_put sample_two_topics"
  "0 \<le> imTtl (svProducerSM sample_two_topics)"
proof -
  have "parseTopicPartition ''other'' = (''other'', 0)" by code_simp
  then have lead: "isLeaderFor ''other'' (sample_server\<lparr>svTopics := ts\<rparr>)" for ts
    by (simp add: isLeaderFor_def GetLeader_def sample_server_def NewServer_def NewOffsetStore_def NewController_def leaders_def
        Let_def go_mod_def)
  note defs = producible_def sample_put_def new_request_def CanProduce_def sample_two_topics_def sample_leads_topic lead
      room_def sample_env_def calm_def in_int64_def record_bytes_def accepted_def Validate_def sample_labels
  have used: "used (fresh_segment p b) = 0" for p b by (rule fresh_segment_rep(2))
  have reg: "svSchemaRegistry (sample_server\<lparr>svTopics := ts\<rparr>) = Map.empty" for ts
    by (simp add: sample_server_def NewServer_def NewOffsetStore_def NewRegistry_def)
  show "producible sample_env sample_put RoleProducer sample_two_topics"
    "producible sample_env (sample_put\<lparr>rqTopic := ''other'', rqValue := [3]\<rparr>) RoleProducer sample_two_topics"
    using reg by (simp_all add: defs used)
  show "holds sample_two_topics ''test-0'' [] []" "holds sample_two_topics ''other'' [] []"
    by (simp_all add: holds_def sample_two_topics_def fresh_segment_rep)
  show "\<not> known sample_env sample_put sample_two_topics" "0 \<le> imTtl (svProducerSM sample_two_topics)"
    by (simp_all add: known_def sample_two_topics_def sample_server_def NewServer_def NewOffsetStore_def CheckDuplicate_def
        NewIdempotentManager_def)
qed

theorem same_id_in_other_topic_is_dropped_witness:
  "\<exists>s1. processRequest sample_env sample_put RoleProducer sample_two_topics
       = Some (produce_answer sample_env 0 sample_two_topics, s1)
    \<and> processRequest sample_env (sample_put\<lparr>rqTopic := ''other'', rqValue := [3]\<rparr>) RoleProducer s1 = Some (ok_response 0, s1)
    \<and> holds s1 ''other'' [] []"
proof -
  have f: "rqTopic sample_put = ''test-0''" "idempotent sample_put" by (simp_all add: sample_put_def new_request_def idempotent_def)
  show ?thesis
    using same_id_in_other_topic_is_dropped [OF sample_two_facts(1), of "[]" "[]" "sample_put\<lparr>rqTopic := ''other'', rqValue := [3]\<rparr>" "[]" "[]"]
      sample_two_facts f by simp
qed

text \<open>A committed offset is what a later fetch for the same group, topic and partition returns, whether the
  consumer reported success or failure and whatever its role is.\<close>

theorem commit_then_fetch:
  assumes "rqType creq = ReqOffsetCommit" "rqType freq = ReqOffsetFetch" "rqGroupID freq = rqGroupID creq"
    and "rqTopic freq = rqTopic creq" "rqPartition freq = rqPartition creq" "in_int64 (rqOffset creq)"
    and "evCommit ev = no_commit_faults" "evFetch ev' = None" "0 < svFlushInt s"
  shows "\<exists>s1. processRequest ev creq role s = Some (new_response StatusOk, s1)
    \<and> processRequest ev' freq role' s1 = Some (ok_response (rqOffset creq), s1)"
proof -
  have "handleFailedCommit ev creq s \<noteq> None"
    using getOrCreate_no_panic [OF assms(9), of ev "rqTopic creq"]
    by (auto simp: handleFailedCommit_def split: option.splits sum.splits prod.splits)
  then obtain s1 where s1: "(if \<not> rqSuccess creq then handleFailedCommit ev creq s else Some s) = Some s1" by (cases "rqSuccess creq") auto
  define s2 where "s2 = (case rqProcessedIDs creq of None \<Rightarrow> s1
    | Some ids \<Rightarrow> (case MarkProcessed (evSave ev) (rqGroupID creq) ids (svDeduplicator s1, svDisk s1) of
         (dd, d) \<Rightarrow> s1\<lparr>svDeduplicator := dd, svDisk := d\<rparr>))"
  let ?path = "getFilePath (svOffsetStore s2) (rqGroupID creq) (rqTopic creq) (rqPartition creq)"
  let ?s3 = "s2\<lparr>svDisk := (svDisk s2)(?path \<mapsto> bytes_of (offset_json \<lparr>orOffset = rqOffset creq\<rparr>))\<rparr>"
  have "processRequest ev creq role s = Some (new_response StatusOk, ?s3)"
    using assms(1,7)
    by (simp add: processRequest_def processOffsetRequest_def s1 s2_def [symmetric] CommitOffset_def
        no_commit_faults_def Let_def)
  moreover have "processRequest ev' freq role' ?s3 = Some (ok_response (rqOffset creq), ?s3)"
    using assms(2-6,8)
    by (simp add: processRequest_def processOffsetRequest_def FetchOffset_def decode_offset_json Req_defs)
  ultimately show ?thesis by blast
qed

definition sample_commit :: Request where
  "sample_commit = (new_request ReqOffsetCommit ''t'')\<lparr>rqGroupID := ''g'', rqOffset := 9, rqProcessedIDs := Some [''a'']\<rparr>"

theorem commit_then_fetch_witness:
  "\<exists>s1. processRequest sample_env sample_commit RoleProducer sample_server = Some (new_response StatusOk, s1)
    \<and> processRequest sample_env sample_fetch RoleConsumer s1 = Some (ok_response 9, s1)"
  using commit_then_fetch [of sample_commit sample_fetch sample_env sample_env sample_server]
  by (simp add: sample_commit_def sample_fetch_def new_request_def in_int64_def sample_env_def calm_def)
    (simp add: sample_server_def NewServer_def NewOffsetStore_def)

text \<open>\<^bold>\<open>C25\<close>: without the permission to produce or to consume a request of that kind is answered with an error
  and changes nothing but, at most, that the segment of its topic is opened from the files as they are: no log, no id and no
  offset.\<close>

theorem permissions_enforced:
  assumes "rqType req = ReqProduce \<and> \<not> CanProduce role \<or> rqType req = ReqConsume \<and> \<not> CanConsume role"
    and "0 < svFlushInt s"
  shows "\<exists>msg ts. processRequest ev req role s = Some (err_response msg, s\<lparr>svTopics := ts\<rparr>)
    \<and> (\<forall>t seg. map_of (svTopics s) t = Some seg \<longrightarrow> map_of ts t = Some seg)
    \<and> (ts = svTopics s \<or> (\<exists>seg. openSegment (evOpen ev) (log_path s (rqTopic req)) (svFlushInt s) (svBatchSize s) (svDisk s)
           = Some (Inr seg) \<and> ts = AList.update (rqTopic req) seg (svTopics s)))"
proof (cases "isLeaderFor (rqTopic req) s")
  case False
  then have "processRequest ev req role s = Some (err_response ''Not Leader'', s\<lparr>svTopics := svTopics s\<rparr>)"
    using assms by (auto simp: processRequest_def Req_defs)
  then show ?thesis by blast
next
  case lead: True
  obtain x where g: "getOrCreateTopicSegment ev (rqTopic req) s = Some x"
    using getOrCreate_no_panic [OF assms(2)] by blast
  show ?thesis
  proof (cases x)
    case (Inl e)
    then have "processRequest ev req role s = Some (err_response (error_text e), s\<lparr>svTopics := svTopics s\<rparr>)"
      using assms lead g by (auto simp: processRequest_def Req_defs)
    then show ?thesis by blast
  next
    case (Inr y)
    obtain seg s1 where y: "y = (seg, s1)" by (cases y)
    have opened: "s1 = s \<or> map_of (svTopics s) (rqTopic req) = None \<and> openSegment (evOpen ev) (log_path s (rqTopic req)) (svFlushInt s) (svBatchSize s) (svDisk s)
        = Some (Inr seg) \<and> s1 = s\<lparr>svTopics := AList.update (rqTopic req) seg (svTopics s)\<rparr>"
      using g Inr y by (auto simp: getOrCreateTopicSegment_def split: option.splits sum.splits)
    have run: "processRequest ev req role s = Some (err_response ''permission denied'', s1)"
      using assms lead g Inr by (auto simp: processRequest_def Req_defs y)
    from opened show ?thesis
    proof
      assume "s1 = s"
      with run have "processRequest ev req role s = Some (err_response ''permission denied'', s\<lparr>svTopics := svTopics s\<rparr>)" by simp
      then show ?thesis by blast
    next
      assume o: "map_of (svTopics s) (rqTopic req) = None \<and> openSegment (evOpen ev) (log_path s (rqTopic req)) (svFlushInt s) (svBatchSize s) (svDisk s)
        = Some (Inr seg) \<and> s1 = s\<lparr>svTopics := AList.update (rqTopic req) seg (svTopics s)\<rparr>"
      have "map_of (AList.update (rqTopic req) seg (svTopics s)) t = Some sg" if "map_of (svTopics s) t = Some sg" for t sg
        using that o by (auto simp: update_conv')
      with run o show ?thesis by blast
    qed
  qed
qed

theorem permissions_enforced_witness:
  "\<exists>msg ts. processRequest sample_env sample_put RoleConsumer sample_topic_server
      = Some (err_response msg, sample_topic_server\<lparr>svTopics := ts\<rparr>)
    \<and> (\<forall>t seg. map_of (svTopics sample_topic_server) t = Some seg \<longrightarrow> map_of ts t = Some seg)"
proof -
  have "0 < svFlushInt sample_topic_server" by (simp add: sample_topic_server_def sample_server_def NewServer_def NewOffsetStore_def)
  moreover have "rqType sample_put = ReqProduce" "\<not> CanProduce RoleConsumer"
    by (simp_all add: sample_put_def new_request_def CanProduce_def Role_defs)
  ultimately show ?thesis
    using permissions_enforced [of sample_put RoleConsumer sample_topic_server sample_env] by blast
qed

text \<open>A topic name built from a base name and a partition number parses back to both, so the
  request goes to the broker the controller names for that partition.\<close>

theorem topic_partition_roundtrip:
  assumes "0 \<le> part" "part < 2 ^ 31"
  shows "parseTopicPartition (partition_key topic part) = (topic, part)
    \<and> (isLeaderFor (partition_key topic part) s \<longleftrightarrow> GetLeader topic part (svController s) = svBrokerID s)"
proof -
  have "CHR ''-'' \<notin> set (itoa part)"
    using decimal_props(2) [of "nat part"] assms(1) by (auto simp: itoa_def list_all_iff)
  then have idx: "LastIndex (topic @ CHR ''-'' # itoa part) CHR ''-'' = int (length topic)"
    by (rule LastIndex_append)
  have "in_int64 part" "in_int32 part" using assms by (simp_all add: in_int64_def in_int32_def)
  then have "parseTopicPartition (partition_key topic part) = (topic, part)"
    by (simp add: parseTopicPartition_def partition_key_def idx int32_id nat_add_distrib)
  then show ?thesis by (simp add: isLeaderFor_def)
qed

theorem topic_partition_roundtrip_witness:
  "parseTopicPartition (partition_key ''orders-eu'' 3) = (''orders-eu'', 3)"
  using topic_partition_roundtrip [of 3 "''orders-eu''" sample_server] by simp

end
