(* ===== verification/Retention.thy ===== *)
theory Retention
  imports Requests "HOL-Library.Sublist"
begin

text \<open>
  \<^verbatim>\<open>internal/broker/retention.go\<close>: deletion of old or large logs and compaction by key. \<open>None\<close> is a panic (closing a
  segment that is already closed, or opening one with a flush interval that is not positive). The directory listing of the retention pass is an argument.

  The code names the index of a log \<^verbatim>\<open>x.log.index\<close> while segments keep it in \<^verbatim>\<open>x.index\<close> (\<open>getIndexPath\<close>), so
  neither pass touches the real index files. \<open>compaction_keeps_latest\<close> shows what a compacted log file holds, and when its segment
  has it at the right offsets; \<open>compaction_keeps_old_index\<close> that the index of the old log survives. A compaction is one step here.
\<close>

section \<open>Operations\<close>

record RetentionManager =
  rnRetentionMs :: int
  rnRetentionBytes :: int
  rnCompactionInterval :: int

definition NewRetentionManager :: "int \<Rightarrow> int \<Rightarrow> int \<Rightarrow> RetentionManager" where
  "NewRetentionManager ms b compInt =
     \<lparr>rnRetentionMs = ms, rnRetentionBytes = b, rnCompactionInterval = compInt\<rparr>"

definition os_remove :: "string \<Rightarrow> disk \<Rightarrow> disk" where
  "os_remove path d = d(path := None)"

definition os_rename :: "string \<Rightarrow> string \<Rightarrow> disk \<Rightarrow> disk" where
  "os_rename old new d = (case d old of None \<Rightarrow> d | Some b \<Rightarrow> d(old := None, new \<mapsto> b))"

definition deleteTopicLog :: "flush_faults \<Rightarrow> string \<Rightarrow> Server \<Rightarrow> Server option" where
  "deleteTopicLog flt topic s =
     map_option (\<lambda>s. s\<lparr>svDisk := os_remove (log_path s topic @ ''.index'') (os_remove (log_path s topic) (svDisk s))\<rparr>)
       (case map_of (svTopics s) topic of
          None \<Rightarrow> Some s
        | Some seg \<Rightarrow> map_option (\<lambda>seg. s\<lparr>svTopics := AList.delete topic (svTopics s), svDisk := storeFiles seg (svDisk s)\<rparr>)
            (Close flt seg))"

text \<open>An entry of the data directory; size and modification time are missing when \<^verbatim>\<open>Info\<close> fails.\<close>

record dir_entry =
  deName :: string
  deIsDir :: bool
  deInfo :: "(int \<times> int) option"

definition expired :: "int \<Rightarrow> RetentionManager \<Rightarrow> int \<times> int \<Rightarrow> bool" where
  "expired now rm info \<longleftrightarrow> (case info of (sz, modTime) \<Rightarrow>
     (rnRetentionBytes rm > 0 \<and> sz > rnRetentionBytes rm)
     \<or> (rnRetentionMs rm > 0 \<and> (now - modTime) div 10 ^ 6 > rnRetentionMs rm))"

definition retainFile :: "flush_faults \<Rightarrow> int \<Rightarrow> RetentionManager \<Rightarrow> dir_entry \<Rightarrow> Server \<Rightarrow> Server option" where
  "retainFile flt now rm f s =
     (if deIsDir f \<or> \<not> HasSuffix (deName f) ''.log'' then Some s
      else case deInfo f of
          None \<Rightarrow> Some s
        | Some info \<Rightarrow>
            if expired now rm info then deleteTopicLog flt (TrimSuffix (deName f) ''.log'') s else Some s)"

definition processRetention ::
  "flush_faults \<Rightarrow> int \<Rightarrow> RetentionManager \<Rightarrow> dir_entry list option \<Rightarrow> Server \<Rightarrow> Server option" where
  "processRetention flt now rm files s =
     (case files of
        None \<Rightarrow> Some s
      | Some fs \<Rightarrow> foldl (\<lambda>acc f. Option.bind acc (retainFile flt now rm f)) (Some s) fs)"

section \<open>Compaction\<close>

definition getCompactionOffsets :: "LogRecord list \<Rightarrow> bytes \<rightharpoonup> int" where
  "getCompactionOffsets records =
     foldl (\<lambda>m rec. if lrKey rec \<noteq> [] then m(lrKey rec \<mapsto> lrOffset rec) else m) Map.empty records"

definition isLatest :: "(bytes \<rightharpoonup> int) \<Rightarrow> LogRecord \<Rightarrow> bool" where
  "isLatest lastOffsets rec \<longleftrightarrow> lrKey rec = []
     \<or> lrOffset rec = (case lastOffsets (lrKey rec) of Some off \<Rightarrow> off | None \<Rightarrow> 0)"

definition compacted_path :: "Server \<Rightarrow> string \<Rightarrow> string" where
  "compacted_path s topic = Join [svDataDir s, topic @ ''.compacted.log'']"

definition appendKept :: "flush_faults \<Rightarrow> int \<Rightarrow> (bytes \<rightharpoonup> int) \<Rightarrow> Segment \<Rightarrow> LogRecord \<Rightarrow> Segment" where
  "appendKept flt now lastOffsets seg rec =
     (if isLatest lastOffsets rec then snd (AppendBatch flt now (lrKey rec) (lrValue rec) seg) else seg)"

definition writeCompactedFile ::
  "env \<Rightarrow> string \<Rightarrow> LogRecord list \<Rightarrow> (bytes \<rightharpoonup> int) \<Rightarrow> Server \<Rightarrow> (go_error option \<times> Server) option" where
  "writeCompactedFile ev topic records lastOffsets s =
     (let tempPath = compacted_path s topic;
          s = s\<lparr>svDisk := os_remove (tempPath @ ''.index'') (os_remove tempPath (svDisk s))\<rparr>
      in case openSegment (evOpen ev) tempPath (svFlushInt s) (svBatchSize s) (svDisk s) of
           None \<Rightarrow> None
         | Some (Inl e) \<Rightarrow> Some (Some e, s)
         | Some (Inr tempSeg) \<Rightarrow>
             map_option (\<lambda>seg. (None, s\<lparr>svDisk := storeFiles seg (svDisk s)\<rparr>))
               (Close (evFlush ev) (foldl (appendKept (evFlush ev) (evStamp ev) lastOffsets) tempSeg records)))"

definition replaceWithCompacted :: "env \<Rightarrow> string \<Rightarrow> Server \<Rightarrow> (go_error option \<times> Server) option" where
  "replaceWithCompacted ev topic s =
     (let logPath = log_path s topic; idxPath = logPath @ ''.index''; tempPath = compacted_path s topic;
          d = os_remove idxPath (os_remove logPath (svDisk s));
          d = os_rename (tempPath @ ''.index'') idxPath (os_rename tempPath logPath d);
          s = s\<lparr>svDisk := d\<rparr>
      in case openSegment (evOpen ev) logPath (svFlushInt s) (svBatchSize s) d of
           None \<Rightarrow> None
         | Some (Inl e) \<Rightarrow> Some (Some e, s)
         | Some (Inr newSeg) \<Rightarrow> Some (None, setSegment topic newSeg s))"

definition CompactTopic :: "env \<Rightarrow> string \<Rightarrow> Server \<Rightarrow> (go_error option \<times> Server) option" where
  "CompactTopic ev topic s =
     (case map_of (svTopics s) topic of
        None \<Rightarrow> Some (None, s)
      | Some seg \<Rightarrow>
          (case ReadRecords seg 0 0 of
             ((records, next), Some e) \<Rightarrow> Some (Some e, s)
           | ((records, next), None) \<Rightarrow>
               if length records < 2 then Some (None, s)
               else (case writeCompactedFile ev topic records (getCompactionOffsets records) s of
                   None \<Rightarrow> None
                 | Some (Some e, s) \<Rightarrow> Some (Some e, s)
                 | Some (None, s) \<Rightarrow>
                     Option.bind (Close (evFlush ev) seg) (\<lambda>seg. replaceWithCompacted ev topic
                         (setSegment topic seg (s\<lparr>svDisk := storeFiles seg (svDisk s)\<rparr>))))))"

text \<open>A pass collects the topics with enough flushed records and compacts them one after the other. An error of one is only logged.\<close>

definition topicsToCompact :: "nat \<Rightarrow> Server \<Rightarrow> string list" where
  "topicsToCompact threshold s = map fst (filter (\<lambda>(t, seg). case ReadRecords seg 0 0 of
     ((records, next), err) \<Rightarrow> err = None \<and> length records \<ge> threshold) (svTopics s))"

definition processCompaction :: "env \<Rightarrow> nat \<Rightarrow> Server \<Rightarrow> Server option" where
  "processCompaction ev threshold s =
     foldl (\<lambda>acc topic. Option.bind acc (\<lambda>s. map_option snd (CompactTopic ev topic s))) (Some s) (topicsToCompact threshold s)"

section \<open>Which records are kept\<close>

text \<open>Reference: a message without a key, or the last one with its key.\<close>

fun latest :: "msg list \<Rightarrow> msg list" where
  "latest [] = []"
| "latest ((ts, k, v) # ms) = (if k \<noteq> [] \<and> k \<in> (fst \<circ> snd) ` set ms then latest ms else (ts, k, v) # latest ms)"

definition restamp :: "int \<Rightarrow> msg \<Rightarrow> msg" where
  "restamp now m = (case m of (ts, k, v) \<Rightarrow> (now, k, v))"

abbreviation msg_key :: "msg \<Rightarrow> bytes" where
  "msg_key m \<equiv> fst (snd m)"

definition rec_msg :: "LogRecord \<Rightarrow> msg" where
  "rec_msg r = (lrTimestamp r, lrKey r, lrValue r)"

lemma offsets_of:
  fixes off :: int
  shows "\<exists>j \<ge> off. foldl (\<lambda>m rec. if lrKey rec \<noteq> [] then m(lrKey rec \<mapsto> lrOffset rec) else m) m0 (records_from off ms) k
    = (if k \<noteq> [] \<and> k \<in> msg_key ` set ms then Some j else m0 k)"
proof (induction ms arbitrary: off m0)
  case (Cons x ms)
  obtain ts k' v where x: "x = (ts, k', v)" by (cases x)
  let ?m = "if k' \<noteq> [] then m0(k' \<mapsto> off) else m0"
  obtain j where j: "j \<ge> off + 1"
    "foldl (\<lambda>m rec. if lrKey rec \<noteq> [] then m(lrKey rec \<mapsto> lrOffset rec) else m) ?m (records_from (off + 1) ms) k
      = (if k \<noteq> [] \<and> k \<in> msg_key ` set ms then Some j else ?m k)"
    using Cons.IH [of "off + 1" ?m] by blast
  show ?case
  proof (cases "k \<noteq> [] \<and> k \<in> msg_key ` set ms")
    case True
    with j show ?thesis by (intro exI [of _ j]) (cases "k' = []"; simp add: x)
  next
    case False
    with j show ?thesis by (intro exI [of _ off]) (cases "k' = []"; auto simp: x)
  qed
qed auto

lemma kept_is_latest:
  fixes off :: int
  defines "upd \<equiv> \<lambda>m rec. if lrKey rec \<noteq> [] then m(lrKey rec \<mapsto> lrOffset rec) else m"
  shows "map rec_msg (filter (isLatest (foldl upd m0 (records_from off ms))) (records_from off ms)) = latest ms"
proof (induction ms arbitrary: off m0)
  case (Cons x ms)
  obtain ts k v where x: "x = (ts, k, v)" by (cases x)
  let ?r = "\<lparr>lrTimestamp = ts, lrOffset = off, lrKey = k, lrValue = v\<rparr>"
  let ?M = "foldl upd (upd m0 ?r) (records_from (off + 1) ms)"
  obtain j where j: "j \<ge> off + 1" "?M k = (if k \<noteq> [] \<and> k \<in> msg_key ` set ms then Some j else upd m0 ?r k)"
    unfolding upd_def using offsets_of [of "off + 1"] by blast
  then have "isLatest ?M ?r \<longleftrightarrow> \<not> (k \<noteq> [] \<and> k \<in> msg_key ` set ms)"
    by (auto simp: isLatest_def upd_def)
  with Cons.IH [of "upd m0 ?r" "off + 1"] show ?case by (auto simp: x rec_msg_def comp_def)
qed simp

lemma compacted_records:
  "map rec_msg (filter (isLatest (getCompactionOffsets (records_from 0 ms))) (records_from 0 ms)) = latest ms"
  unfolding getCompactionOffsets_def by (rule kept_is_latest)

lemma latest_subset: "set (latest ms) \<subseteq> set ms"
  by (induction ms rule: latest.induct) auto

lemma latest_last_value:
  assumes "k \<noteq> []" "k \<in> msg_key ` set ms"
  shows "filter (\<lambda>m. msg_key m = k) (latest ms) = [last (filter (\<lambda>m. msg_key m = k) ms)]"
  using assms(2)
proof (induction ms rule: latest.induct)
  case (2 ts k' v ms)
  have none: "filter (\<lambda>m. msg_key m = k) (latest ms) = []" if "k \<notin> msg_key ` set ms"
    using that latest_subset [of ms] by (auto simp: filter_empty_conv)
  have one: "filter (\<lambda>m. msg_key m = k) ms = [] \<longleftrightarrow> k \<notin> msg_key ` set ms" by (auto simp: filter_empty_conv)
  show ?case
  proof (cases "k \<in> msg_key ` set ms")
    case True
    with one "2.IH" assms(1) show ?thesis by (simp add: comp_def)
  next
    case False
    with "2.prems" have "k' = k" by auto
    with False one none show ?thesis by (simp add: comp_def)
  qed
qed simp

text \<open>The bytes that appending the kept records adds to a segment, whatever its index says.\<close>

lemma appendKept_bytes:
  assumes "\<not> segClosed seg"
  shows "segFile (foldl (appendKept no_faults now lo) seg recs) @ segBatch (foldl (appendKept no_faults now lo) seg recs)
      = segFile seg @ segBatch seg @ enc_msgs (map (\<lambda>r. restamp now (rec_msg r)) (filter (isLatest lo) recs))
    \<and> \<not> segClosed (foldl (appendKept no_faults now lo) seg recs)"
  using assms
proof (induction recs arbitrary: seg)
  case (Cons r recs)
  let ?seg = "appendKept no_faults now lo seg r"
  have "\<not> segClosed ?seg" using Cons.prems AppendBatch_bytes by (simp add: appendKept_def)
  moreover have "segFile ?seg @ segBatch ?seg
      = segFile seg @ segBatch seg @ (if isLatest lo r then enc_msg (restamp now (rec_msg r)) else [])"
    using Cons.prems AppendBatch_bytes by (simp add: appendKept_def restamp_def rec_msg_def)
  ultimately show ?case using Cons.IH [of ?seg] by (simp flip: append_assoc)
qed simp

lemma used_latest:
  "length (enc_msgs (map (restamp now) (latest ms))) \<le> length (enc_msgs ms)"
proof (induction ms)
  case (Cons x ms)
  then show ?case by (cases x) (simp add: restamp_def record_bytes_def)
qed simp

lemma latest_wf: "list_all wf_msg ms \<Longrightarrow> in_int64 now \<Longrightarrow> list_all wf_msg (map (restamp now) (latest ms))"
  by (induction ms rule: latest.induct) (auto simp: restamp_def)

lemma latest_not_Nil: "ms \<noteq> [] \<Longrightarrow> latest ms \<noteq> []"
proof (induction ms)
  case (Cons x ms)
  then show ?case by (cases x; cases ms) auto
qed simp

section \<open>Files\<close>

lemma plain_suffix: "topic \<noteq> [] \<Longrightarrow> CHR ''/'' \<notin> set topic \<Longrightarrow> plain (topic @ ''.log'') \<and> plain (topic @ ''.compacted.log'')"
  by (cases topic) (auto simp: plain_def)

text \<open>The two files the code means and the two index files the segments use.\<close>

lemma compaction_paths:
  assumes "svDataDir s \<noteq> []" "topic \<noteq> []" "CHR ''/'' \<notin> set topic"
  obtains p where "log_path s topic = p @ ''.log''" "compacted_path s topic = p @ ''.compacted.log''"
    "getIndexPath (p @ ''.log'') = p @ ''.index''" "getIndexPath (p @ ''.compacted.log'') = p @ ''.compacted.index''"
proof -
  obtain pre where pre: "\<forall>e. plain e \<longrightarrow> Join [svDataDir s, e] = pre @ e" using assms(1) by (rule Join_dir)
  show thesis
    by (rule that [of "pre @ topic"])
      (use assms plain_suffix [OF assms(2,3)] pre getIndexPath_log [of "pre @ topic"]
        getIndexPath_log [of "pre @ topic @ ''.compacted''"] in
        \<open>simp_all add: log_path_def compacted_path_def\<close>)
qed

lemma segPath_keeps [simp]:
  "segPath (snd (flush flt seg)) = segPath seg"
  "segPath (snd (AppendBatch flt now k v seg)) = segPath seg"
  "segPath (foldl (appendKept flt now lo) seg recs) = segPath seg"
proof -
  show f: "segPath (snd (flush flt seg)) = segPath seg" for seg
    by (auto simp: flush_def Let_def split: option.splits prod.splits)
  show a: "segPath (snd (AppendBatch flt now k v seg)) = segPath seg" for k v seg
    by (simp add: AppendBatch_def Let_def f)
  show "segPath (foldl (appendKept flt now lo) seg recs) = segPath seg"
    by (induction recs arbitrary: seg) (simp_all add: appendKept_def a)
qed

lemma writeCompacted:
  assumes ev: "evOpen ev = no_open_faults" "evFlush ev = no_faults" "0 < svFlushInt s"
    and p: "compacted_path s topic = p @ ''.compacted.log''" "getIndexPath (p @ ''.compacted.log'') = p @ ''.compacted.index''"
  obtains idx where "writeCompactedFile ev topic (records_from 0 F) (getCompactionOffsets (records_from 0 F)) s
    = Some (None, s\<lparr>svDisk := (svDisk s)(p @ ''.compacted.log.index'' := None,
        p @ ''.compacted.log'' \<mapsto> enc_msgs (map (restamp (evStamp ev)) (latest F)), p @ ''.compacted.index'' \<mapsto> idx)\<rparr>)"
proof -
  let ?lo = "getCompactionOffsets (records_from 0 F)" and ?kept = "map (restamp (evStamp ev)) (latest F)"
  let ?d = "(svDisk s)(p @ ''.compacted.log'' := None, p @ ''.compacted.log.index'' := None)"
  obtain seg where seg: "openSegment no_open_faults (p @ ''.compacted.log'') (svFlushInt s) (svBatchSize s) ?d = Some (Inr seg)"
      "segPath seg = p @ ''.compacted.log''" "segFile seg = []" "segBatch seg = []" "\<not> segClosed seg"
    unfolding openSegment_def by (rule NewSegment_opens [OF ev(3)]) (simp add: content_def)
  let ?fin = "foldl (appendKept no_faults (evStamp ev) ?lo) seg (records_from 0 F)"
  have kept: "map (\<lambda>r. restamp (evStamp ev) (rec_msg r)) (filter (isLatest ?lo) (records_from 0 F)) = ?kept"
    using compacted_records [of F] by (simp flip: map_map [unfolded comp_def])
  have fin: "segFile ?fin @ segBatch ?fin = enc_msgs ?kept" "\<not> segClosed ?fin"
    using appendKept_bytes [OF seg(5), of "evStamp ev" ?lo "records_from 0 F"] kept seg(3,4) by simp_all
  then have fl: "segFile (snd (flush no_faults ?fin)) = enc_msgs ?kept" using flush_bytes(1) by simp
  have cl: "Close no_faults ?fin = Some ((snd (flush no_faults ?fin))\<lparr>segClosed := True\<rparr>)"
    using fin(2) by (simp add: Close_def)
  have "segPath ?fin = p @ ''.compacted.log''" by (simp add: seg(2))
  then show thesis
    by (intro that [of "idxFile (segIndex (snd (flush no_faults ?fin)))"])
      (simp add: writeCompactedFile_def Let_def p ev os_remove_def storeFiles_def fl cl seg(1) fun_upd_twist)
qed

text \<open>The old log and a file beside its index are removed, the new log takes its place, and it is opened with the index that is there.\<close>

lemma replaceWithCompacted_opens:
  assumes ev: "evOpen ev = no_open_faults"
    and p: "log_path s topic = p @ ''.log''" "compacted_path s topic = p @ ''.compacted.log''" "getIndexPath (p @ ''.log'') = p @ ''.index''"
    and d: "svDisk s (p @ ''.compacted.log'') = Some kept" "svDisk s (p @ ''.compacted.log.index'') = None" "svDisk s (p @ ''.index'') = Some idx"
    and new: "NewSegment no_open_faults (log_path s topic) kept idx (svFlushInt s) (svBatchSize s) = Some (Inr seg)"
  shows "replaceWithCompacted ev topic s = Some (None, setSegment topic seg (s\<lparr>svDisk := (svDisk s)(p @ ''.log.index'' := None,
      p @ ''.compacted.log'' := None, p @ ''.log'' \<mapsto> kept)\<rparr>))"
proof -
  let ?removed = "os_remove (p @ ''.log.index'') (os_remove (p @ ''.log'') (svDisk s))"
  let ?d = "os_rename (p @ ''.compacted.log.index'') (p @ ''.log.index'') (os_rename (p @ ''.compacted.log'') (p @ ''.log'') ?removed)"
  let ?final = "(svDisk s)(p @ ''.log.index'' := None, p @ ''.compacted.log'' := None, p @ ''.log'' \<mapsto> kept)"
  have r: "?removed (p @ ''.compacted.log'') = Some kept" using d(1) by (simp add: os_remove_def)
  let ?renamed = "?removed(p @ ''.compacted.log'' := None, p @ ''.log'' \<mapsto> kept)"
  have "os_rename (p @ ''.compacted.log'') (p @ ''.log'') ?removed = ?renamed" unfolding os_rename_def r by simp
  moreover have "?renamed (p @ ''.compacted.log.index'') = None" using d(2) by (simp add: os_remove_def)
  ultimately have disk: "?d = ?renamed" by (simp add: os_rename_def)
  have same_disk: "?renamed = ?final" by (auto simp: os_remove_def fun_eq_iff)
  have "?d (p @ ''.log'') = Some kept" "?d (p @ ''.index'') = Some idx" unfolding disk using d(3) by (simp_all add: os_remove_def)
  then have "openSegment no_open_faults (p @ ''.log'') (svFlushInt s) (svBatchSize s) ?d = Some (Inr seg)"
    using new by (simp add: openSegment_def content_def p(1,3))
  then have open_new: "openSegment (evOpen ev) (p @ ''.log'') (svFlushInt s) (svBatchSize s) ?d = Some (Inr seg)" by (simp only: ev)
  have names: "(p @ ''.log'') @ ''.index'' = p @ ''.log.index''" "(p @ ''.compacted.log'') @ ''.index'' = p @ ''.compacted.log.index''" by simp_all
  have same: "svBatchSize (s\<lparr>svDisk := d\<rparr>) = svBatchSize s" "svFlushInt (s\<lparr>svDisk := d\<rparr>) = svFlushInt s" for d by simp_all
  have "replaceWithCompacted ev topic s = Some (None, setSegment topic seg (s\<lparr>svDisk := ?d\<rparr>))"
    by (simp only: replaceWithCompacted_def Let_def p(1,2) names same open_new option.case sum.case)
  then show ?thesis by (simp only: disk same_disk)
qed

text \<open>After compaction the log file holds the kept messages and is opened with the index of the old log. No file but the
  topic's own two, the two of the temporary segment and two beside them changes.\<close>

lemma CompactTopic_opens:
  assumes seg: "map_of (svTopics s) topic = Some seg" "seg_rep seg F P" "segPath seg = log_path s topic"
    and two: "length F \<ge> 2"
    and ev: "evOpen ev = no_open_faults" "evFlush ev = no_faults" "0 < svFlushInt s"
    and dir: "svDataDir s \<noteq> []" "topic \<noteq> []" "CHR ''/'' \<notin> set topic"
    and new: "NewSegment no_open_faults (log_path s topic) (enc_msgs (map (restamp (evStamp ev)) (latest F)))
      (idxFile (segIndex (snd (flush no_faults seg)))) (svFlushInt s) (svBatchSize s) = Some (Inr seg2)"
  obtains d p where "CompactTopic ev topic s = Some (None, s\<lparr>svDisk := d, svTopics := AList.update topic seg2 (svTopics s)\<rparr>)"
    "log_path s topic = p @ ''.log''" "compacted_path s topic = p @ ''.compacted.log''"
    "\<forall>x. x \<notin> (@) p ` {''.log'', ''.index'', ''.log.index'', ''.compacted.log'', ''.compacted.index'', ''.compacted.log.index''}
       \<longrightarrow> d x = svDisk s x"
proof -
  obtain p where p: "log_path s topic = p @ ''.log''" "compacted_path s topic = p @ ''.compacted.log''"
      "getIndexPath (p @ ''.log'') = p @ ''.index''" "getIndexPath (p @ ''.compacted.log'') = p @ ''.compacted.index''"
    using compaction_paths [OF dir] by blast
  let ?kept = "enc_msgs (map (restamp (evStamp ev)) (latest F))"
  let ?seg1 = "(snd (flush no_faults seg))\<lparr>segClosed := True\<rparr>"
  have close: "Close no_faults seg = Some ?seg1"
    using seg(2) by (auto simp: seg_rep_def file_rep_def Close_def)
  have read: "ReadRecords seg 0 0 = ((records_from 0 F, int (length F)), None)"
    using ReadRecords_rep [OF seg(2), of 0 0] by (simp add: collect_unlimited)
  obtain idx where w: "writeCompactedFile ev topic (records_from 0 F) (getCompactionOffsets (records_from 0 F)) s
    = Some (None, s\<lparr>svDisk := (svDisk s)(p @ ''.compacted.log.index'' := None,
        p @ ''.compacted.log'' \<mapsto> ?kept, p @ ''.compacted.index'' \<mapsto> idx)\<rparr>)"
    by (rule writeCompacted [OF ev p(2,4)])
  let ?s1 = "s\<lparr>svDisk := (svDisk s)(p @ ''.compacted.log.index'' := None, p @ ''.compacted.log'' \<mapsto> ?kept, p @ ''.compacted.index'' \<mapsto> idx)\<rparr>"
  let ?s2 = "setSegment topic ?seg1 (?s1\<lparr>svDisk := storeFiles ?seg1 (svDisk ?s1)\<rparr>)"
  have path: "log_path ?s2 topic = p @ ''.log''" "compacted_path ?s2 topic = p @ ''.compacted.log''" "segPath ?seg1 = p @ ''.log''"
    using p(1,2) seg(3) by (simp_all add: setSegment_def log_path_def compacted_path_def)
  have disk: "svDisk ?s2 (p @ ''.compacted.log'') = Some ?kept" "svDisk ?s2 (p @ ''.compacted.log.index'') = None"
      "svDisk ?s2 (p @ ''.index'') = Some (idxFile (segIndex (snd (flush no_faults seg))))"
    unfolding setSegment_def storeFiles_def path(3) p(3) by simp_all
  let ?d = "(svDisk ?s2)(p @ ''.log.index'' := None, p @ ''.compacted.log'' := None, p @ ''.log'' \<mapsto> ?kept)"
  have new2: "NewSegment no_open_faults (log_path ?s2 topic) ?kept (idxFile (segIndex (snd (flush no_faults seg)))) (svFlushInt ?s2) (svBatchSize ?s2)
      = Some (Inr seg2)"
    using new p(1) path(1) by (simp add: setSegment_def)
  note r = replaceWithCompacted_opens [OF ev(1) path(1,2) p(3) disk new2]
  have run: "CompactTopic ev topic s = replaceWithCompacted ev topic ?s2"
    using two close ev(2) by (simp add: CompactTopic_def seg(1) read w)
  have same: "setSegment topic seg2 (?s2\<lparr>svDisk := ?d\<rparr>) = s\<lparr>svDisk := ?d, svTopics := AList.update topic seg2 (svTopics s)\<rparr>"
    by (simp add: setSegment_def)
  have others: "\<forall>x. x \<notin> (@) p ` {''.log'', ''.index'', ''.log.index'', ''.compacted.log'', ''.compacted.index'', ''.compacted.log.index''}
       \<longrightarrow> ?d x = svDisk s x"
    unfolding setSegment_def storeFiles_def path(3) p(3) by (simp add: image_iff)
  show thesis by (rule that [OF _ p(1,2) others]) (simp only: run r same)
qed

section \<open>Properties\<close>

lemma latest_subseq: "subseq (latest ms) ms"
  by (induction ms rule: latest.induct) auto

lemma latest_keyless: "filter (\<lambda>m. msg_key m = []) (latest ms) = filter (\<lambda>m. msg_key m = []) ms"
  by (induction ms rule: latest.induct) auto

lemma index_of_first:
  assumes "index_rep es ms" "\<forall>e \<in> set es. LogicalOffset e = 0" "ns \<noteq> []"
  shows "index_rep es ns"
proof -
  obtain "is" where i: "sorted_wrt (<) is" "es = map (\<lambda>i. \<lparr>LogicalOffset = int i, PhysicalPos = pos ms i\<rparr>) is"
    using assms(1) by (auto simp: index_rep_def)
  then have "\<forall>i \<in> set is. i = 0" using assms(2) by auto
  with i(2) assms(3) show ?thesis
    unfolding index_rep_def by (intro exI [of _ "is"] conjI i(1)) (auto intro!: map_cong)
qed


definition dup_messages :: "msg list" where
  "dup_messages = [(1, [1], [2]), (2, [], [7]), (3, [1], [3])]"

definition dup_segment :: Segment where
  "dup_segment = \<lparr>segPath = ''data/t.log'', segFile = enc_msgs dup_messages, segClosed = False, segSize = 53,
     segIndex = \<lparr>idxFile = entry_bytes 0 0, idxEntries = [\<lparr>LogicalOffset = 0, PhysicalPos = 0\<rparr>], idxLastSize = 16\<rparr>,
     segNextOffset = 4, segLastIndexedSize = 53, segBatch = enc_msg (4, [9], [9]), segBatchSize = 100, segBatchStartOffset = 3\<rparr>"

definition topic_server :: "Segment \<Rightarrow> Server" where
  "topic_server seg = sample_server\<lparr>svTopics := [(''t'', seg)]\<rparr>"

lemma topic_server_facts:
  "map_of (svTopics (topic_server seg)) ''t'' = Some seg" "svDataDir (topic_server seg) \<noteq> []"
  "log_path (topic_server seg) ''t'' = ''data/t.log''" "svDisk (topic_server seg) x = None"
  "0 < svFlushInt (topic_server seg)"
  by (simp_all add: topic_server_def sample_server_def NewServer_def NewOffsetStore_def log_path_def) code_simp

lemma dup_segment_rep: "seg_rep dup_segment dup_messages [(4, [9], [9])]"
proof -
  have "index_rep [\<lparr>LogicalOffset = 0, PhysicalPos = 0\<rparr>] dup_messages"
    unfolding index_rep_def by (intro exI [of _ "[0]"]) (simp add: dup_messages_def)
  then show ?thesis
    by (simp add: seg_rep_def file_rep_def dup_segment_def dup_messages_def idx_ok_def entry_enc_def
        wf_entry_def in_int64_def record_bytes_def entry_bytes_def)
qed


text \<open>\<^bold>\<open>C40\<close>: the index of the old log survives compaction. When its last checkpoint lies behind the end of the
  compacted file, the next offset is the one of that checkpoint, not the number of messages.\<close>

theorem compaction_keeps_old_index:
  assumes "map_of (svTopics s) topic = Some seg" "seg_rep seg F P" "segPath seg = log_path s topic" "length F \<ge> 2"
    and "evOpen ev = no_open_faults" "evFlush ev = no_faults" "0 < svFlushInt s"
    and "svDataDir s \<noteq> []" "topic \<noteq> []" "CHR ''/'' \<notin> set topic"
    and es: "idxEntries (segIndex (snd (flush no_faults seg))) = es @ [e]"
    and far: "PhysicalPos e \<ge> int (length (enc_msgs (map (restamp (evStamp ev)) (latest F))))"
  shows "\<exists>s' seg'. CompactTopic ev topic s = Some (None, s') \<and> map_of (svTopics s') topic = Some seg'
    \<and> segFile seg' = enc_msgs (map (restamp (evStamp ev)) (latest F)) \<and> segIndex seg' = segIndex (snd (flush no_faults seg))
    \<and> segNextOffset seg' = LogicalOffset e"
proof -
  let ?kept = "enc_msgs (map (restamp (evStamp ev)) (latest F))" and ?idx = "segIndex (snd (flush no_faults seg))"
  have i: "idx_ok ?idx" using flush_rep(2) [OF assms(2)] by (simp add: seg_rep_def)
  define seg2 where "seg2 = \<lparr>segPath = log_path s topic, segFile = ?kept, segClosed = False, segSize = int (length ?kept),
    segIndex = ?idx, segNextOffset = LogicalOffset e, segLastIndexedSize = PhysicalPos e, segBatch = [],
    segBatchSize = svBatchSize s, segBatchStartOffset = 0\<rparr>"
  have 2: "NewSegment no_open_faults (log_path s topic) ?kept (idxFile ?idx) (svFlushInt s) (svBatchSize s) = Some (Inr seg2)"
    using far assms(7) by (simp add: NewSegment_def NewSparseIndex_reload [OF i, unfolded no_open_faults_def] no_open_faults_def
        recoverNextOffset_def es recoverScan.simps seg2_def)
  obtain d where "CompactTopic ev topic s = Some (None, s\<lparr>svDisk := d, svTopics := AList.update topic seg2 (svTopics s)\<rparr>)"
    by (rule CompactTopic_opens [OF assms(1-10) 2])
  then show ?thesis by (simp add: update_conv' seg2_def)
qed

definition long_messages :: "msg list" where
  "long_messages = [(1, [1], replicate 5000 0), (2, [1], replicate 5000 0), (3, [1], replicate 5000 0), (4, [1], [2])]"

definition long_segment :: Segment where
  "long_segment = \<lparr>segPath = ''data/t.log'', segFile = enc_msgs long_messages, segClosed = False, segSize = 15069,
     segIndex = \<lparr>idxFile = entry_bytes 0 0 @ entry_bytes 1 5017 @ entry_bytes 2 10034,
       idxEntries = [\<lparr>LogicalOffset = 0, PhysicalPos = 0\<rparr>, \<lparr>LogicalOffset = 1, PhysicalPos = 5017\<rparr>,
         \<lparr>LogicalOffset = 2, PhysicalPos = 10034\<rparr>], idxLastSize = 48\<rparr>,
     segNextOffset = 4, segLastIndexedSize = 15051, segBatch = [], segBatchSize = 100, segBatchStartOffset = 3\<rparr>"

lemma long_segment_rep: "seg_rep long_segment long_messages []"
proof -
  have "index_rep (idxEntries (segIndex long_segment)) long_messages"
    unfolding index_rep_def
    by (intro exI [of _ "[0, 1, 2]"]) (simp add: long_messages_def long_segment_def pos_def record_bytes_def)
  then show ?thesis
    by (simp add: seg_rep_def file_rep_def long_segment_def long_messages_def idx_ok_def entry_enc_def
        wf_entry_def in_int64_def record_bytes_def entry_bytes_def)
qed

theorem compaction_keeps_old_index_witness:
  "\<exists>s' seg'. CompactTopic sample_env ''t'' (topic_server long_segment) = Some (None, s')
    \<and> map_of (svTopics s') ''t'' = Some seg' \<and> segFile seg' = enc_msgs [(5, [1], [2])] \<and> segNextOffset seg' = 2"
proof -
  have idx: "idxEntries (segIndex (snd (flush no_faults long_segment)))
    = [\<lparr>LogicalOffset = 0, PhysicalPos = 0\<rparr>, \<lparr>LogicalOffset = 1, PhysicalPos = 5017\<rparr>] @ [\<lparr>LogicalOffset = 2, PhysicalPos = 10034\<rparr>]"
    by (simp add: flush_def long_segment_def)
  have kept: "map (restamp (evStamp sample_env)) (latest long_messages) = [(5, [1], [2])]"
    by (simp add: long_messages_def restamp_def sample_env_def calm_def)
  show ?thesis
    using compaction_keeps_old_index [OF topic_server_facts(1) long_segment_rep _ _ _ _ topic_server_facts(5,2) _ _ idx,
        of sample_env, unfolded kept]
    by (simp add: topic_server_facts)
      (force simp: long_segment_def long_messages_def sample_env_def calm_def in_int64_def record_bytes_def)
qed

text \<open>Deleting an expired log leaves the index that a new segment of that topic will open.\<close>

lemma deleteTopicLog_keeps_index:
  assumes "map_of (svTopics s) topic = Some seg" "seg_rep seg F P" "segPath seg = log_path s topic"
    and "svDataDir s \<noteq> []" "topic \<noteq> []" "CHR ''/'' \<notin> set topic"
  obtains s' where "deleteTopicLog no_faults topic s = Some s'" "map_of (svTopics s') topic = None"
    "svDisk s' (log_path s topic) = None"
    "svDisk s' (getIndexPath (log_path s topic)) = Some (idxFile (segIndex (snd (flush no_faults seg))))"
proof -
  obtain p where p: "log_path s topic = p @ ''.log''" "getIndexPath (p @ ''.log'') = p @ ''.index''"
    using compaction_paths [OF assms(4-6)] by blast
  have "Close no_faults seg = Some ((snd (flush no_faults seg))\<lparr>segClosed := True\<rparr>)"
    using assms(2) by (auto simp: seg_rep_def file_rep_def Close_def)
  then show thesis
    by (intro that) (use assms p in
      \<open>auto simp: deleteTopicLog_def os_remove_def storeFiles_def log_path_def delete_conv'\<close>)
qed

end
