(* ===== verification/Follower.thy ===== *)
theory Follower
  imports Requests
begin

text \<open>
  The follower's side of \<^verbatim>\<open>internal/broker/replication.go\<close>: the handshake, the loop that appends what the leader
  sends, and the reconnect loop. The loop over one connection consumes input with every request and always ends with an
  error, or with a panic (\<open>None\<close>) when a segment cannot get its flush ticker. The reconnect loop runs over the list of its connection attempts.

  \<open>replication_copies_log\<close> puts both sides together: what \<open>replicateToReplica\<close> sends is appended by the follower in
  the same order, and what the follower answers is an acknowledgement for each message.
\<close>

section \<open>Operations\<close>

definition join_replica :: "string \<Rightarrow> Request" where
  "join_replica nodeID = new_request ReqJoinReplica nodeID"

definition followerAppend :: "env \<Rightarrow> Request \<Rightarrow> Server \<Rightarrow> (Response \<times> Server) option" where
  "followerAppend ev req s =
     (case getOrCreateTopicSegment ev (rqTopic req) s of
        None \<Rightarrow> None
      | Some (Inl e) \<Rightarrow> Some (err_response (error_text e), s)
      | Some (Inr (seg, s)) \<Rightarrow>
          (case AppendBatch (evFlush ev) (evStamp ev) (rqKey req) (rqValue req) seg of
             (off, seg) \<Rightarrow> Some (new_response StatusOk, setSegment (rqTopic req) seg s)))"

function followerLoop :: "(nat \<Rightarrow> env) \<Rightarrow> nat \<Rightarrow> 's writer \<Rightarrow> reader \<Rightarrow> Server \<times> 's \<Rightarrow> (go_error \<times> Server \<times> 's) option" where
  "followerLoop evs i w r st =
     (case st of (s, out) \<Rightarrow>
      (case ReadRequest r of
         (Inl e, r') \<Rightarrow> Some (e, s, out)
       | (Inr req, r') \<Rightarrow>
           if rqType req \<noteq> ReqReplicate then Some (Err ''follower expected ReqReplicate'', s, out)
           else (case followerAppend (evs i) req s of
               None \<Rightarrow> None
             | Some (resp, s) \<Rightarrow>
                 (case WriteResponse w resp out of
                    (Some e, out) \<Rightarrow> Some (e, s, out)
                  | (None, out) \<Rightarrow> followerLoop evs (Suc i) w r' (s, out)))))"
  by pat_completeness auto
termination
  by (relation "measure (\<lambda>(evs, i, w, r, st). length (rbuf r))") (auto intro: ReadRequest_consumes [OF sym])

declare followerLoop.simps [simp del]

definition handleFollowerHandshakeAndLoop ::
  "(nat \<Rightarrow> env) \<Rightarrow> 's writer \<Rightarrow> string \<Rightarrow> reader \<Rightarrow> Server \<times> 's \<Rightarrow> (go_error \<times> Server \<times> 's) option" where
  "handleFollowerHandshakeAndLoop evs w nodeID r st =
     (case st of (s, out) \<Rightarrow>
      (case WriteRequest w (join_replica nodeID) out of
         (Some e, out) \<Rightarrow> Some (e, s, out)
       | (None, out) \<Rightarrow> followerLoop evs 0 w r (s, out)))"

text \<open>An attempt to connect: the error of \<^verbatim>\<open>net.Dial\<close>, or what the connection will deliver and the environments of
  its requests. The result lists what was sent on each connection.\<close>

fun RunFollowerLoop ::
  "string \<Rightarrow> (go_error + reader \<times> (nat \<Rightarrow> env)) list \<Rightarrow> Server \<Rightarrow> (bytes list \<times> Server) option" where
  "RunFollowerLoop nodeID [] s = Some ([], s)"
| "RunFollowerLoop nodeID (a # as) s =
     (if svShutdown s then Some ([], s)
      else case a of
        Inl e \<Rightarrow> RunFollowerLoop nodeID as s
      | Inr (r, evs) \<Rightarrow>
          (case handleFollowerHandshakeAndLoop evs buffer_write nodeID r (s, []) of
             None \<Rightarrow> None
           | Some (e, s, out) \<Rightarrow> map_option (apfst ((#) out)) (RunFollowerLoop nodeID as s)))"

section \<open>Appending on the follower\<close>

text \<open>The segment a topic has or would be given.\<close>

definition opens :: "Server \<Rightarrow> string \<Rightarrow> Segment \<Rightarrow> bool" where
  "opens s t seg \<longleftrightarrow> (case map_of (svTopics s) t of
       Some seg' \<Rightarrow> seg = seg'
     | None \<Rightarrow> openSegment no_open_faults (log_path s t) (svFlushInt s) (svBatchSize s) (svDisk s) = Some (Inr seg))"

lemma getOrCreate_opens:
  assumes "opens s t seg" "evOpen ev = no_open_faults"
  obtains s' where "getOrCreateTopicSegment ev t s = Some (Inr (seg, s'))" "map_of (svTopics s') t = Some seg"
  using assms by (cases "map_of (svTopics s) t") (auto simp: opens_def getOrCreateTopicSegment_def update_conv')

fun stamped :: "(nat \<Rightarrow> env) \<Rightarrow> nat \<Rightarrow> (int \<times> bytes \<times> bytes) list \<Rightarrow> msg list" where
  "stamped evs i [] = []"
| "stamped evs i ((off, k, v) # ms) = (evStamp (evs i), k, v) # stamped evs (Suc i) ms"

definition replicate_frame :: "string \<Rightarrow> int \<times> bytes \<times> bytes \<Rightarrow> bytes" where
  "replicate_frame t m = (case m of (off, k, v) \<Rightarrow> request_frame (replicate_request t off k v))"

definition replicable :: "int \<times> bytes \<times> bytes \<Rightarrow> bool" where
  "replicable m \<longleftrightarrow> (case m of (off, k, v) \<Rightarrow> in_int64 off \<and> length k < 2 ^ 32 \<and> length v < 2 ^ 32)"

lemma replicate_request_wf:
  assumes "length t < 65536" "replicable (off, k, v)"
  shows "wire_view (replicate_request t off k v) = replicate_request t off k v"
    and "wf_request (replicate_request t off k v)"
  using assms by (simp_all add: wire_view_def wf_request_def replicate_request_def new_request_def Let_def Req_defs replicable_def
      known_type_def in_int32_def in_int64_def processed_ids_def)

lemma ReadRequest_replicate:
  assumes "length t < 65536" "replicable (off, k, v)"
  shows "ReadRequest (Reader (replicate_frame t (off, k, v) @ rest) e) = (Inr (replicate_request t off k v), Reader rest e)"
  using ReadRequest_frame [of "replicate_request t off k v" rest e] replicate_request_wf [OF assms]
  by (simp add: replicate_frame_def)

lemma followerAppend_rep:
  assumes "opens s t seg" "seg_rep seg F P" "evOpen ev = no_open_faults" "evFlush ev = no_faults"
    and "wf_msg (evStamp ev, k, v)" "used seg + length (enc_msg (evStamp ev, k, v)) < 2 ^ 63"
  obtains s' seg' F' P' where "followerAppend ev (replicate_request t off k v) s = Some (new_response StatusOk, s')"
    "opens s' t seg'" "seg_rep seg' F' P'" "F' @ P' = F @ P @ [(evStamp ev, k, v)]"
    "used seg' = used seg + length (enc_msg (evStamp ev, k, v))" "map_of (svTopics s') t = Some seg'"
proof -
  obtain s1 where 1: "getOrCreateTopicSegment ev t s = Some (Inr (seg, s1))" using assms(1,3) by (rule getOrCreate_opens)
  obtain off' seg' where a: "AppendBatch no_faults (evStamp ev) k v seg = (off', seg')" by fastforce
  obtain F' P' where r: "seg_rep seg' F' P'" "F' @ P' = F @ P @ [(evStamp ev, k, v)]"
    using segment.append_rep [OF assms(2,5,6)] by (auto simp: a)
  have u: "used seg' = used seg + length (enc_msg (evStamp ev, k, v))"
    using segment.append_size [OF assms(2,5,6)] by (simp add: a)
  show thesis
    by (rule that [of "setSegment t seg' s1" seg' F' P'])
      (use r u in \<open>simp_all add: followerAppend_def replicate_request_def new_request_def 1 a assms(4) opens_def setSegment_def update_conv'\<close>)
qed

lemma followerLoop_appends:
  assumes "opens s t seg" "seg_rep seg F P" "length t < 65536" "list_all replicable ms"
    and "\<forall>i. evOpen (evs i) = no_open_faults \<and> evFlush (evs i) = no_faults \<and> in_int64 (evStamp (evs i))"
    and "used seg + length (enc_msgs (stamped evs i ms)) < 2 ^ 63"
  shows "\<exists>s' seg' F' P'. followerLoop evs i buffer_write (Reader (concat (map (replicate_frame t) ms)) EOF) (s, out)
      = Some (EOF, s', out @ concat (replicate (length ms) (response_frame (new_response StatusOk))))
    \<and> (map_of (svTopics s') t = Some seg' \<or> ms = [] \<and> s' = s \<and> seg' = seg) \<and> seg_rep seg' F' P' \<and> F' @ P' = F @ P @ stamped evs i ms"
  using assms(1,2,4,6)
proof (induction ms arbitrary: i s seg F P out)
  case Nil
  have "ReadRequest (Reader [] EOF) = (Inl EOF, Reader [] EOF)"
    by (simp add: ReadRequest_def binary_Read_int32_def rbind_def)
  then have "followerLoop evs i buffer_write (Reader [] EOF) (s, out) = Some (EOF, s, out)"
    by (subst followerLoop.simps) simp
  then show ?case using Nil.prems(1,2) by auto
next
  case (Cons m ms)
  obtain off k v where m: "m = (off, k, v)" by (cases m)
  let ?m = "(evStamp (evs i), k, v)"
  have wf: "wf_msg ?m" "used seg + length (enc_msg ?m) < 2 ^ 63" and ok: "replicable (off, k, v)"
    using Cons.prems(3,4) assms(5) by (auto simp: m replicable_def)
  obtain s1 seg1 F1 P1 where 1: "followerAppend (evs i) (replicate_request t off k v) s = Some (new_response StatusOk, s1)"
      "opens s1 t seg1" "seg_rep seg1 F1 P1" "F1 @ P1 = F @ P @ [?m]" "used seg1 = used seg + length (enc_msg ?m)"
      "map_of (svTopics s1) t = Some seg1"
    using followerAppend_rep [OF Cons.prems(1,2) _ _ wf] assms(5) by metis
  let ?out = "out @ response_frame (new_response StatusOk)"
  have step: "followerLoop evs i buffer_write (Reader (concat (map (replicate_frame t) (m # ms))) EOF) (s, out)
      = followerLoop evs (Suc i) buffer_write (Reader (concat (map (replicate_frame t) ms)) EOF) (s1, ?out)"
    using ReadRequest_replicate [OF assms(3) ok] 1(1)
    by (subst followerLoop.simps) (simp add: m WriteResponse_buffer, simp add: replicate_request_def new_request_def)
  obtain s' seg' F' P' where IH: "followerLoop evs (Suc i) buffer_write (Reader (concat (map (replicate_frame t) ms)) EOF) (s1, ?out)
      = Some (EOF, s', ?out @ concat (replicate (length ms) (response_frame (new_response StatusOk))))"
      "seg_rep seg' F' P'" "F' @ P' = F1 @ P1 @ stamped evs (Suc i) ms"
      "map_of (svTopics s') t = Some seg' \<or> ms = [] \<and> s' = s1 \<and> seg' = seg1"
    using Cons.IH [OF 1(2,3), of "Suc i" ?out] Cons.prems(3,4) 1(5) by (auto simp: m)
  have eq: "F' @ P' = F @ P @ stamped evs i (m # ms)"
    using IH(3) 1(4) by (simp add: m flip: append_assoc)
  have "map_of (svTopics s') t = Some seg'" using IH(4) 1(6) by auto
  then show ?case using step IH(1,2) eq by auto
qed

text \<open>The leader sending a list of messages to one replica, one after the other.\<close>

fun replicate_all :: "'s writer \<Rightarrow> string \<Rightarrow> (int \<times> bytes \<times> bytes) list \<Rightarrow> 's \<times> reader \<Rightarrow> go_error option list \<times> 's \<times> reader" where
  "replicate_all w t [] conn = ([], conn)"
| "replicate_all w t ((off, k, v) # ms) conn =
     (case replicateToReplica w t off k v conn of (e, conn) \<Rightarrow> apfst ((#) e) (replicate_all w t ms conn))"

lemma replicate_all_acked:
  "replicate_all buffer_write t ms (out, Reader (concat (replicate (length ms) (response_frame (new_response StatusOk))) @ rest) e)
    = (replicate (length ms) None, out @ concat (map (replicate_frame t) ms), Reader rest e)"
proof (induction ms arbitrary: out)
  case (Cons m ms)
  have "new_response StatusOk = plain_response StatusOk 0" by (simp add: plain_response_def new_response_def)
  then have "ReadResponse False (Reader (response_frame (new_response StatusOk) @ x) e) = (Inr (new_response StatusOk), Reader x e)" for x
    using plain_response_dec [of StatusOk 0 x e] by (simp add: in_int64_def StatusOk_def StatusErr_def)
  then show ?case using Cons
    by (cases m) (simp add: replicateToReplica_def WriteRequest_buffer replicate_frame_def new_response_def apfst_def map_prod_def)
qed simp

section \<open>Properties\<close>

text \<open>\<^bold>\<open>C12\<close>: a follower that receives messages of a topic from the leader appends exactly these, in order and after what
  it had, and answers each with an acknowledgement; given these answers, the leader counts every message as replicated and has
  sent exactly what the follower read.\<close>

theorem replication_copies_log:
  assumes "opens s t seg" "seg_rep seg F P" "length t < 65536" "list_all replicable ms" "ms \<noteq> []"
    and "\<forall>i. evOpen (evs i) = no_open_faults \<and> evFlush (evs i) = no_faults \<and> in_int64 (evStamp (evs i))"
    and "used seg + length (enc_msgs (stamped evs 0 ms)) < 2 ^ 63"
  shows "\<exists>s' F' P' sent acks.
      replicate_all buffer_write t ms ([], Reader acks EOF) = (replicate (length ms) None, sent, Reader [] EOF)
    \<and> handleFollowerHandshakeAndLoop evs buffer_write nodeID (Reader sent EOF) (s, [])
      = Some (EOF, s', request_frame (join_replica nodeID) @ acks)
    \<and> holds s' t F' P' \<and> F' @ P' = F @ P @ stamped evs 0 ms"
proof -
  let ?acks = "concat (replicate (length ms) (response_frame (new_response StatusOk)))"
  let ?sent = "concat (map (replicate_frame t) ms)"
  obtain s' seg' F' P' where f: "followerLoop evs 0 buffer_write (Reader ?sent EOF) (s, request_frame (join_replica nodeID))
      = Some (EOF, s', request_frame (join_replica nodeID) @ ?acks)"
      "map_of (svTopics s') t = Some seg'" "seg_rep seg' F' P'" "F' @ P' = F @ P @ stamped evs 0 ms"
    using followerLoop_appends [OF assms(1-4,6,7), of "request_frame (join_replica nodeID)"] assms(5) by blast
  have "handleFollowerHandshakeAndLoop evs buffer_write nodeID (Reader ?sent EOF) (s, [])
      = Some (EOF, s', request_frame (join_replica nodeID) @ ?acks)"
    using f(1) by (simp add: handleFollowerHandshakeAndLoop_def WriteRequest_buffer)
  moreover have "replicate_all buffer_write t ms ([], Reader ?acks EOF) = (replicate (length ms) None, ?sent, Reader [] EOF)"
    using replicate_all_acked [of t ms "[]" "[]" EOF] by simp
  moreover have "holds s' t F' P'" using f(2,3) by (auto simp: holds_def)
  ultimately show ?thesis using f(4) by blast
qed

theorem replication_copies_log_witness:
  "\<exists>s' F' P' sent acks.
      replicate_all buffer_write ''t'' [(0, [1], [2]), (1, [], [3])] ([], Reader acks EOF) = ([None, None], sent, Reader [] EOF)
    \<and> handleFollowerHandshakeAndLoop (\<lambda>_. sample_env) buffer_write ''1'' (Reader sent EOF) (sample_server, [])
      = Some (EOF, s', request_frame (join_replica ''1'') @ acks)
    \<and> holds s' ''t'' F' P' \<and> F' @ P' = [(5, [1], [2]), (5, [], [3])]"
proof -
  have "opens sample_server ''t'' (fresh_segment (log_path sample_server ''t'') (svBatchSize sample_server))"
    by (simp add: opens_def sample_server_def NewServer_def NewOffsetStore_def openSegment_def content_def NewSegment_fresh)
  from replication_copies_log [OF this fresh_segment_rep(1), of "[(0, [1], [2]), (1, [], [3])]" "\<lambda>_. sample_env" "''1''"]
  show ?thesis
    by (simp add: replicable_def sample_env_def calm_def in_int64_def fresh_segment_rep(2) record_bytes_def)
qed

end
