(* ===== verification/Step_Systems.thy ===== *)
theory Step_Systems
  imports Main
begin

text \<open>
  Contracts of the state machines: what is checked of one step, and what then holds of every run. Each step relation of the development
  (one broker, its whole life, a cluster, a healthy cluster) is an instance.
\<close>

section \<open>Invariants\<close>

locale guarded_steps =
  fixes step :: "'s \<Rightarrow> 's \<Rightarrow> bool" and safe :: "'s \<Rightarrow> bool"
  assumes step_safe: "step s s' \<Longrightarrow> safe s \<Longrightarrow> safe s'"
begin

lemma run_safe: "step\<^sup>*\<^sup>* s s' \<Longrightarrow> safe s \<Longrightarrow> safe s'"
  by (induction rule: rtranclp_induct) (blast intro: step_safe)+

end

section \<open>What a run keeps of its first state\<close>

locale keeping_steps = guarded_steps +
  fixes kept :: "'a \<Rightarrow> 'a \<Rightarrow> bool"
  assumes kept_refl: "safe s \<Longrightarrow> kept s s"
    and kept_trans: "kept s s' \<Longrightarrow> kept s' s'' \<Longrightarrow> kept s s''"
    and step_kept: "step s s' \<Longrightarrow> safe s \<Longrightarrow> kept s s'"
begin

lemma run_kept:
  assumes "step\<^sup>*\<^sup>* s s'" "safe s"
  shows "kept s s'"
  using assms
proof (induction rule: rtranclp_induct)
  case (step s' s'')
  then have "safe s'" by (blast intro: run_safe)
  with step show ?case by (blast intro: kept_trans step_kept)
qed (rule kept_refl)

end

text \<open>An invariant that is found by way of something the steps do not change.\<close>

locale constant_steps = guarded_steps +
  fixes view :: "'a \<Rightarrow> 'v"
  assumes step_view: "step s s' \<Longrightarrow> safe s \<Longrightarrow> view s' = view s"

sublocale constant_steps \<subseteq> keeping_steps step safe "\<lambda>s s'. view s' = view s"
  by unfold_locales (simp_all add: step_view)

end
