(* ===== verification/Broker_System.thy ===== *)
theory Broker_System
  imports Follower Step_Systems "HOL-Library.Sublist"
begin

text \<open>
  The broker process as a state machine. Its goroutines take the server's locks, so a run is a sequence of atomic steps in any
  order: requests of any connection, flush ticks of any segment, replicas that register, messages from a leader, heartbeats and
  failover rounds. The storage works, the logs stay below \<open>2 ^ 63\<close> bytes, and no two open topics have names
  that clean to the same path (such topics would write to one file, as \<open>alias_same_file\<close> shows); everything else a step gets
  from outside is arbitrary. Retention and compaction, which delete messages on purpose, and the shutdown are not steps here; \<open>Broker_Life\<close> adds
  retention passes and restarts.

  \<open>log_is_append_only\<close> is the promise of a commit log over all such runs.
\<close>

section \<open>Steps\<close>

definition stores_well :: "env \<Rightarrow> bool" where
  "stores_well ev \<longleftrightarrow> evFlush ev = no_faults \<and> in_int64 (evStamp ev)"

definition fits :: "env \<Rightarrow> Request \<Rightarrow> Server \<Rightarrow> bool" where
  "fits ev req s \<longleftrightarrow> room s (rqTopic req) (evStamp ev, rqKey req, rqValue req)"

text \<open>No other open topic has a name that cleans to the same path.\<close>

definition own_file :: "string \<Rightarrow> Server \<Rightarrow> bool" where
  "own_file topic s \<longleftrightarrow> (\<forall>t \<in> set (map fst (svTopics s)). log_path s t = log_path s topic \<longrightarrow> t = topic)"

inductive broker_step :: "Server \<Rightarrow> Server \<Rightarrow> bool" where
  request: "broker_step s s'" if "wf_request req" "stores_well ev" "fits ev req s" "own_file (rqTopic req) s"
    "processRequest ev req role s = Some (resp, s')"
| tick: "broker_step s (flushTick no_faults topic s)"
| join: "broker_step s (s\<lparr>svRepManager := RegisterReplica ident conn (svRepManager s)\<rparr>)"
| replicated: "broker_step s s'" if "wf_request req" "stores_well ev" "fits ev req s" "own_file (rqTopic req) s"
    "followerAppend ev req s = Some (resp, s')"
| heartbeat: "broker_step s (s\<lparr>svController := receiveHeartbeat now msg (svController s)\<rparr>)"
| failover: "broker_step s (s\<lparr>svController := c, svDisk := d\<rparr>)"
    if "checkFailover opn flt now (svController s, svDisk s) = Some (c, d)"

text \<open>Names that do: the data directory joined with either is the same file, yet each name gets a segment of its own.\<close>

lemma alias_same_file:
  assumes "svDataDir s = ''data''"
  shows "log_path s ''x/../orders'' = log_path s ''orders''" "\<not> own_file ''x/../orders'' (s\<lparr>svTopics := [(''orders'', seg)]\<rparr>)"
proof -
  have "Join [''data'', ''x/../orders'' @ ''.log''] = Join [''data'', ''orders'' @ ''.log'']" by code_simp
  then show "log_path s ''x/../orders'' = log_path s ''orders''" using assms by (simp add: log_path_def)
  then show "\<not> own_file ''x/../orders'' (s\<lparr>svTopics := [(''orders'', seg)]\<rparr>)" by (simp add: own_file_def log_path_def)
qed

section \<open>What a step does to an open log\<close>

lemma getOrCreate_topics:
  assumes "getOrCreateTopicSegment ev topic s = Some (Inr (seg', s1))" "map_of (svTopics s) t = Some seg"
  shows "map_of (svTopics s1) t = Some seg" "t = topic \<Longrightarrow> seg' = seg"
proof -
  from assms(1) obtain ts where ts: "s1 = s\<lparr>svTopics := ts\<rparr>" "map_of ts topic = Some seg'"
    "\<And>t. t \<noteq> topic \<Longrightarrow> map_of ts t = map_of (svTopics s) t" by (rule getOrCreate_frame) blast
  show "t = topic \<Longrightarrow> seg' = seg" using assms by (auto simp: getOrCreateTopicSegment_def)
  then show "map_of (svTopics s1) t = Some seg" using ts assms(2) by (cases "t = topic") auto
qed

lemma handleFailedCommit_topics:
  assumes "handleFailedCommit ev req s = Some s'" "map_of (svTopics s) t = Some seg"
  shows "map_of (svTopics s') t = Some seg"
  using assms getOrCreate_topics(1) [OF _ assms(2), of ev "rqTopic req"]
  by (fastforce simp: handleFailedCommit_def split: option.splits sum.splits prod.splits list.splits)

lemma processOffsetRequest_topics:
  assumes "processOffsetRequest ev req s = Some (resp, s')" "map_of (svTopics s) t = Some seg"
  shows "map_of (svTopics s') t = Some seg"
  using assms handleFailedCommit_topics [OF _ assms(2), of ev req]
  by (fastforce simp: processOffsetRequest_def Let_def split: if_splits bind_splits option.splits prod.splits)

text \<open>A request leaves an open log alone or, when it produces to it, appends one message.\<close>

lemma processRequest_topics:
  assumes "processRequest ev req role s = Some (resp, s')" "map_of (svTopics s) t = Some seg"
  shows "map_of (svTopics s') t = Some seg
    \<or> t = rqTopic req \<and> map_of (svTopics s') t = Some (snd (AppendBatch (evFlush ev) (evStamp ev) (rqKey req) (rqValue req) seg))"
proof -
  have prod: "map_of (svTopics s') t = Some seg
    \<or> t = rqTopic req \<and> map_of (svTopics s') t = Some (snd (AppendBatch (evFlush ev) (evStamp ev) (rqKey req) (rqValue req) seg))"
    if g: "getOrCreateTopicSegment ev (rqTopic req) s = Some (Inr (seg', s1))" and h: "handleProduceRequest ev req seg' s1 = Some (resp, s')"
    for seg' s1
    using h
  proof (rule handleProduceRequest_cases)
    assume "s' = s1"
    then show ?thesis using getOrCreate_topics(1) [OF g assms(2)] by simp
  next
    fix off seg'' assume "AppendBatch (evFlush ev) (evStamp ev) (rqKey req) (rqValue req) seg' = (off, seg'')"
      and "acknowledge ev req off seg'' (recordProduced ev req off (setSegment (rqTopic req) seg'' s1)) = Some (resp, s')"
    then show ?thesis using getOrCreate_topics [OF g assms(2)]
      by (auto simp: acknowledge_frame(2) recordProduced_frame setSegment_def update_conv')
  qed
  have cons: "map_of (svTopics s') t = Some seg"
    if "getOrCreateTopicSegment ev (rqTopic req) s = Some (Inr (seg', s1))" "handleConsumeRequest ev req seg' s1 = Some (resp, s')"
    for seg' s1
    using that(2) getOrCreate_topics(1) [OF that(1) assms(2)] by (auto elim: consume_cases)
  have offs: "map_of (svTopics s') t = Some seg" if "processOffsetRequest ev req s = Some (resp, s')"
    using processOffsetRequest_topics [OF that assms(2)] .
  have grp: "map_of (svTopics s') t = Some seg" if "processGroupRequest req s = Some (resp, s')"
    using that assms(2) by (auto simp: processGroupRequest_def split: if_splits)
  from assms show ?thesis unfolding processRequest_def
    by (auto split: if_splits sum.splits prod.splits option.splits dest: offs grp cons prod getOrCreate_topics(1))
qed

section \<open>Logs only grow\<close>

definition grows :: "string \<Rightarrow> Server \<Rightarrow> Server \<Rightarrow> bool" where
  "grows t s s' \<longleftrightarrow> (\<forall>F P. holds s t F P \<longrightarrow> (\<exists>F' P'. holds s' t F' P' \<and> prefix F F' \<and> prefix (F @ P) (F' @ P')))"

lemma grows_refl: "grows t s s"
  by (auto simp: grows_def)

lemma grows_trans: "grows t s s1 \<Longrightarrow> grows t s1 s2 \<Longrightarrow> grows t s s2"
  unfolding grows_def by (meson prefix_order.trans)

lemma grows_same: "map_of (svTopics s') t = map_of (svTopics s) t \<Longrightarrow> grows t s s'"
  by (auto simp: grows_def holds_def)

lemma grows_append:
  assumes "stores_well ev" "wf_request req" "fits ev req s" "map_of (svTopics s) (rqTopic req) = Some seg"
    and "map_of (svTopics s') (rqTopic req) = Some (snd (AppendBatch (evFlush ev) (evStamp ev) (rqKey req) (rqValue req) seg))"
  shows "grows (rqTopic req) s s'"
  unfolding grows_def
proof (intro allI impI)
  fix F P assume h: "holds s (rqTopic req) F P"
  let ?m = "(evStamp ev, rqKey req, rqValue req)"
  have rep: "seg_rep seg F P" using h assms(4) by (simp add: holds_def)
  have wf: "wf_msg ?m" "used seg + length (enc_msg ?m) < 2 ^ 63"
    using assms(1-4) by (auto simp: stores_well_def wf_request_def fits_def room_def)
  obtain F' P' where r: "seg_rep (snd (AppendBatch no_faults (evStamp ev) (rqKey req) (rqValue req) seg)) F' P'"
      "F' @ P' = F @ P @ [?m]" "F' = F \<or> P' = []"
    using segment.append_rep [OF rep wf] by auto
  then have "prefix F F'" by (metis append_Nil2 prefix_order.refl prefixI)
  moreover have "prefix (F @ P) (F' @ P')" unfolding r(2) by (metis append_assoc prefixI)
  moreover have "holds s' (rqTopic req) F' P'" using r(1) assms(1,5) by (simp add: holds_def stores_well_def)
  ultimately show "\<exists>F' P'. holds s' (rqTopic req) F' P' \<and> prefix F F' \<and> prefix (F @ P) (F' @ P')" by blast
qed

lemma flushTick_grows: "grows t s (flushTick no_faults topic s)"
proof (cases "t = topic")
  case True
  show ?thesis unfolding grows_def
  proof (intro allI impI)
    fix F P assume "holds s t F P"
    then obtain seg where seg: "map_of (svTopics s) topic = Some seg" "seg_rep seg F P" using True by (auto simp: holds_def)
    then have "holds (flushTick no_faults topic s) t (F @ P) []"
      using flush_rep(2) [OF seg(2)] True by (simp add: holds_def flushTick_def setSegment_def update_conv')
    then show "\<exists>F' P'. holds (flushTick no_faults topic s) t F' P' \<and> prefix F F' \<and> prefix (F @ P) (F' @ P')" by force
  qed
next
  case False
  then show ?thesis by (intro grows_same) (simp add: flushTick_def setSegment_def update_conv' split: option.split)
qed

lemma followerAppend_topics:
  assumes "followerAppend ev req s = Some (resp, s')" "map_of (svTopics s) t = Some seg"
  shows "map_of (svTopics s') t = Some seg
    \<or> t = rqTopic req \<and> map_of (svTopics s') t = Some (snd (AppendBatch (evFlush ev) (evStamp ev) (rqKey req) (rqValue req) seg))"
proof (cases "\<exists>seg' s1. getOrCreateTopicSegment ev (rqTopic req) s = Some (Inr (seg', s1))")
  case True
  then obtain seg' s1 where x: "getOrCreateTopicSegment ev (rqTopic req) s = Some (Inr (seg', s1))" by blast
  note g = getOrCreate_topics [OF x assms(2)]
  obtain off seg'' where a: "AppendBatch (evFlush ev) (evStamp ev) (rqKey req) (rqValue req) seg' = (off, seg'')" by fastforce
  have "s' = setSegment (rqTopic req) seg'' s1" using assms(1) by (simp add: followerAppend_def x a)
  then show ?thesis using g a by (cases "t = rqTopic req") (simp_all add: setSegment_def update_conv')
qed (use assms in \<open>auto simp: followerAppend_def split: option.splits sum.splits\<close>)

lemma grows_if_open:
  assumes "\<And>seg. map_of (svTopics s) t = Some seg \<Longrightarrow> grows t s s'"
  shows "grows t s s'"
  using assms by (auto simp: grows_def holds_def)

lemma broker_step_grows: "broker_step s s' \<Longrightarrow> grows t s s'"
proof (induction rule: broker_step.induct)
  case (request req ev s role resp s')
  show ?case
  proof (rule grows_if_open)
    fix seg assume seg: "map_of (svTopics s) t = Some seg"
    from processRequest_topics [OF request(5) seg] show "grows t s s'"
    proof
      assume "map_of (svTopics s') t = Some seg"
      then show ?thesis using seg by (simp add: grows_same)
    qed (use request seg in \<open>auto intro: grows_append\<close>)
  qed
next
  case (replicated req ev s resp s')
  show ?case
  proof (rule grows_if_open)
    fix seg assume seg: "map_of (svTopics s) t = Some seg"
    from followerAppend_topics [OF replicated(5) seg] show "grows t s s'"
    proof
      assume "map_of (svTopics s') t = Some seg"
      then show ?thesis using seg by (simp add: grows_same)
    qed (use replicated seg in \<open>auto intro: grows_append\<close>)
  qed
qed (auto intro: flushTick_grows grows_same)

interpretation run: keeping_steps broker_step "\<lambda>_. True" "grows t" for t
  by unfold_locales (auto intro: grows_refl grows_trans broker_step_grows)

section \<open>Properties\<close>

text \<open>\<^bold>\<open>C4\<close>: in every run of the broker, however requests, flushes, replication and failover are interleaved (no two open topics sharing a file), a topic's log only
  grows at its end: every message that was stored keeps its offset, and what a read returned at an offset once it returns
  ever after.\<close>

theorem log_is_append_only:
  assumes "broker_step\<^sup>*\<^sup>* s s'" "map_of (svTopics s) t = Some seg" "seg_rep seg F P"
  shows "\<exists>seg' F' P'. map_of (svTopics s') t = Some seg' \<and> seg_rep seg' F' P' \<and> prefix F F' \<and> prefix (F @ P) (F' @ P')
    \<and> (\<forall>off rec. ReadAt seg off = Inr rec \<longrightarrow> ReadAt seg' off = Inr rec)"
proof -
  have "grows t s s'" by (rule run.run_kept [OF assms(1) TrueI])
  then obtain seg' F' P' where s': "map_of (svTopics s') t = Some seg'" "seg_rep seg' F' P'" "prefix F F'" "prefix (F @ P) (F' @ P')"
    using assms(2,3) unfolding grows_def holds_def by blast
  have "\<forall>off rec. ReadAt seg off = Inr rec \<longrightarrow> ReadAt seg' off = Inr rec"
    using s'(3) by (auto simp: ReadAt_rep [OF assms(3)] ReadAt_rep [OF s'(2)] prefix_def nth_append split: if_splits)
  with s' show ?thesis by blast
qed

theorem log_is_append_only_witness:
  "\<exists>seg' F' P'. map_of (svTopics (flushTick no_faults ''t'' (sample_server\<lparr>svTopics := [(''t'', sample_segment)]\<rparr>))) ''t'' = Some seg'
    \<and> seg_rep seg' F' P' \<and> prefix [(5, [1], [2])] (F' @ P')"
  using log_is_append_only [OF r_into_rtranclp [of broker_step, OF broker_step.tick] _ sample_segment_rep,
      of "sample_server\<lparr>svTopics := [(''t'', sample_segment)]\<rparr>" "''t''" "''t''"] by auto

end
