(* ===== verification/Controller_Loop.thy ===== *)
theory Controller_Loop
  imports Controller
begin

text \<open>
  The goroutines of \<^verbatim>\<open>internal/broker/controller.go\<close> and \<^verbatim>\<open>internal/broker/rebalancer.go\<close>: start, the two timers of the
  controller, the heartbeat server, and how they are stopped. A loop runs over the list of events that its \<^verbatim>\<open>select\<close> or its
  socket delivers and ends with the closing of the shutdown channel. A channel without data is represented by whether it is
  closed; closing it twice panics, which is \<open>None\<close>.
\<close>

section \<open>Timers\<close>

datatype controller_event =
    HeartbeatTick
  | FailoverTick call_fault save_faults int
  | ControllerShutdown

text \<open>One round of \<^verbatim>\<open>Controller.runLoop\<close>: whether the loop goes on, the datagrams it sends and the new state.\<close>

fun runLoop_event :: "controller_event \<Rightarrow> Controller \<times> disk \<Rightarrow> (bool \<times> (string \<times> string) list \<times> Controller \<times> disk) option" where
  "runLoop_event HeartbeatTick s = Some (True, sendHeartbeats (fst s), s)"
| "runLoop_event (FailoverTick opn flt now) s = map_option (\<lambda>s. (True, [], s)) (checkFailover opn flt now s)"
| "runLoop_event ControllerShutdown s = Some (False, [], s)"

fun runLoop :: "controller_event list \<Rightarrow> Controller \<times> disk \<Rightarrow> ((string \<times> string) list \<times> Controller \<times> disk) option" where
  "runLoop [] s = Some ([], s)"
| "runLoop (e # es) s =
     (case runLoop_event e s of
        None \<Rightarrow> None
      | Some (False, msgs, s) \<Rightarrow> Some (msgs, s)
      | Some (True, msgs, s) \<Rightarrow> map_option (apfst ((@) msgs)) (runLoop es s))"

section \<open>The heartbeat server\<close>

text \<open>What one read gives: a datagram, cut to the size of the buffer, or the error of the deadline.\<close>

fun heartbeat_read :: "(go_error + string) \<Rightarrow> int \<Rightarrow> Controller \<Rightarrow> Controller" where
  "heartbeat_read (Inl e) now c = c"
| "heartbeat_read (Inr msg) now c = receiveHeartbeat now (take 1024 msg) c"

text \<open>\<^verbatim>\<open>heartbeatServer\<close>: without a socket it returns at once; otherwise it looks at the shutdown channel before every read.
  A round is whether the channel is closed, the result of the read and its time.\<close>

fun heartbeatServer :: "call_fault \<Rightarrow> (bool \<times> (go_error + string) \<times> int) list \<Rightarrow> Controller \<Rightarrow> Controller" where
  "heartbeatServer (Some e) rounds c = c"
| "heartbeatServer None [] c = c"
| "heartbeatServer None ((stopped, r, now) # rounds) c =
     (if stopped then c else heartbeatServer None rounds (heartbeat_read r now c))"

section \<open>Start and stop\<close>

definition ControllerStart :: "call_fault \<Rightarrow> save_faults \<Rightarrow> Controller \<times> disk \<Rightarrow> (Controller \<times> disk) option" where
  "ControllerStart opn flt s = loadLeaders opn flt s"

definition close_channel :: "bool \<Rightarrow> bool option" where
  "close_channel closd = (if closd then None else Some True)"

definition ControllerStop :: "bool \<Rightarrow> bool option" where
  "ControllerStop shutdown = (if shutdown then Some shutdown else close_channel shutdown)"

definition ControllerClose :: "bool \<Rightarrow> bool option" where
  "ControllerClose = ControllerStop"

definition RebalancerStop :: "bool \<Rightarrow> bool option" where
  "RebalancerStop shutdown = close_channel shutdown"

text \<open>The loop of the rebalancer: \<open>Some produced\<close> is a tick at which the counter has that value, \<open>None\<close> the closed channel.\<close>

fun rebalancerLoop ::
  "Rebalancer \<Rightarrow> (int \<times> call_fault \<times> save_faults) option list \<Rightarrow> Controller \<times> disk \<Rightarrow> (Controller \<times> disk) option" where
  "rebalancerLoop rb [] s = Some s"
| "rebalancerLoop rb (None # es) s = Some s"
| "rebalancerLoop rb (Some (produced, opn, flt) # es) s = Option.bind (checkLoad opn flt produced rb s) (rebalancerLoop rb es)"

text \<open>\<^verbatim>\<open>Rebalancer.Start\<close>, which panics when its interval is not positive.\<close>

definition RebalancerStart ::
  "Rebalancer \<Rightarrow> (int \<times> call_fault \<times> save_faults) option list \<Rightarrow> Controller \<times> disk \<Rightarrow> (Controller \<times> disk) option" where
  "RebalancerStart rb es s = Option.bind (NewTicker (rbInterval rb)) (\<lambda>_. rebalancerLoop rb es s)"

section \<open>Lemmas\<close>

text \<open>Stopping a controller twice is harmless, stopping a rebalancer twice is not.\<close>

lemma stop_twice:
  "Option.bind (ControllerClose shutdown) ControllerClose = Some True" "Option.bind (RebalancerStop shutdown) RebalancerStop = None"
  by (simp_all add: ControllerClose_def ControllerStop_def RebalancerStop_def close_channel_def)

lemma runLoop_append:
  "ControllerShutdown \<notin> set es \<Longrightarrow>
     runLoop (es @ fs) s = Option.bind (runLoop es s) (\<lambda>(msgs, s). map_option (apfst ((@) msgs)) (runLoop fs s))"
proof (induction es arbitrary: s)
  case Nil
  show ?case by (cases "runLoop fs s") auto
next
  case (Cons e es)
  show ?case
  proof (cases "runLoop_event e s")
    case (Some x)
    obtain go msgs t where x: "x = (go, msgs, t)" by (cases x)
    have go using Cons.prems Some x by (cases e) auto
    then show ?thesis using Cons Some x
      by (cases "runLoop es t"; cases "runLoop fs (snd (the (runLoop es t)))") (auto simp: apfst_def map_prod_def split: prod.splits)
  qed simp
qed

lemma runLoop_stops: "runLoop (ControllerShutdown # es) s = Some ([], s)"
  by simp

text \<open>A datagram of another broker is understood: it marks that broker as seen, and no other.\<close>

lemma heartbeat_seen:
  assumes "in_int64 i"
  shows "heartbeat_read (Inr (itoa i)) now c = c\<lparr>ctActiveNodes := AList.update i now (ctActiveNodes c)\<rparr>"
proof -
  have "length (itoa i) \<le> 1024" using itoa_length [OF assms] by simp
  then show ?thesis by (simp add: receiveHeartbeat_def scan_int_prefix_itoa assms)
qed

end
