(* ===== verification/Broker_Main.thy ===== *)
theory Broker_Main
  imports Retention Broker_System Controller_Loop
begin

text \<open>
  The broker process, \<^verbatim>\<open>cmd/broker/main.go\<close>, and the loops that \<^verbatim>\<open>Start\<close> methods put in goroutines: the accept loop of
  \<^verbatim>\<open>server.go\<close> and the timers of \<^verbatim>\<open>rebalancer.go\<close> and \<^verbatim>\<open>retention.go\<close>. A timer loop is the function that handles one of
  its events. The functions of the configuration library are arguments. \<open>None\<close> is a
  panic, which ends the process.
\<close>

section \<open>Flags and configuration\<close>

record broker_flags =
  bfLeader :: string
  bfID :: int
  bfLogFormat :: string
  bfAcks :: int
  bfFlushInterval :: int
  bfBatchSize :: int
  bfCompactionInterval :: int
  bfRebalanceInterval :: int
  bfRebalanceThreshold :: int

definition default_broker_flags :: broker_flags where
  "default_broker_flags = \<lparr>bfLeader = [], bfID = 0, bfLogFormat = ''text'', bfAcks = - 1, bfFlushInterval = 100 * 10 ^ 6,
     bfBatchSize = 65536, bfCompactionInterval = 5 * 60 * 10 ^ 9, bfRebalanceInterval = 30 * 10 ^ 9, bfRebalanceThreshold = 10000\<rparr>"

record config_values =
  cvListenAddress :: string
  cvDataDir :: string
  cvRetentionMs :: int
  cvRetentionBytes :: int

datatype config_value = ConfigString string | ConfigInt int

text \<open>What \<open>loadConfig\<close> tells the configuration library: where the file is and the defaults. An error of reading the file is only
  logged.\<close>

record viper_setup =
  vsConfigName :: string
  vsConfigType :: string
  vsConfigPath :: string
  vsDefaults :: "(string \<times> config_value) list"

definition loadConfig :: viper_setup where
  "loadConfig = \<lparr>vsConfigName = ''server'', vsConfigType = ''yaml'', vsConfigPath = ''./configs'',
     vsDefaults = [(''broker.id'', ConfigInt 0), (''listen.address'', ConfigString ''0.0.0.0:9092''),
       (''data.dir'', ConfigString ''./data''), (''retention.ms'', ConfigInt 604800000),
       (''retention.bytes'', ConfigInt 1073741824)]\<rparr>"

text \<open>The values the process reads; \<open>getString\<close> and \<open>getInt64\<close> are the library's.\<close>

definition read_config :: "(viper_setup \<Rightarrow> string \<Rightarrow> string) \<Rightarrow> (viper_setup \<Rightarrow> string \<Rightarrow> int) \<Rightarrow> config_values" where
  "read_config getString getInt64 =
     \<lparr>cvListenAddress = getString loadConfig ''listen.address'', cvDataDir = getString loadConfig ''data.dir'',
      cvRetentionMs = getInt64 loadConfig ''retention.ms'', cvRetentionBytes = getInt64 loadConfig ''retention.bytes''\<rparr>"

datatype log_handler = JSONHandler | TextHandler

definition initLogger :: "string \<Rightarrow> log_handler" where
  "initLogger format = (if format = ''json'' then JSONHandler else TextHandler)"

section \<open>Health endpoint\<close>

definition toJSON :: "string list \<Rightarrow> string" where
  "toJSON v = (if v = [] then ''[]'' else enc_strings v)"

text \<open>\<open>opn\<close> and \<open>wr\<close> are the faults of \<^verbatim>\<open>os.WriteFile\<close>; a failed write leaves the bytes it stored.\<close>

definition checkWritable :: "call_fault \<Rightarrow> write_fault \<Rightarrow> string \<Rightarrow> disk \<Rightarrow> bool \<times> disk" where
  "checkWritable opn wr dataDir d =
     (let testFile = Join [dataDir, ''.healthcheck''] in
      if opn \<noteq> None then (False, d)
      else case wr of
          Some (n, e) \<Rightarrow> (False, d(testFile \<mapsto> take n (bytes_of ''ok'')))
        | None \<Rightarrow> (True, os_remove testFile (d(testFile \<mapsto> bytes_of ''ok''))))"

definition healthHandler ::
  "bool \<Rightarrow> call_fault \<Rightarrow> write_fault \<Rightarrow> string \<Rightarrow> Server \<Rightarrow> (int \<times> string) \<times> Server" where
  "healthHandler shuttingDown opn wr dataDir s =
     (if shuttingDown then ((503, []), s)
      else case checkWritable opn wr dataDir (svDisk s) of
          (False, d) \<Rightarrow> ((503, []), s\<lparr>svDisk := d\<rparr>)
        | (True, d) \<Rightarrow>
            (let led = ServerGetLedPartitions s
             in ((200, ''{\"status\":\"alive\",\"is_leader_for\":'' @ toJSON led @ '',\"partition_count\":'' @ itoa (int (length led)) @ ''}''),
                 s\<lparr>svDisk := d\<rparr>)))"

section \<open>Background loops\<close>

definition rebalanceTick :: "call_fault \<Rightarrow> save_faults \<Rightarrow> Server \<Rightarrow> Server option" where
  "rebalanceTick opn flt s =
     map_option (\<lambda>(c, d). s\<lparr>svController := c, svDisk := d\<rparr>)
       (checkLoad opn flt (stMessagesProduced (GetStats (svMetrics s))) (svRebalancer s) (svController s, svDisk s))"

datatype retention_event =
    RetentionTick flush_faults int "dir_entry list option"
  | CompactionTick env

fun retentionLoop :: "RetentionManager \<Rightarrow> retention_event \<Rightarrow> Server \<Rightarrow> Server option" where
  "retentionLoop rm (RetentionTick flt now files) s = processRetention flt now rm files s"
| "retentionLoop rm (CompactionTick ev) s = processCompaction ev 1000 s"

text \<open>\<^verbatim>\<open>RetentionManager.Start\<close>, with the events of both loops until the shutdown channel is closed.\<close>

definition RetentionStart :: "RetentionManager \<Rightarrow> retention_event list \<Rightarrow> Server \<Rightarrow> Server option" where
  "RetentionStart rm evs s =
     Option.bind (NewTicker (60 * 10 ^ 9)) (\<lambda>_.
     Option.bind (NewTicker (rnCompactionInterval rm)) (\<lambda>_.
     foldl (\<lambda>r e. Option.bind r (retentionLoop rm e)) (Some s) evs))"

section \<open>Starting and stopping\<close>

text \<open>\<^verbatim>\<open>Server.Start\<close> up to the accept loop: the controller loads the leaders, the rebalancer's goroutine makes its ticker, then the
  address is bound.\<close>

definition ServerStart :: "call_fault \<Rightarrow> save_faults \<Rightarrow> call_fault \<Rightarrow> Server \<Rightarrow> (go_error option \<times> Server) option" where
  "ServerStart opn flt listen s =
     map_option (\<lambda>(c, d). (listen, s\<lparr>svController := c, svDisk := d\<rparr>))
       (Option.bind (ControllerStart opn flt (svController s, svDisk s)) (RebalancerStart (svRebalancer s) []))"

text \<open>The accept loop, with each connection served to its end before the next is accepted; \<open>serve\<close> is the handler of one
  connection. An error of \<^verbatim>\<open>Accept\<close> ends the loop, silently during a shutdown; at the end of the list the loop is waiting.\<close>

datatype accept_end = Accepting | AcceptEnded "go_error option"

fun acceptLoop :: "('c \<Rightarrow> Server \<Rightarrow> Server option) \<Rightarrow> (go_error + 'c) list \<Rightarrow> Server \<Rightarrow> (accept_end \<times> Server) option" where
  "acceptLoop serve [] s = Some (Accepting, s)"
| "acceptLoop serve (Inl e # cs) s = Some (AcceptEnded (if svShutdown s then None else Some e), s)"
| "acceptLoop serve (Inr c # cs) s = Option.bind (serve c s) (acceptLoop serve cs)"

text \<open>The signal handler: the retention loops stop, then the server closes. A second signal is not received.\<close>

definition shutdownBroker :: "flush_faults \<Rightarrow> Server \<Rightarrow> Server option" where
  "shutdownBroker flt s = ServerClose flt s"

datatype broker_start =
    InitFailed go_error
  | Started Server RetentionManager "string option" string

text \<open>\<^verbatim>\<open>main\<close> until the server starts: the server, its retention manager, the node id of the follower loop if there is a leader, and
  the address.\<close>

definition broker_main ::
  "broker_flags \<Rightarrow> config_values \<Rightarrow> call_fault \<Rightarrow> call_fault \<Rightarrow> bool \<Rightarrow> disk \<Rightarrow> broker_start" where
  "broker_main fl cv mkdir mkdir2 shared d =
     (case NewServer mkdir mkdir2 shared (bfID fl) (cvDataDir cv) (bfAcks fl) (bfFlushInterval fl) (bfBatchSize fl)
             (bfRebalanceInterval fl) (bfRebalanceThreshold fl) d of
        Inl e \<Rightarrow> InitFailed e
      | Inr srv \<Rightarrow>
          Started srv (NewRetentionManager (cvRetentionMs cv) (cvRetentionBytes cv) (bfCompactionInterval fl))
            (if bfLeader fl \<noteq> [] then Some (itoa (bfID fl)) else None) (cvListenAddress cv))"

text \<open>The whole of \<^verbatim>\<open>main\<close> without a signal: it exits with status 1 when the server cannot be made, cannot be bound or fails to accept.\<close>

datatype process_state = ProcessRuns Server | ProcessExits int | ProcessPanics

definition broker_process ::
  "broker_flags \<Rightarrow> config_values \<Rightarrow> call_fault \<Rightarrow> call_fault \<Rightarrow> bool \<Rightarrow> call_fault \<Rightarrow> save_faults \<Rightarrow> call_fault
    \<Rightarrow> ('c \<Rightarrow> Server \<Rightarrow> Server option) \<Rightarrow> (go_error + 'c) list \<Rightarrow> disk \<Rightarrow> process_state" where
  "broker_process fl cv mkdir mkdir2 shared opn flt listen serve cs d =
     (case broker_main fl cv mkdir mkdir2 shared d of
        InitFailed e \<Rightarrow> ProcessExits 1
      | Started srv rm follower addr \<Rightarrow>
          (case Option.bind (RetentionStart rm [] srv) (ServerStart opn flt listen) of
             None \<Rightarrow> ProcessPanics
           | Some (Some e, s) \<Rightarrow> ProcessExits 1
           | Some (None, s) \<Rightarrow>
               (case acceptLoop serve cs s of
                  None \<Rightarrow> ProcessPanics
                | Some (Accepting, s) \<Rightarrow> ProcessRuns s
                | Some (AcceptEnded (Some e), s) \<Rightarrow> ProcessExits 1
                | Some (AcceptEnded None, s) \<Rightarrow> ProcessExits 0)))"

text \<open>With a library that returns the default of a key that no file sets, a broker without a configuration file listens on
  \<^verbatim>\<open>0.0.0.0:9092\<close>, keeps its data in \<^verbatim>\<open>./data\<close>, and keeps logs for a week or a gigabyte. The default of the broker id is not read
  at all: the process takes it from its flag.\<close>

lemma defaults_without_file:
  assumes "\<And>k v. map_of (vsDefaults loadConfig) k = Some (ConfigString v) \<Longrightarrow> getString loadConfig k = v"
    and "\<And>k v. map_of (vsDefaults loadConfig) k = Some (ConfigInt v) \<Longrightarrow> getInt64 loadConfig k = v"
  shows "read_config getString getInt64 = \<lparr>cvListenAddress = ''0.0.0.0:9092'', cvDataDir = ''./data'',
      cvRetentionMs = 7 * 24 * 60 * 60 * 1000, cvRetentionBytes = 1024 ^ 3\<rparr>"
  using assms(1) [of "''listen.address''"] assms(1) [of "''data.dir''"] assms(2) [of "''retention.ms''"] assms(2) [of "''retention.bytes''"]
  by (simp add: read_config_def loadConfig_def)

text \<open>With intervals that are not positive the process never serves: neither flag is checked.\<close>

lemma zero_interval_panics:
  assumes "bfCompactionInterval fl \<le> 0 \<or> bfRebalanceInterval fl \<le> 0"
  shows "broker_process fl cv mkdir mkdir2 shared opn flt listen serve cs d \<in> {ProcessExits 1, ProcessPanics}"
proof (cases "broker_main fl cv mkdir mkdir2 shared d")
  case (Started srv rm fo addr)
  then have "rnCompactionInterval rm = bfCompactionInterval fl" "rbInterval (svRebalancer srv) = bfRebalanceInterval fl"
    by (auto simp: broker_main_def NewRetentionManager_def NewServer_def NewRebalancer_def split: sum.splits option.splits if_splits)
  then have "Option.bind (RetentionStart rm [] srv) (ServerStart opn flt listen) = None"
    using assms by (auto simp: RetentionStart_def ServerStart_def RebalancerStart_def NewTicker_def bind_eq_None_conv split: if_splits)
  then show ?thesis using Started by (simp add: broker_process_def)
qed (simp add: broker_process_def)

end
