(* ===== verification/Broker_Restart.thy ===== *)
theory Broker_Restart
  imports Broker_Main
begin

text \<open>
  What a broker process leaves in its directory (\<open>disk_view\<close> of \<open>Server\<close>) and what the next one finds there: \<^verbatim>\<open>Server.Close\<close> and
  \<^verbatim>\<open>NewServer\<close> of \<^verbatim>\<open>internal/broker/server.go\<close>, one after the other.

  \<open>restart_keeps_logs\<close>: a broker that is shut down and started again on the same directory has all its logs and all
  committed offsets.
\<close>

section \<open>Writing open segments to the directory\<close>

definition seg_at :: "string \<Rightarrow> string \<times> Segment \<Rightarrow> bool" where
  "seg_at pre ts \<longleftrightarrow> (case ts of (t, seg) \<Rightarrow> segPath seg = pre @ t @ ''.log'' \<and> getIndexPath (segPath seg) = pre @ t @ ''.index'')"

abbreviation store_all :: "(string \<times> Segment) list \<Rightarrow> disk \<Rightarrow> disk" where
  "store_all ts d \<equiv> foldl (\<lambda>d (t, seg). storeFiles seg d) d ts"

lemma storeFiles_at:
  "seg_at pre (t, seg) \<Longrightarrow>
     storeFiles seg d = d(pre @ t @ ''.log'' \<mapsto> segFile seg, pre @ t @ ''.index'' \<mapsto> idxFile (segIndex seg))"
  by (auto simp: seg_at_def storeFiles_def)

lemma store_all_other:
  assumes "list_all (seg_at pre) ts" "\<forall>t \<in> fst ` set ts. path \<noteq> pre @ t @ ''.log'' \<and> path \<noteq> pre @ t @ ''.index''"
  shows "store_all ts d path = d path"
  using assms
proof (induction ts arbitrary: d)
  case (Cons x ts)
  obtain t seg where x: "x = (t, seg)" by (cases x)
  have "storeFiles seg d path = d path" using Cons.prems storeFiles_at [of pre t seg d] by (simp add: x)
  then show ?case using Cons.IH [of "storeFiles seg d"] Cons.prems by (simp add: x)
qed simp

lemma ext_distinct: "pre @ t @ ''.log'' \<noteq> pre @ u @ ''.index''" "pre @ u @ ''.index'' \<noteq> pre @ t @ ''.log''"
  by (auto dest!: arg_cong [of _ _ last])

lemma store_all_files:
  assumes "distinct (map fst ts)" "list_all (seg_at pre) ts" "map_of ts t = Some seg"
  shows "store_all ts d (pre @ t @ ''.log'') = Some (segFile seg)"
    and "store_all ts d (pre @ t @ ''.index'') = Some (idxFile (segIndex seg))"
proof -
  have "store_all ts d (pre @ t @ ''.log'') = Some (segFile seg)
      \<and> store_all ts d (pre @ t @ ''.index'') = Some (idxFile (segIndex seg))"
    using assms
  proof (induction ts arbitrary: d)
    case (Cons x ts)
    obtain u seg' where x: "x = (u, seg')" by (cases x)
    show ?case
    proof (cases "u = t")
      case True
      then have "\<forall>v \<in> fst ` set ts. v \<noteq> t" and seg: "seg' = seg" using Cons.prems by (auto simp: x)
      then have "store_all ts d' (pre @ t @ ''.log'') = d' (pre @ t @ ''.log'')"
        "store_all ts d' (pre @ t @ ''.index'') = d' (pre @ t @ ''.index'')" for d'
        using Cons.prems(2) ext_distinct by (auto intro!: store_all_other)
      then show ?thesis using True seg Cons.prems(2) storeFiles_at [of pre t seg d] by (simp add: x)
    next
      case False
      then show ?thesis using Cons by (simp add: x)
    qed
  qed simp
  then show "store_all ts d (pre @ t @ ''.log'') = Some (segFile seg)"
    and "store_all ts d (pre @ t @ ''.index'') = Some (idxFile (segIndex seg))" by simp_all
qed

section \<open>Restart\<close>

text \<open>A running broker with a positive flush interval whose open segments are those of plain topics in its directory.\<close>

definition opened :: "Server \<Rightarrow> bool" where
  "opened s \<longleftrightarrow> 0 < svFlushInt s \<and> \<not> svShutdown s \<and> svDataDir s \<noteq> [] \<and> svOffsetStore s = \<lparr>osBaseDir = svDataDir s\<rparr>
     \<and> distinct (map fst (svTopics s))
     \<and> (\<forall>(t, seg) \<in> set (svTopics s). plain_topic t \<and> segPath seg = log_path s t \<and> \<not> segClosed seg)"

definition server_ready :: "Server \<Rightarrow> bool" where
  "server_ready s \<longleftrightarrow> opened s \<and> (\<forall>(t, seg) \<in> set (svTopics s). \<exists>F P. seg_rep seg F P)"

lemma server_ready_opened: "server_ready s \<Longrightarrow> opened s"
  by (simp add: server_ready_def)

definition closed_segment :: "Segment \<Rightarrow> Segment" where
  "closed_segment seg = (snd (flush no_faults seg))\<lparr>segClosed := True\<rparr>"

lemma ServerClose_opened:
  assumes "opened s"
  shows "ServerClose no_faults s = Some (s\<lparr>svShutdown := True, svTopics := map (\<lambda>(t, seg). (t, closed_segment seg)) (svTopics s)\<rparr>)"
proof -
  have "Close no_faults seg = Some (closed_segment seg)" if "(t, seg) \<in> set (svTopics s)" for t seg
    using assms that by (auto simp: opened_def Close_def closed_segment_def)
  then have "map (\<lambda>(t, seg). map_option (Pair t) (Close no_faults seg)) (svTopics s)
      = map Some (map (\<lambda>(t, seg). (t, closed_segment seg)) (svTopics s))" by (auto simp: case_prod_unfold)
  moreover have "those (map Some xs) = Some xs" for xs :: "(string \<times> Segment) list" by (induction xs) simp_all
  ultimately have "closeSegments no_faults (svTopics s) = Some (map (\<lambda>(t, seg). (t, closed_segment seg)) (svTopics s))"
    by (simp only: closeSegments_def)
  then show ?thesis using assms by (simp add: ServerClose_def opened_def)
qed

lemma map_of_closed: "map_of (map (\<lambda>(t, seg). (t, closed_segment seg)) ts) t = map_option closed_segment (map_of ts t)"
  by (induction ts) auto

lemma closed_file:
  assumes "seg_rep seg F P"
  shows "segFile (closed_segment seg) = enc_msgs (F @ P)" "segIndex (closed_segment seg) = segIndex (snd (flush no_faults seg))"
    "0 < fi \<Longrightarrow> \<exists>seg'. NewSegment no_open_faults path (enc_msgs (F @ P)) (idxFile (segIndex (closed_segment seg))) fi bs = Some (Inr seg') \<and> seg_rep seg' (F @ P) []"
proof -
  note f = flush_rep(2) [OF assms]
  show "segFile (closed_segment seg) = enc_msgs (F @ P)" using f by (simp add: closed_segment_def seg_rep_def file_rep_def)
  show i: "segIndex (closed_segment seg) = segIndex (snd (flush no_faults seg))" by (simp add: closed_segment_def)
  show "0 < fi \<Longrightarrow> \<exists>seg'. NewSegment no_open_faults path (enc_msgs (F @ P)) (idxFile (segIndex (closed_segment seg))) fi bs = Some (Inr seg') \<and> seg_rep seg' (F @ P) []"
    unfolding i using NewSegment_rep [of "F @ P" "segIndex (snd (flush no_faults seg))" fi path bs] f
    by (auto simp: seg_rep_def file_rep_def)
qed

section \<open>The directory\<close>

text \<open>Every open segment is the one of its topic's path; this stays so when the segments are closed.\<close>

definition placed :: "Server \<Rightarrow> bool" where
  "placed s \<longleftrightarrow> svDataDir s \<noteq> [] \<and> distinct (map fst (svTopics s))
     \<and> (\<forall>(t, seg) \<in> set (svTopics s). plain_topic t \<and> segPath seg = log_path s t)"

definition log_files :: "Server \<Rightarrow> string \<Rightarrow> string set" where
  "log_files s t = {log_path s t, getIndexPath (log_path s t)}"

lemma opened_placed: "opened s \<Longrightarrow> placed s"
  by (auto simp: opened_def placed_def)

lemma closed_placed:
  assumes "opened s" "ServerClose no_faults s = Some s1"
  shows "placed s1" "log_path s1 = log_path s" "svDisk s1 = svDisk s" "map_of (svTopics s1) t = map_option closed_segment (map_of (svTopics s) t)"
proof -
  have s1: "s1 = s\<lparr>svShutdown := True, svTopics := map (\<lambda>(t, seg). (t, closed_segment seg)) (svTopics s)\<rparr>"
    using assms(2) ServerClose_opened [OF assms(1)] by simp
  then show lp: "log_path s1 = log_path s" and "svDisk s1 = svDisk s" "map_of (svTopics s1) t = map_option closed_segment (map_of (svTopics s) t)"
    by (simp_all add: map_of_closed log_path_def fun_eq_iff)
  have "distinct (map fst (svTopics s1))" using assms(1) by (simp add: s1 opened_def case_prod_unfold comp_def)
  then show "placed s1" using assms(1) unfolding placed_def lp by (fastforce simp: s1 opened_def closed_segment_def)
qed

lemma placed_at:
  assumes "placed s"
  obtains pre where "\<forall>t. plain_topic t \<longrightarrow> log_path s t = pre @ t @ ''.log''"
    "\<forall>t. plain_topic t \<longrightarrow> getIndexPath (log_path s t) = pre @ t @ ''.index''" "list_all (seg_at pre) (svTopics s)"
proof -
  have "svDataDir s \<noteq> []" using assms by (simp add: placed_def)
  then obtain pre where pre: "\<forall>t. plain_topic t \<longrightarrow> log_path s t = pre @ t @ ''.log'' \<and> getIndexPath (log_path s t) = pre @ t @ ''.index''
      \<and> Join [svDataDir s, t @ ''.index''] = pre @ t @ ''.index''" by (rule topic_paths)
  then have "list_all (seg_at pre) (svTopics s)" using assms by (fastforce simp: placed_def list_all_iff seg_at_def)
  with pre show thesis by (intro that [of pre]) blast+
qed

lemma disk_view_open:
  assumes "placed s" "map_of (svTopics s) t = Some seg"
  shows "disk_view s (log_path s t) = Some (segFile seg)" "disk_view s (getIndexPath (log_path s t)) = Some (idxFile (segIndex seg))"
proof -
  obtain pre where pre: "\<forall>t. plain_topic t \<longrightarrow> log_path s t = pre @ t @ ''.log''"
      "\<forall>t. plain_topic t \<longrightarrow> getIndexPath (log_path s t) = pre @ t @ ''.index''" and at: "list_all (seg_at pre) (svTopics s)"
    by (rule placed_at [OF assms(1)])
  have d: "distinct (map fst (svTopics s))" and "plain_topic t"
    using assms(1) map_of_SomeD [OF assms(2)] by (auto simp: placed_def)
  then show "disk_view s (log_path s t) = Some (segFile seg)" "disk_view s (getIndexPath (log_path s t)) = Some (idxFile (segIndex seg))"
    using store_all_files [OF d at assms(2)] pre by (simp_all add: disk_view_def)
qed

lemma disk_view_other:
  assumes "placed s" "\<And>t. plain_topic t \<Longrightarrow> t \<in> fst ` set (svTopics s) \<Longrightarrow> path \<notin> log_files s t"
  shows "disk_view s path = svDisk s path"
proof -
  obtain pre where pre: "\<forall>t. plain_topic t \<longrightarrow> log_path s t = pre @ t @ ''.log''"
      "\<forall>t. plain_topic t \<longrightarrow> getIndexPath (log_path s t) = pre @ t @ ''.index''" and at: "list_all (seg_at pre) (svTopics s)"
    by (rule placed_at [OF assms(1)])
  have "path \<noteq> pre @ t @ ''.log'' \<and> path \<noteq> pre @ t @ ''.index''" if t: "t \<in> fst ` set (svTopics s)" for t
  proof -
    have "plain_topic t" using t assms(1) by (auto simp: placed_def)
    then show ?thesis using assms(2) [OF _ t] pre [THEN spec, of t] by (simp add: log_files_def)
  qed
  then show ?thesis unfolding disk_view_def using store_all_other [OF at] by blast
qed

lemma disk_view_unopened:
  assumes "placed s" "plain_topic t" "map_of (svTopics s) t = None" "path \<in> log_files s t"
  shows "disk_view s path = svDisk s path"
proof (rule disk_view_other [OF assms(1)])
  fix u assume u: "plain_topic u" "u \<in> fst ` set (svTopics s)"
  obtain pre where pre: "\<forall>t. plain_topic t \<longrightarrow> log_path s t = pre @ t @ ''.log''"
      "\<forall>t. plain_topic t \<longrightarrow> getIndexPath (log_path s t) = pre @ t @ ''.index''"
    by (rule placed_at [OF assms(1)])
  have "t \<notin> fst ` set (svTopics s)" using assms(3) by (simp add: map_of_eq_None_iff)
  then have "u \<noteq> t" using u(2) by blast
  then show "path \<notin> log_files s u"
    using assms(4) ext_distinct [of pre t u] ext_distinct [of pre u t] 
    unfolding log_files_def pre(2) [rule_format, OF u(1)] pre(2) [rule_format, OF assms(2)]
    unfolding pre(1) [rule_format, OF u(1)] pre(1) [rule_format, OF assms(2)] by auto
qed

lemma index_path: "svDataDir s \<noteq> [] \<Longrightarrow> plain_topic u \<Longrightarrow> getIndexPath (log_path s u) = Join [svDataDir s, u @ ''.index'']"
  using topic_paths [of s] by metis

lemma offset_path_is_no_log:
  assumes "svDataDir s \<noteq> []" "plain_key (g, t, p)" "plain_topic u"
  shows "getFilePath \<lparr>osBaseDir = svDataDir s\<rparr> g t p \<notin> log_files s u"
proof -
  have "list_all plain [''offsets'', g, offset_file t p]"
    using assms(2) offset_file_plain [of t p] by (simp add: plain_key_def plain_def)
  then show ?thesis
    using Join_inject [OF assms(1), of "[''offsets'', g, offset_file t p]"] plain_topic_ext [OF assms(3)]
    unfolding log_files_def index_path [OF assms(1,3)] by (simp add: getFilePath_def log_path_def)
qed

section \<open>A sample broker\<close>

lemma dup_server_facts:
  "svTopics (topic_server dup_segment) = [(''t'', dup_segment)]" "svBrokerID (topic_server dup_segment) = 0"
  "svDataDir (topic_server dup_segment) = ''data''" "\<not> svShutdown (topic_server dup_segment)"
  "svOffsetStore (topic_server dup_segment) = \<lparr>osBaseDir = ''data''\<rparr>" "svFlushInt (topic_server dup_segment) = 10 ^ 8" "segPath dup_segment = ''data/t.log''"
  by (simp_all add: topic_server_def sample_server_def NewServer_def NewOffsetStore_def dup_segment_def)

lemma dup_server:
  "server_ready (topic_server dup_segment)" "holds (topic_server dup_segment) ''t'' dup_messages [(4, [9], [9])]"
proof -
  have "\<not> segClosed dup_segment" using dup_segment_rep by (simp add: seg_rep_def file_rep_def)
  then show "server_ready (topic_server dup_segment)" "holds (topic_server dup_segment) ''t'' dup_messages [(4, [9], [9])]"
    using dup_segment_rep topic_server_facts(3) by (auto simp: server_ready_def opened_def holds_def dup_server_facts plain_topic_def)
qed

section \<open>Properties\<close>

text \<open>\<^bold>\<open>C5\<close>: a broker that is shut down and started again on its directory has lost nothing: every topic opens with all its
  messages at their offsets, those that were not flushed included, and every committed offset is the same. (The next broker may have
  any flags, with a positive flush interval.)\<close>

theorem restart_keeps_logs:
  assumes "server_ready s" "evOpen ev = no_open_faults" "0 < fi"
  shows "\<exists>s1 s2. shutdownBroker no_faults s = Some s1
    \<and> NewServer None None shared (svBrokerID s) (svDataDir s) acks fi bs ri rt (disk_view s1) = Inr s2
    \<and> (\<forall>t F P. holds s t F P \<longrightarrow>
        (\<exists>seg s3. getOrCreateTopicSegment ev t s2 = Some (Inr (seg, s3)) \<and> seg_rep seg (F @ P) []))
    \<and> (\<forall>g t p. plain_key (g, t, p) \<longrightarrow>
        FetchOffset jerr None (svOffsetStore s2) g t p (svDisk s2) = FetchOffset jerr None (svOffsetStore s) g t p (svDisk s))"
proof -
  have op: "opened s" by (rule server_ready_opened [OF assms(1)])
  then have dir: "svDataDir s \<noteq> []" "svOffsetStore s = \<lparr>osBaseDir = svDataDir s\<rparr>" by (simp_all add: opened_def)
  obtain s1 where close: "ServerClose no_faults s = Some s1" using ServerClose_opened [OF op] by blast
  note s1 = closed_placed [OF op close]
  obtain s2 where s2: "NewServer None None shared (svBrokerID s) (svDataDir s) acks fi bs ri rt (disk_view s1) = Inr s2"
      "svTopics s2 = []" "svDisk s2 = disk_view s1" "svDataDir s2 = svDataDir s" "svOffsetStore s2 = \<lparr>osBaseDir = svDataDir s\<rparr>"
      "svFlushInt s2 = fi"
    by (simp add: NewServer_def NewOffsetStore_def)
  have logs: "\<exists>seg s3. getOrCreateTopicSegment ev t s2 = Some (Inr (seg, s3)) \<and> seg_rep seg (F @ P) []" if h: "holds s t F P" for t F P
  proof -
    obtain seg where seg: "map_of (svTopics s) t = Some seg" "seg_rep seg F P" using h by (auto simp: holds_def)
    then have "map_of (svTopics s1) t = Some (closed_segment seg)" using s1(4) by simp
    note files = disk_view_open [OF s1(1) this, unfolded s1(2)]
    obtain seg' where "NewSegment no_open_faults (log_path s t) (enc_msgs (F @ P)) (idxFile (segIndex (closed_segment seg))) (svFlushInt s2) (svBatchSize s2) = Some (Inr seg')"
      "seg_rep seg' (F @ P) []" using closed_file(3) [OF seg(2)] assms(3) s2(6) by blast
    moreover have "log_path s2 = log_path s" using s2(4) by (simp add: log_path_def fun_eq_iff)
    ultimately show ?thesis
      using files closed_file(1) [OF seg(2)]
      by (simp add: getOrCreateTopicSegment_def s2(2,3) assms(2) openSegment_def content_def)
  qed
  have offs: "FetchOffset jerr None (svOffsetStore s2) g t p (svDisk s2) = FetchOffset jerr None (svOffsetStore s) g t p (svDisk s)"
    if k: "plain_key (g, t, p)" for g t p
  proof -
    have "log_files s1 = log_files s" using s1(2) by (simp add: log_files_def fun_eq_iff)
    then have "disk_view s1 (getFilePath \<lparr>osBaseDir = svDataDir s\<rparr> g t p) = svDisk s (getFilePath \<lparr>osBaseDir = svDataDir s\<rparr> g t p)"
      using disk_view_other [OF s1(1)] offset_path_is_no_log [OF dir(1) k] s1(3) by simp
    then show ?thesis by (simp add: FetchOffset_def s2(3,5) dir(2))
  qed
  show ?thesis using close s2(1) logs offs by (auto simp: shutdownBroker_def)
qed

theorem restart_keeps_logs_witness:
  "\<exists>s1 s2. shutdownBroker no_faults (topic_server dup_segment) = Some s1
    \<and> NewServer None None False 0 ''data'' 1 (10 ^ 8) 65536 0 0 (disk_view s1) = Inr s2
    \<and> (\<exists>seg s3. getOrCreateTopicSegment sample_env ''t'' s2 = Some (Inr (seg, s3)) \<and> seg_rep seg (dup_messages @ [(4, [9], [9])]) [])"
proof -
  have "evOpen sample_env = no_open_faults" "(0 :: int) < 10 ^ 8" by (simp_all add: sample_env_def calm_def)
  then show ?thesis
    using restart_keeps_logs [OF dup_server(1), of sample_env "10 ^ 8" False 1 65536 0 0] dup_server(2) unfolding dup_server_facts by blast
qed

end
