(* ===== verification/Retention_Pass.thy ===== *)
theory Retention_Pass
  imports Broker_Restart
begin

text \<open>
  What a whole pass of \<^verbatim>\<open>processRetention\<close> (\<^verbatim>\<open>internal/broker/retention.go\<close>) leaves of a running broker: the logs that are not
  expired, whether they are open or not, and the committed offsets.
\<close>

section \<open>Which logs a pass deletes\<close>

definition log_entry :: "dir_entry \<Rightarrow> bool" where
  "log_entry f \<longleftrightarrow> \<not> deIsDir f \<and> HasSuffix (deName f) ''.log''"

definition entry_topic :: "dir_entry \<Rightarrow> string" where
  "entry_topic f = TrimSuffix (deName f) ''.log''"

definition entry_expired :: "int \<Rightarrow> RetentionManager \<Rightarrow> dir_entry \<Rightarrow> bool" where
  "entry_expired now rm f \<longleftrightarrow> log_entry f \<and> (case deInfo f of None \<Rightarrow> False | Some info \<Rightarrow> expired now rm info)"

definition expired_topics :: "int \<Rightarrow> RetentionManager \<Rightarrow> dir_entry list \<Rightarrow> string set" where
  "expired_topics now rm fs = entry_topic ` {f \<in> set fs. entry_expired now rm f}"

lemma expired_topics_Cons:
  "expired_topics now rm (f # fs) =
     (if entry_expired now rm f then {entry_topic f} else {}) \<union> expired_topics now rm fs"
  by (auto simp: expired_topics_def)

section \<open>One deletion\<close>

definition touched :: "Server \<Rightarrow> string \<Rightarrow> string set" where
  "touched s u = {log_path s u, log_path s u @ ''.index'', getIndexPath (log_path s u)}"

lemma opened_delete:
  assumes "opened s" "svTopics s' = AList.delete u (svTopics s)" "svShutdown s' = svShutdown s" "svDataDir s' = svDataDir s"
    "svOffsetStore s' = svOffsetStore s" "svFlushInt s' = svFlushInt s"
  shows "opened s'"
  using assms distinct_delete [of "svTopics s" u] by (auto simp: opened_def AList.delete_eq log_path_def)

lemma delete_log:
  assumes "opened s"
  obtains s' where "deleteTopicLog no_faults u s = Some s'" "opened s'" "svDataDir s' = svDataDir s"
    "svOffsetStore s' = svOffsetStore s" "svTopics s' = AList.delete u (svTopics s)" "svDisk s' (log_path s u) = None"
    "svDisk s' (log_path s u @ ''.index'') = None" "\<forall>path. path \<notin> touched s u \<longrightarrow> svDisk s' path = svDisk s path"
proof (cases "map_of (svTopics s) u")
  case None
  define s' where "s' = s\<lparr>svDisk := os_remove (log_path s u @ ''.index'') (os_remove (log_path s u) (svDisk s))\<rparr>"
  have "AList.delete u (svTopics s) = svTopics s" using None by (simp add: map_of_eq_None_iff)
  moreover have "deleteTopicLog no_faults u s = Some s'" using None by (simp add: deleteTopicLog_def s'_def)
  ultimately show thesis using assms
    by (intro that [of s']) (auto simp: s'_def touched_def os_remove_def opened_def log_path_def)
next
  case (Some seg)
  then have seg: "segPath seg = log_path s u" "\<not> segClosed seg"
    using assms map_of_SomeD [OF Some] by (auto simp: opened_def)
  then have close: "Close no_faults seg = Some (closed_segment seg)" by (simp add: Close_def closed_segment_def)
  have path: "segPath (closed_segment seg) = log_path s u" using seg(1) by (simp add: closed_segment_def)
  define s' where "s' = s\<lparr>svTopics := AList.delete u (svTopics s),
    svDisk := os_remove (log_path s u @ ''.index'') (os_remove (log_path s u) (storeFiles (closed_segment seg) (svDisk s)))\<rparr>"
  have "deleteTopicLog no_faults u s = Some s'" using Some close by (simp add: deleteTopicLog_def s'_def log_path_def)
  moreover have "opened s'" by (rule opened_delete [OF assms]) (simp_all add: s'_def)
  ultimately show thesis
    by (intro that [of s']) (auto simp: s'_def touched_def os_remove_def storeFiles_def path)
qed

text \<open>The files a deletion touches are neither another topic's log nor a committed offset.\<close>

lemma touched_other_log:
  assumes "svDataDir s \<noteq> []" "plain_topic u" "plain_topic t" "t \<noteq> u"
  shows "log_path s t \<notin> touched s u"
    "getIndexPath (log_path s t) \<in> touched s u \<Longrightarrow> getIndexPath (log_path s t) = log_path s u @ ''.index''"
proof -
  obtain pre where pre: "\<forall>t. plain_topic t \<longrightarrow> log_path s t = pre @ t @ ''.log'' \<and> getIndexPath (log_path s t) = pre @ t @ ''.index''"
    using topic_paths [OF assms(1)] by metis
  then have eq: "log_path s u = pre @ u @ ''.log''" "getIndexPath (log_path s u) = pre @ u @ ''.index''"
      "log_path s t = pre @ t @ ''.log''" "getIndexPath (log_path s t) = pre @ t @ ''.index''"
    using assms(2,3) by blast+
  then show "log_path s t \<notin> touched s u"
    using assms(4) ext_distinct(1) [of pre t u] unfolding touched_def by (auto dest!: arg_cong [of _ _ last])
  assume "getIndexPath (log_path s t) \<in> touched s u"
  then show "getIndexPath (log_path s t) = log_path s u @ ''.index''"
    using assms(4) ext_distinct(2) [of pre t u] unfolding touched_def eq(2,4) unfolding eq(1) by auto
qed

lemma touched_offset:
  assumes "svDataDir s \<noteq> []" "plain_topic u" "plain_key (g, t, p)"
  shows "getFilePath \<lparr>osBaseDir = svDataDir s\<rparr> g t p \<notin> touched s u"
proof -
  have u: "plain_topic (u @ ''.log'')" using assms(2) by (simp add: plain_topic_def)
  obtain pre where pre: "\<forall>t. plain_topic t \<longrightarrow> log_path s t = pre @ t @ ''.log'' \<and> getIndexPath (log_path s t) = pre @ t @ ''.index''"
    using topic_paths [OF assms(1)] by metis
  then have "getIndexPath (log_path s (u @ ''.log'')) = log_path s u @ ''.index''" using u assms(2) by auto
  then have "touched s u \<subseteq> log_files s u \<union> log_files s (u @ ''.log'')" by (auto simp: touched_def log_files_def)
  then show ?thesis using offset_path_is_no_log [OF assms(1,3)] assms(2) u by blast
qed

section \<open>The pass\<close>

definition pass :: "int \<Rightarrow> RetentionManager \<Rightarrow> dir_entry list \<Rightarrow> Server \<Rightarrow> Server option" where
  "pass now rm fs s = foldl (\<lambda>acc f. Option.bind acc (retainFile no_faults now rm f)) (Some s) fs"

lemma pass_Cons: "pass now rm (f # fs) s = Option.bind (retainFile no_faults now rm f s) (pass now rm fs)"
proof -
  have none: "foldl (\<lambda>acc f. Option.bind acc (retainFile no_faults now rm f)) None fs = None" by (induction fs) simp_all
  then show ?thesis by (cases "retainFile no_faults now rm f s") (simp_all add: pass_def)
qed

lemma retainFile_cases:
  "retainFile no_faults now rm f s =
     (if entry_expired now rm f then deleteTopicLog no_faults (entry_topic f) s else Some s)"
  by (auto simp: retainFile_def entry_expired_def log_entry_def entry_topic_def split: option.split)

text \<open>What a pass keeps and what it deletes, relative to the state before it. It may delete the index of another log: that of the
  topic \<^verbatim>\<open>x.log\<close> along with the log of \<^verbatim>\<open>x\<close>.\<close>

definition index_kept :: "Server \<Rightarrow> Server \<Rightarrow> string \<Rightarrow> bool" where
  "index_kept s s' t \<longleftrightarrow> svDisk s' (getIndexPath (log_path s t)) = None
     \<or> svDisk s' (getIndexPath (log_path s t)) = svDisk s (getIndexPath (log_path s t))"

definition retained :: "string set \<Rightarrow> Server \<Rightarrow> Server \<Rightarrow> bool" where
  "retained X s s' \<longleftrightarrow> opened s' \<and> svDataDir s' = svDataDir s \<and> svOffsetStore s' = svOffsetStore s
     \<and> (\<forall>t. map_of (svTopics s') t = (if t \<in> X then None else map_of (svTopics s) t))
     \<and> (\<forall>t. plain_topic t \<longrightarrow> svDisk s' (log_path s t) = (if t \<in> X then None else svDisk s (log_path s t)))
     \<and> (\<forall>t. plain_topic t \<longrightarrow> t \<notin> X \<longrightarrow> index_kept s s' t)
     \<and> (\<forall>g t p. plain_key (g, t, p) \<longrightarrow>
          svDisk s' (getFilePath (svOffsetStore s) g t p) = svDisk s (getFilePath (svOffsetStore s) g t p))"

lemma retained_refl: "opened s \<Longrightarrow> retained {} s s"
  by (simp add: retained_def index_kept_def)

lemma index_kept_trans:
  "index_kept s s' t \<Longrightarrow> index_kept s' s'' t \<Longrightarrow> svDataDir s' = svDataDir s \<Longrightarrow> index_kept s s'' t"
  by (auto simp: index_kept_def log_path_def)

lemma retained_trans: "retained X s s' \<Longrightarrow> retained Y s' s'' \<Longrightarrow> retained (X \<union> Y) s s''"
  by (auto simp: retained_def log_path_def intro: index_kept_trans)

lemma retained_delete:
  assumes "opened s" "plain_topic u"
  obtains s' where "deleteTopicLog no_faults u s = Some s'" "retained {u} s s'"
proof -
  obtain s' where s': "deleteTopicLog no_faults u s = Some s'" "opened s'" "svDataDir s' = svDataDir s"
    "svOffsetStore s' = svOffsetStore s" "svTopics s' = AList.delete u (svTopics s)" "svDisk s' (log_path s u) = None"
    "svDisk s' (log_path s u @ ''.index'') = None" "\<forall>path. path \<notin> touched s u \<longrightarrow> svDisk s' path = svDisk s path"
    by (rule delete_log [OF assms(1)])
  have dir: "svDataDir s \<noteq> []" "svOffsetStore s = \<lparr>osBaseDir = svDataDir s\<rparr>" using assms(1) by (simp_all add: opened_def)
  have "index_kept s s' t" if "plain_topic t" "t \<noteq> u" for t
    using touched_other_log(2) [OF dir(1) assms(2) that] s'(7,8) by (cases "getIndexPath (log_path s t) \<in> touched s u") (simp_all add: index_kept_def)
  then have "retained {u} s s'"
    using s'(2-8) touched_other_log(1) [OF dir(1) assms(2)] touched_offset [OF dir(1) assms(2)]
    unfolding retained_def dir(2) by (auto simp: delete_conv')
  with s'(1) show thesis by (rule that)
qed

lemma pass_retained:
  assumes "opened s" "\<forall>f \<in> set fs. log_entry f \<longrightarrow> plain_topic (entry_topic f)"
  shows "\<exists>s'. pass now rm fs s = Some s' \<and> retained (expired_topics now rm fs) s s'"
  using assms
proof (induction fs arbitrary: s)
  case Nil
  then show ?case using retained_refl by (simp add: pass_def expired_topics_def)
next
  case (Cons f fs)
  let ?X = "if entry_expired now rm f then {entry_topic f} else {}"
  obtain s1 where s1: "retainFile no_faults now rm f s = Some s1" "retained ?X s s1"
  proof (cases "entry_expired now rm f")
    case True
    then have "plain_topic (entry_topic f)" using Cons.prems(2) by (simp add: entry_expired_def)
    then obtain s' where "deleteTopicLog no_faults (entry_topic f) s = Some s'" "retained {entry_topic f} s s'"
      by (rule retained_delete [OF Cons.prems(1)])
    then show thesis using that [of s'] True by (simp add: retainFile_cases)
  next
    case False
    then show thesis using retained_refl [OF Cons.prems(1)] that [of s] by (simp add: retainFile_cases)
  qed
  then have "opened s1" by (simp add: retained_def)
  then obtain s' where "pass now rm fs s1 = Some s'" "retained (expired_topics now rm fs) s1 s'" using Cons by auto
  then show ?case using s1 retained_trans [OF s1(2)] by (auto simp: pass_Cons expired_topics_Cons)
qed

lemma retained_ready:
  assumes "retained X s s'" "server_ready s"
  shows "server_ready s'"
proof -
  have op: "opened s'" using assms(1) by (simp add: retained_def)
  have "\<exists>F P. seg_rep seg F P" if "(t, seg) \<in> set (svTopics s')" for t seg
  proof -
    have "map_of (svTopics s') t = Some seg" using op that by (simp add: opened_def)
    then have "map_of (svTopics s) t = Some seg" using assms(1) by (auto simp: retained_def split: if_splits)
    then show ?thesis using assms(2) map_of_SomeD by (fastforce simp: server_ready_def)
  qed
  with op show ?thesis by (auto simp: server_ready_def)
qed

section \<open>Properties\<close>

text \<open>\<^bold>\<open>C22\<close>: a retention pass over the data directory does not panic and deletes exactly the logs whose file is too large or too
  old: these are closed and gone from the disk; every other log keeps all its messages, flushed or not, and every committed offset is kept.\<close>

theorem retention_deletes_only_expired:
  fixes now :: int and rm :: RetentionManager and fs :: "dir_entry list"
  assumes "server_ready s" "\<forall>f \<in> set fs. log_entry f \<longrightarrow> plain_topic (entry_topic f)"
  defines "X \<equiv> expired_topics now rm fs"
  shows "\<exists>s'. processRetention no_faults now rm (Some fs) s = Some s' \<and> server_ready s'
    \<and> (\<forall>t F P. holds s' t F P \<longleftrightarrow> t \<notin> X \<and> holds s t F P)
    \<and> (\<forall>t. plain_topic t \<longrightarrow> svDisk s' (log_path s t) = (if t \<in> X then None else svDisk s (log_path s t)))
    \<and> (\<forall>g t p. plain_key (g, t, p) \<longrightarrow>
        FetchOffset jerr None (svOffsetStore s') g t p (svDisk s') = FetchOffset jerr None (svOffsetStore s) g t p (svDisk s))"
proof -
  obtain s' where s': "pass now rm fs s = Some s'" "retained X s s'" using pass_retained [OF server_ready_opened [OF assms(1)] assms(2)] unfolding X_def by blast
  then have "processRetention no_faults now rm (Some fs) s = Some s'" by (simp add: processRetention_def pass_def)
  moreover have "holds s' t F P \<longleftrightarrow> t \<notin> X \<and> holds s t F P" for t F P using s'(2) by (auto simp: retained_def holds_def)
  moreover have "server_ready s'" using s'(2) assms(1) by (rule retained_ready)
  ultimately show ?thesis using s'(2) by (auto simp: retained_def FetchOffset_def)
qed

theorem retention_deletes_only_expired_witness:
  "\<exists>s'. processRetention no_faults 0 (NewRetentionManager 0 100 0)
        (Some [\<lparr>deName = ''t.log'', deIsDir = False, deInfo = Some (10, 0)\<rparr>, \<lparr>deName = ''u.log'', deIsDir = False, deInfo = Some (1000, 0)\<rparr>])
        (topic_server dup_segment) = Some s'
    \<and> holds s' ''t'' dup_messages [(4, [9], [9])] \<and> svDisk s' (log_path (topic_server dup_segment) ''u'') = None"
proof -
  let ?t = "\<lparr>deName = ''t.log'', deIsDir = False, deInfo = Some (10, 0)\<rparr>" and ?u = "\<lparr>deName = ''u.log'', deIsDir = False, deInfo = Some (1000, 0)\<rparr>"
  let ?rm = "NewRetentionManager 0 100 0"
  have e: "log_entry ?t" "entry_topic ?t = ''t''" "log_entry ?u" "entry_topic ?u = ''u''"
    by (simp_all add: log_entry_def entry_topic_def HasSuffix_def TrimSuffix_def)
  have x: "\<not> expired 0 ?rm (10, 0)" "expired 0 ?rm (1000, 0)" by (simp_all add: expired_def NewRetentionManager_def)
  have p: "plain_topic ''t''" "plain_topic ''u''" by (simp_all add: plain_topic_def)
  then have fs: "\<forall>f \<in> set [?t, ?u]. log_entry f \<longrightarrow> plain_topic (entry_topic f)" using e by simp
  have X: "expired_topics 0 ?rm [?t, ?u] = {''u''}" using e x by (simp add: expired_topics_Cons entry_expired_def) (simp add: expired_topics_def)
  have h: "holds (topic_server dup_segment) ''t'' dup_messages [(4, [9], [9])]" by (rule dup_server(2))
  obtain s' where s': "processRetention no_faults 0 ?rm (Some [?t, ?u]) (topic_server dup_segment) = Some s'"
      "\<forall>t F P. holds s' t F P \<longleftrightarrow> t \<notin> {''u''} \<and> holds (topic_server dup_segment) t F P"
      "\<forall>t. plain_topic t \<longrightarrow> svDisk s' (log_path (topic_server dup_segment) t)
         = (if t \<in> {''u''} then None else svDisk (topic_server dup_segment) (log_path (topic_server dup_segment) t))"
    using retention_deletes_only_expired [OF dup_server(1) fs, of 0 ?rm, unfolded X] by blast
  have "holds s' ''t'' dup_messages [(4, [9], [9])]" using s'(2) h by simp
  moreover have "svDisk s' (log_path (topic_server dup_segment) ''u'') = None" using s'(3) p(2) by simp
  ultimately show ?thesis using s'(1) by blast
qed

end
