(* ===== verification/Compaction_Pass.thy ===== *)
theory Compaction_Pass
  imports Retention_Pass
begin

text \<open>
  What a pass of \<^verbatim>\<open>processCompaction\<close> (\<^verbatim>\<open>internal/broker/retention.go\<close>) leaves of a running broker: it does not panic, and of all
  topics and files it changes those of the topics it compacts, and the files that its temporary segments and the misnamed index files
  of these may share with topics named after them (\<open>disturbed\<close>). What it does to a topic that it compacts is the subject of
  \<open>Retention\<close>. The pass is one step here: the code holds no lock while it rewrites a log, so a message that is
  produced meanwhile can be lost with the old segment.
\<close>

section \<open>Files\<close>

definition compaction_files :: "Server \<Rightarrow> string \<Rightarrow> string set" where
  "compaction_files s t = {log_path s t, getIndexPath (log_path s t), log_path s t @ ''.index'',
     compacted_path s t, getIndexPath (compacted_path s t), compacted_path s t @ ''.index''}"

text \<open>The topics whose files a compaction of a topic may touch.\<close>

definition disturbed :: "string \<Rightarrow> string set" where
  "disturbed t = {t, t @ ''.compacted'', t @ ''.log'', t @ ''.compacted.log''}"

definition same_outside :: "string set \<Rightarrow> disk \<Rightarrow> disk \<Rightarrow> bool" where
  "same_outside A d d' \<longleftrightarrow> (\<forall>x. x \<notin> A \<longrightarrow> d' x = d x)"

lemma same_outside_steps:
  "same_outside A d d' \<Longrightarrow> x \<in> A \<Longrightarrow> same_outside A d (os_remove x d')"
  "same_outside A d d' \<Longrightarrow> x \<in> A \<Longrightarrow> y \<in> A \<Longrightarrow> same_outside A d (os_rename x y d')"
  "same_outside A d d' \<Longrightarrow> segPath seg \<in> A \<Longrightarrow> getIndexPath (segPath seg) \<in> A \<Longrightarrow> same_outside A d (storeFiles seg d')"
  by (auto simp: same_outside_def os_remove_def os_rename_def storeFiles_def split: option.split)

lemma same_outside_refl: "same_outside A d d"
  by (simp add: same_outside_def)

lemma other_log_files:
  assumes "svDataDir s \<noteq> []" "plain_topic t" "plain_topic u" "u \<notin> disturbed t"
  shows "log_files s u \<inter> compaction_files s t = {}"
proof -
  obtain pre where pre: "\<forall>t. plain_topic t \<longrightarrow> log_path s t = pre @ t @ ''.log'' \<and> getIndexPath (log_path s t) = pre @ t @ ''.index''"
    using topic_paths [OF assms(1)] by metis
  have t: "log_path s t = pre @ t @ ''.log''" "getIndexPath (log_path s t) = pre @ t @ ''.index''"
    and u: "log_path s u = pre @ u @ ''.log''" "getIndexPath (log_path s u) = pre @ u @ ''.index''" using pre assms(2,3) by blast+
  have tc: "plain_topic (t @ ''.compacted'')" using assms(2) by (simp add: plain_topic_def)
  have cp: "log_path s (t @ ''.compacted'') = compacted_path s t" by (simp add: compacted_path_def log_path_def)
  have c: "compacted_path s t = pre @ t @ ''.compacted.log''" "getIndexPath (compacted_path s t) = pre @ t @ ''.compacted.index''"
    using pre [rule_format, OF tc, unfolded cp] by simp_all (metis)
  have ne: "u \<noteq> t" "u \<noteq> t @ ''.compacted''" "u \<noteq> t @ ''.log''" "u \<noteq> t @ ''.compacted.log''"
    using assms(4) by (simp_all add: disturbed_def)
  have "u @ ''.log'' \<notin> {t @ ''.log'', t @ ''.compacted.log''}" "u @ ''.index'' \<notin> {t @ ''.index'', t @ ''.log.index'', t @ ''.compacted.index'', t @ ''.compacted.log.index''}"
    using ne append_same_eq [of u "''.log''" "t @ ''.compacted''"] append_same_eq [of u "''.index''" "t @ ''.log''"]
      append_same_eq [of u "''.index''" "t @ ''.compacted''"] append_same_eq [of u "''.index''" "t @ ''.compacted.log''"] by simp_all
  moreover have "u @ ''.log'' \<notin> {t @ ''.index'', t @ ''.log.index'', t @ ''.compacted.index'', t @ ''.compacted.log.index''}"
    "u @ ''.index'' \<notin> {t @ ''.log'', t @ ''.compacted.log''}" by (auto dest!: arg_cong [of _ _ last])
  ultimately show ?thesis
    unfolding log_files_def compaction_files_def t(2) u(2) c(2) unfolding t(1) u(1) c(1) by simp
qed

section \<open>One topic\<close>

lemma writeCompacted_frame:
  assumes "opened s" "evOpen ev = no_open_faults" "evFlush ev = no_faults"
  obtains d where "writeCompactedFile ev t records lo s = Some (None, s\<lparr>svDisk := d\<rparr>)" "same_outside (compaction_files s t) (svDisk s) d"
proof -
  let ?p = "compacted_path s t"
  let ?d = "os_remove (?p @ ''.index'') (os_remove ?p (svDisk s))"
  have fi: "0 < svFlushInt s" using assms(1) by (simp add: opened_def)
  obtain seg where seg: "openSegment no_open_faults ?p (svFlushInt s) (svBatchSize s) ?d = Some (Inr seg)" "segPath seg = ?p" "\<not> segClosed seg"
    unfolding openSegment_def by (rule NewSegment_opens [OF fi])
  let ?fin = "foldl (appendKept no_faults (evStamp ev) lo) seg records"
  have "Close no_faults ?fin = Some (closed_segment ?fin)"
    using appendKept_bytes [OF seg(3)] by (simp add: Close_def closed_segment_def)
  then have "writeCompactedFile ev t records lo s = Some (None, s\<lparr>svDisk := storeFiles (closed_segment ?fin) ?d\<rparr>)"
    by (simp add: writeCompactedFile_def Let_def assms(2,3) seg(1))
  moreover have "same_outside (compaction_files s t) (svDisk s) (storeFiles (closed_segment ?fin) ?d)"
    by (intro same_outside_steps same_outside_refl) (simp_all add: compaction_files_def closed_segment_def seg(2))
  ultimately show thesis by (rule that)
qed

lemma replaceWithCompacted_frame:
  assumes "0 < svFlushInt s" "evOpen ev = no_open_faults"
  obtains d seg where "replaceWithCompacted ev t s = Some (None, setSegment t seg (s\<lparr>svDisk := d\<rparr>))"
    "same_outside (compaction_files s t) (svDisk s) d" "segPath seg = log_path s t" "\<not> segClosed seg"
proof -
  let ?l = "log_path s t" and ?c = "compacted_path s t"
  let ?d = "os_rename (?c @ ''.index'') (?l @ ''.index'') (os_rename ?c ?l (os_remove (?l @ ''.index'') (os_remove ?l (svDisk s))))"
  obtain seg where seg: "openSegment no_open_faults ?l (svFlushInt s) (svBatchSize s) ?d = Some (Inr seg)" "segPath seg = ?l" "\<not> segClosed seg"
    unfolding openSegment_def by (rule NewSegment_opens [OF assms(1)])
  then have "replaceWithCompacted ev t s = Some (None, setSegment t seg (s\<lparr>svDisk := ?d\<rparr>))"
    by (simp add: replaceWithCompacted_def Let_def assms(2))
  moreover have "same_outside (compaction_files s t) (svDisk s) ?d"
    by (intro same_outside_steps same_outside_refl) (simp_all add: compaction_files_def)
  ultimately show thesis using seg(2,3) by (rule that)
qed

text \<open>The state after a compaction of a set of topics, as far as it is that of the state before.\<close>

definition compacted :: "string set \<Rightarrow> Server \<Rightarrow> Server \<Rightarrow> bool" where
  "compacted X s s' \<longleftrightarrow> opened s' \<and> (\<exists>ts d. s' = s\<lparr>svTopics := ts, svDisk := d\<rparr>)
     \<and> (\<forall>t. t \<notin> X \<longrightarrow> map_of (svTopics s') t = map_of (svTopics s) t)
     \<and> same_outside (\<Union>t \<in> X. compaction_files s t) (svDisk s) (svDisk s')"

lemma compacted_refl: "opened s \<Longrightarrow> compacted X s s"
  unfolding compacted_def same_outside_def
  by (intro conjI exI [of _ "svTopics s"] exI [of _ "svDisk s"]) simp_all

lemma compacted_files: "compacted X s s' \<Longrightarrow> compaction_files s' = compaction_files s"
  by (auto simp: compacted_def compaction_files_def log_path_def compacted_path_def fun_eq_iff)

lemma compacted_trans:
  assumes "compacted X s s1" "compacted Y s1 s2"
  shows "compacted (X \<union> Y) s s2"
proof -
  obtain ts d ts' d' where "s1 = s\<lparr>svTopics := ts, svDisk := d\<rparr>" "s2 = s1\<lparr>svTopics := ts', svDisk := d'\<rparr>"
    using assms by (auto simp: compacted_def)
  then have "s2 = s\<lparr>svTopics := ts', svDisk := d'\<rparr>" by simp
  moreover have "same_outside (\<Union>t \<in> X \<union> Y. compaction_files s t) (svDisk s) (svDisk s2)"
    using assms compacted_files [OF assms(1)] by (auto simp: compacted_def same_outside_def)
  ultimately show ?thesis using assms unfolding compacted_def by auto
qed

lemma CompactTopic_frame:
  assumes "opened s" "evOpen ev = no_open_faults" "evFlush ev = no_faults" "plain_topic t"
  obtains e s' where "CompactTopic ev t s = Some (e, s')" "compacted {t} s s'"
proof (cases "\<exists>seg records nxt. map_of (svTopics s) t = Some seg \<and> ReadRecords seg 0 0 = ((records, nxt), None) \<and> 2 \<le> length records")
  case False
  have "\<exists>e. CompactTopic ev t s = Some (e, s)"
  proof (cases "map_of (svTopics s) t")
    case (Some seg)
    obtain records nxt err where r: "ReadRecords seg 0 0 = ((records, nxt), err)" by (metis surj_pair)
    then show ?thesis using False Some by (cases err) (auto simp: CompactTopic_def)
  qed (simp add: CompactTopic_def)
  then show thesis using that compacted_refl [OF assms(1)] by blast
next
  case True
  then obtain seg records nxt where seg: "map_of (svTopics s) t = Some seg" "ReadRecords seg 0 0 = ((records, nxt), None)" "2 \<le> length records"
    by blast
  then have open_seg: "segPath seg = log_path s t" "\<not> segClosed seg" using assms(1) map_of_SomeD [OF seg(1)] by (auto simp: opened_def)
  obtain d where d: "writeCompactedFile ev t records (getCompactionOffsets records) s = Some (None, s\<lparr>svDisk := d\<rparr>)"
      "same_outside (compaction_files s t) (svDisk s) d" by (rule writeCompacted_frame [OF assms(1-3)])
  let ?s2 = "setSegment t (closed_segment seg) (s\<lparr>svDisk := storeFiles (closed_segment seg) d\<rparr>)"
  have fi: "0 < svFlushInt ?s2" using assms(1) by (simp add: opened_def setSegment_def)
  obtain d2 seg2 where r: "replaceWithCompacted ev t ?s2 = Some (None, setSegment t seg2 (?s2\<lparr>svDisk := d2\<rparr>))"
      "same_outside (compaction_files ?s2 t) (svDisk ?s2) d2" "segPath seg2 = log_path ?s2 t" "\<not> segClosed seg2"
    by (rule replaceWithCompacted_frame [OF fi assms(2)])
  let ?s3 = "s\<lparr>svTopics := AList.update t seg2 (svTopics s), svDisk := d2\<rparr>"
  have "Close no_faults seg = Some (closed_segment seg)" using open_seg(2) by (simp add: Close_def closed_segment_def)
  then have run: "CompactTopic ev t s = Some (None, ?s3)"
    using seg d(1) r(1) assms(3) by (simp add: CompactTopic_def setSegment_def)
  have names: "compaction_files ?s2 t = compaction_files s t" "log_path ?s2 t = log_path s t" "log_path ?s3 = log_path s"
    by (simp_all add: setSegment_def compaction_files_def log_path_def compacted_path_def fun_eq_iff)
  have "same_outside (compaction_files s t) (svDisk s) (storeFiles (closed_segment seg) d)"
    by (intro same_outside_steps d(2)) (simp_all add: compaction_files_def closed_segment_def open_seg(1))
  then have disk: "same_outside (compaction_files s t) (svDisk s) d2"
    using r(2) names(1) by (simp add: same_outside_def setSegment_def)
  have "opened ?s3"
    using assms(1,4) r(3,4) names(2) distinct_update [of "svTopics s" t seg2] set_update_subset [of t seg2 "svTopics s"]
    unfolding opened_def names(3) by fastforce
  then have "compacted {t} s ?s3" using disk by (auto simp: compacted_def update_conv')
  with run show thesis by (rule that)
qed

section \<open>The pass\<close>

text \<open>A compaction pass over a broker in order does not panic; every topic that is not one it compacts keeps its segment, and
  no file but those of the compacted topics and of their temporary segments changes.\<close>

theorem compaction_pass_frame:
  assumes "opened s" "evOpen ev = no_open_faults" "evFlush ev = no_faults"
  shows "\<exists>s'. processCompaction ev n s = Some s' \<and> compacted (set (topicsToCompact n s)) s s'"
proof -
  let ?run = "foldl (\<lambda>acc topic. Option.bind acc (\<lambda>s. map_option snd (CompactTopic ev topic s)))"
  have "\<exists>s'. ?run (Some s) ts = Some s' \<and> compacted (set ts) s s'" if "opened s" "\<forall>t \<in> set ts. plain_topic t" for s ts
    using that
  proof (induction ts arbitrary: s)
    case Nil
    then show ?case using compacted_refl by simp
  next
    case (Cons t ts)
    have t: "plain_topic t" using Cons.prems(2) by simp
    obtain e s1 where s1: "CompactTopic ev t s = Some (e, s1)" "compacted {t} s s1"
      by (rule CompactTopic_frame [OF Cons.prems(1) assms(2,3) t])
    then have "opened s1" by (simp add: compacted_def)
    then obtain s' where "?run (Some s1) ts = Some s'" "compacted (set ts) s1 s'" using Cons by auto
    then show ?case using s1 compacted_trans [OF s1(2)] by fastforce
  qed
  moreover have "\<forall>t \<in> set (topicsToCompact n s). plain_topic t" using assms(1) by (auto simp: topicsToCompact_def opened_def)
  ultimately show ?thesis using assms(1) unfolding processCompaction_def by blast
qed

lemma compacted_log_files:
  assumes "compacted X s s'" "\<forall>t \<in> X. plain_topic t" "plain_topic u" "u \<notin> (\<Union>t \<in> X. disturbed t)"
  shows "map_of (svTopics s') u = map_of (svTopics s) u" "path \<in> log_files s u \<Longrightarrow> svDisk s' path = svDisk s path"
proof -
  have "u \<notin> X" using assms(4) by (auto simp: disturbed_def)
  then show "map_of (svTopics s') u = map_of (svTopics s) u" using assms(1) by (simp add: compacted_def)
  have "svDataDir s \<noteq> []" using assms(1) by (auto simp: compacted_def opened_def)
  then have "log_files s u \<inter> compaction_files s t = {}" if "t \<in> X" for t using other_log_files [of s t u] assms(2-4) that by blast
  then show "path \<in> log_files s u \<Longrightarrow> svDisk s' path = svDisk s path"
    using assms(1) unfolding compacted_def same_outside_def by blast
qed

end
