(* ===== verification/Broker_Life.thy ===== *)
theory Broker_Life
  imports Compaction_Pass
begin

text \<open>
  The life of a broker: requests of any connections, flushes, replication, heartbeats, failovers, rebalancing, retention and compaction
  passes and restarts, in any order. \<open>stored s t F P\<close> is the log of a topic wherever it is: in an open segment, \<open>F\<close> in its file and
  \<open>P\<close> in its batch, or in the files from which the next request would open it. Topics and groups have names without a slash, the
  storage works, the logs stay below \<open>2 ^ 63\<close> bytes and the flush interval is positive.

  Every step is atomic. A shutdown is one step, too: in the code a connection that is being served while \<^verbatim>\<open>Server.Close\<close> runs can still append to a
  segment that is already closed, which is acknowledged and lost (\<open>append_after_close\<close> of \<open>Segment\<close>).

  \<open>acknowledged_messages_survive\<close>: a message that was acknowledged is found at its offset for as long as no retention pass
  deletes the topic and no compaction pass rewrites it. \<open>crash_step\<close> adds kills of the process between two steps, which lose the
  batches: what was acknowledged and not flushed may be gone, but \<open>reads_survive_kills\<close>: what a consumer has read stays.
\<close>

section \<open>Logs, open or not\<close>

definition disk_log :: "disk \<Rightarrow> string \<Rightarrow> msg list \<Rightarrow> bool" where
  "disk_log d path ms \<longleftrightarrow> (\<forall>fi bs. 0 < fi \<longrightarrow> (\<exists>seg. openSegment no_open_faults path fi bs d = Some (Inr seg) \<and> seg_rep seg ms []))"

definition stored :: "Server \<Rightarrow> string \<Rightarrow> msg list \<Rightarrow> msg list \<Rightarrow> bool" where
  "stored s t F P \<longleftrightarrow> (case map_of (svTopics s) t of
       Some seg \<Rightarrow> seg_rep seg F P
     | None \<Rightarrow> disk_log (svDisk s) (log_path s t) F \<and> P = [])"

definition log_size :: "Server \<Rightarrow> string \<Rightarrow> nat" where
  "log_size s t = (case map_of (svTopics s) t of
       Some seg \<Rightarrow> used seg
     | None \<Rightarrow> length (content (svDisk s) (log_path s t)))"

lemma openSegment_facts:
  assumes "openSegment flt path fi bs d = Some (Inr seg)"
  shows "segPath seg = path" "\<not> segClosed seg" "used seg = length (content d path)"
  using assms by (auto simp: openSegment_def NewSegment_def recoverNextOffset_def used_def Let_def split: option.splits sum.splits prod.splits bind_splits)

lemma disk_log_cong:
  "content d' path = content d path \<Longrightarrow> content d' (getIndexPath path) = content d (getIndexPath path) \<Longrightarrow> disk_log d path ms \<Longrightarrow> disk_log d' path ms"
  by (simp add: disk_log_def openSegment_def)

lemma disk_logI:
  assumes "content d path = enc_msgs ms" "content d (getIndexPath path) = idxFile idx"
    and "list_all wf_msg ms" "idx_ok idx" "index_rep (idxEntries idx) ms" "length (enc_msgs ms) < 2 ^ 63"
  shows "disk_log d path ms"
  unfolding disk_log_def openSegment_def assms(1,2) using NewSegment_rep [OF assms(3-6)] by blast

lemma disk_log_facts:
  assumes "disk_log d path ms"
  shows "content d path = enc_msgs ms" "list_all wf_msg ms" "length (enc_msgs ms) < 2 ^ 63"
proof -
  obtain seg where seg: "openSegment no_open_faults path 1 0 d = Some (Inr seg)" "seg_rep seg ms []"
    using assms zero_less_one unfolding disk_log_def by blast
  then have "segFile seg = content d path"
    by (auto simp: openSegment_def NewSegment_def recoverNextOffset_def Let_def split: option.splits sum.splits prod.splits bind_splits)
  then show "content d path = enc_msgs ms" "list_all wf_msg ms" "length (enc_msgs ms) < 2 ^ 63"
    using seg(2) by (auto simp: seg_rep_def file_rep_def)
qed

text \<open>A log is complete without its index.\<close>

lemma disk_log_without_index:
  assumes "disk_log d path ms" "content d' path = content d path" "content d' (getIndexPath path) = []"
  shows "disk_log d' path ms"
proof -
  note f = disk_log_facts [OF assms(1)]
  let ?idx = "segIndex (fresh_segment path 0)"
  have "idx_ok ?idx" "idxFile ?idx = []" "index_rep (idxEntries ?idx) ms"
    by (simp_all add: fresh_segment_def idx_ok_def index_rep_def)
  then show ?thesis using f assms(2,3) by (intro disk_logI [where idx = ?idx]) simp_all
qed

lemma closed_disk_log:
  assumes "seg_rep seg F P" "content d path = segFile (closed_segment seg)"
    "content d (getIndexPath path) = idxFile (segIndex (closed_segment seg))"
  shows "disk_log d path (F @ P)"
  unfolding disk_log_def openSegment_def assms(2,3) closed_file(1) [OF assms(1)] using closed_file(3) [OF assms(1)] by blast

section \<open>A broker in order\<close>

definition in_order :: "Server \<Rightarrow> bool" where
  "in_order s \<longleftrightarrow> opened s \<and> ddDataDir (svDeduplicator s) = svDataDir s
     \<and> (\<forall>t. plain_topic t \<longrightarrow> ctLeadersPath (svController s) \<notin> log_files s t)"

text \<open>Outside the set \<open>X\<close> every log only grows.\<close>

definition keeps :: "string set \<Rightarrow> Server \<Rightarrow> Server \<Rightarrow> bool" where
  "keeps X s s' \<longleftrightarrow> in_order s' \<and> svDataDir s' = svDataDir s
     \<and> (\<forall>t F P. plain_topic t \<and> t \<notin> X \<and> stored s t F P \<longrightarrow>
          (\<exists>F' P'. stored s' t F' P' \<and> prefix F F' \<and> prefix (F @ P) (F' @ P')))"

text \<open>The weaker promise about the messages on disk.\<close>

definition keeps_flushed :: "string set \<Rightarrow> Server \<Rightarrow> Server \<Rightarrow> bool" where
  "keeps_flushed X s s' \<longleftrightarrow> in_order s' \<and> svDataDir s' = svDataDir s
     \<and> (\<forall>t F P. plain_topic t \<and> t \<notin> X \<and> stored s t F P \<longrightarrow> (\<exists>F' P'. stored s' t F' P' \<and> prefix F F'))"

lemma keeps_refl: "in_order s \<Longrightarrow> keeps X s s"
  by (auto simp: keeps_def)

lemma keeps_same:
  "in_order s' \<Longrightarrow> svDataDir s' = svDataDir s \<Longrightarrow> (\<And>t F P. plain_topic t \<Longrightarrow> t \<notin> X \<Longrightarrow> stored s t F P \<Longrightarrow> stored s' t F P) \<Longrightarrow> keeps X s s'"
  unfolding keeps_def by blast

lemma keepsD:
  assumes "keeps X s s'" "plain_topic t" "t \<notin> X" "stored s t F P"
  obtains F' P' where "stored s' t F' P'" "prefix F F'" "prefix (F @ P) (F' @ P')"
  using assms unfolding keeps_def by blast

lemma keeps_flushedD:
  assumes "keeps_flushed X s s'" "plain_topic t" "t \<notin> X" "stored s t F P"
  obtains F' P' where "stored s' t F' P'" "prefix F F'"
  using assms unfolding keeps_flushed_def by blast

lemma keeps_keeps_flushed: "keeps X s s' \<Longrightarrow> keeps_flushed X s s'"
  unfolding keeps_def keeps_flushed_def by blast

lemma keeps_trans:
  assumes "keeps X s s1" "keeps Y s1 s2" "X \<subseteq> Y"
  shows "keeps Y s s2"
proof -
  have "\<exists>F' P'. stored s2 t F' P' \<and> prefix F F' \<and> prefix (F @ P) (F' @ P')"
    if t: "plain_topic t" "t \<notin> Y" and st: "stored s t F P" for t F P
  proof -
    have "t \<notin> X" using t(2) assms(3) by blast
    then obtain F1 P1 where 1: "stored s1 t F1 P1" "prefix F F1" "prefix (F @ P) (F1 @ P1)" using keepsD [OF assms(1) t(1) _ st] by blast
    obtain F2 P2 where 2: "stored s2 t F2 P2" "prefix F1 F2" "prefix (F1 @ P1) (F2 @ P2)" using keepsD [OF assms(2) t 1(1)] by blast
    show ?thesis using 2(1) prefix_order.trans [OF 1(2) 2(2)] prefix_order.trans [OF 1(3) 2(3)] by blast
  qed
  moreover have "in_order s2" "svDataDir s2 = svDataDir s" using assms(1,2) by (simp_all add: keeps_def)
  ultimately show ?thesis unfolding keeps_def by blast
qed

lemma keeps_flushed_trans:
  assumes "keeps_flushed X s s1" "keeps_flushed Y s1 s2" "X \<subseteq> Y"
  shows "keeps_flushed Y s s2"
proof -
  have "\<exists>F' P'. stored s2 t F' P' \<and> prefix F F'" if t: "plain_topic t" "t \<notin> Y" and st: "stored s t F P" for t F P
  proof -
    have "t \<notin> X" using t(2) assms(3) by blast
    then obtain F1 P1 where 1: "stored s1 t F1 P1" "prefix F F1" using keeps_flushedD [OF assms(1) t(1) _ st] by blast
    obtain F2 P2 where 2: "stored s2 t F2 P2" "prefix F1 F2" using keeps_flushedD [OF assms(2) t 1(1)] by blast
    show ?thesis using 2(1) prefix_order.trans [OF 1(2) 2(2)] by blast
  qed
  moreover have "in_order s2" "svDataDir s2 = svDataDir s" using assms(1,2) by (simp_all add: keeps_flushed_def)
  ultimately show ?thesis unfolding keeps_flushed_def by blast
qed

lemma keeps_mono: "keeps X s s1 \<Longrightarrow> X \<subseteq> Y \<Longrightarrow> keeps Y s s1"
  unfolding keeps_def by blast

lemma log_paths:
  assumes "in_order s"
  obtains pre where "\<forall>t. plain_topic t \<longrightarrow> log_path s t = pre @ t @ ''.log'' \<and> getIndexPath (log_path s t) = pre @ t @ ''.index''"
proof -
  have "svDataDir s \<noteq> []" using assms by (simp add: in_order_def opened_def)
  then show thesis by (rule topic_paths) (use that in blast)
qed

text \<open>Files with another last letter are no logs.\<close>

lemma other_file:
  assumes "in_order s" "plain_topic t" "last path \<noteq> CHR ''g''" "last path \<noteq> CHR ''x''"
  shows "path \<notin> log_files s t"
proof -
  obtain pre where "\<forall>t. plain_topic t \<longrightarrow> log_path s t = pre @ t @ ''.log'' \<and> getIndexPath (log_path s t) = pre @ t @ ''.index''"
    using log_paths [OF assms(1)] by blast
  then have "log_files s t = {pre @ t @ ''.log'', pre @ t @ ''.index''}" using assms(2) by (metis log_files_def)
  then show ?thesis using assms(3,4) by auto
qed

text \<open>Steps that leave the topics and the files of logs alone.\<close>

lemma keeps_files:
  assumes "in_order s" "svTopics s' = svTopics s" "svDataDir s' = svDataDir s" "svOffsetStore s' = svOffsetStore s"
    and "svShutdown s' = svShutdown s" "ddDataDir (svDeduplicator s') = ddDataDir (svDeduplicator s)"
    and "ctLeadersPath (svController s') = ctLeadersPath (svController s)"
    and "\<And>t path. plain_topic t \<Longrightarrow> path \<in> log_files s t \<Longrightarrow> svDisk s' path = svDisk s path"
    and "svFlushInt s' = svFlushInt s"
  shows "keeps {} s s'"
proof -
  have lp: "log_path s' = log_path s" "log_files s' = log_files s" using assms(3) by (simp_all add: log_path_def log_files_def fun_eq_iff)
  have "stored s' t F P" if "plain_topic t" "stored s t F P" for t F P
  proof -
    have "svDisk s' (log_path s t) = svDisk s (log_path s t)"
      "svDisk s' (getIndexPath (log_path s t)) = svDisk s (getIndexPath (log_path s t))"
      using assms(8) [OF that(1)] by (simp_all add: log_files_def)
    then have "disk_log (svDisk s) (log_path s t) F \<Longrightarrow> disk_log (svDisk s') (log_path s t) F"
      using disk_log_cong [of "svDisk s'" "log_path s t" "svDisk s" F] by (simp add: content_def)
    then show ?thesis using that(2) by (simp add: stored_def assms(2) lp split: option.splits)
  qed
  moreover have "in_order s'" using assms(1-7,9) by (simp add: in_order_def opened_def lp)
  ultimately show ?thesis using assms(3) by (intro keeps_same)
qed

lemma keeps_one_file:
  assumes "in_order s" "\<forall>path. path \<noteq> q \<longrightarrow> svDisk s' path = svDisk s path" "\<And>t. plain_topic t \<Longrightarrow> q \<notin> log_files s t"
    and "svTopics s' = svTopics s" "svDataDir s' = svDataDir s" "svOffsetStore s' = svOffsetStore s"
    and "svShutdown s' = svShutdown s" "ddDataDir (svDeduplicator s') = ddDataDir (svDeduplicator s)"
    and "ctLeadersPath (svController s') = ctLeadersPath (svController s)" "svFlushInt s' = svFlushInt s"
  shows "keeps {} s s'"
proof (rule keeps_files [OF assms(1,4-9) _ assms(10)])
  fix t path assume "plain_topic t" "path \<in> log_files s t"
  then have "path \<noteq> q" using assms(3) by blast
  then show "svDisk s' path = svDisk s path" using assms(2) by blast
qed

section \<open>Opening and writing\<close>

lemma keeps_open:
  assumes "in_order s" "plain_topic t" "evOpen ev = no_open_faults" "getOrCreateTopicSegment ev t s = Some (Inr (seg, s1))"
  shows "keeps {} s s1" "map_of (svTopics s1) t = Some seg" "stored s t F P \<Longrightarrow> stored s1 t F P" "used seg = log_size s t" "config s1 = config s"
proof -
  show "config s1 = config s" using getOrCreate_config [OF assms(4)] .
  have "keeps {} s s1 \<and> map_of (svTopics s1) t = Some seg \<and> (stored s t F P \<longrightarrow> stored s1 t F P) \<and> used seg = log_size s t"
  proof (cases "map_of (svTopics s) t")
    case (Some g)
    then show ?thesis using assms(1,4) keeps_refl by (simp add: getOrCreateTopicSegment_def log_size_def)
  next
    case None
    then have seg: "openSegment no_open_faults (log_path s t) (svFlushInt s) (svBatchSize s) (svDisk s) = Some (Inr seg)"
      and s1: "s1 = s\<lparr>svTopics := AList.update t seg (svTopics s)\<rparr>"
      using assms(3,4) by (auto simp: getOrCreateTopicSegment_def split: sum.splits option.splits)
    note f = openSegment_facts [OF seg]
    have lp: "log_path s1 = log_path s" "log_files s1 = log_files s" by (simp_all add: s1 log_path_def log_files_def fun_eq_iff)
    have st: "stored s1 u F P" if "stored s u F P" for u F P
    proof (cases "u = t")
      case True
      then have d: "disk_log (svDisk s) (log_path s t) F" "P = []" using that None by (simp_all add: stored_def)
      moreover have "0 < svFlushInt s" using assms(1) by (simp add: in_order_def opened_def)
      ultimately have "\<exists>seg'. openSegment no_open_faults (log_path s t) (svFlushInt s) (svBatchSize s) (svDisk s) = Some (Inr seg') \<and> seg_rep seg' F []"
        by (simp add: disk_log_def)
      then have "seg_rep seg F P" using seg d(2) by simp
      then show ?thesis using True by (simp add: stored_def s1 update_conv')
    next
      case False
      then show ?thesis using that by (simp add: stored_def s1 update_conv' log_path_def split: option.splits)
    qed
    have "in_order s1" using assms(1,2) f(1,2) distinct_update [of "svTopics s" t seg] set_update_subset [of t seg "svTopics s"]
      unfolding in_order_def opened_def lp by (auto simp: s1)
    then have "keeps {} s s1" using st by (intro keeps_same) (simp_all add: s1)
    then show ?thesis using st f(3) None by (simp add: s1 update_conv' log_size_def)
  qed
  then show "keeps {} s s1" "map_of (svTopics s1) t = Some seg" "stored s t F P \<Longrightarrow> stored s1 t F P" "used seg = log_size s t" by simp_all
qed

lemma stored_opens:
  assumes "stored s t F P" "evOpen ev = no_open_faults" "in_order s"
  obtains seg s1 where "getOrCreateTopicSegment ev t s = Some (Inr (seg, s1))"
proof (cases "map_of (svTopics s) t")
  case None
  then have "\<exists>seg. openSegment no_open_faults (log_path s t) (svFlushInt s) (svBatchSize s) (svDisk s) = Some (Inr seg) \<and> seg_rep seg F []"
    using assms(1,3) by (simp add: stored_def disk_log_def in_order_def opened_def)
  then show thesis using that None assms(2) by (auto simp: getOrCreateTopicSegment_def)
qed (use that in \<open>simp add: getOrCreateTopicSegment_def\<close>)

text \<open>Replacing an open segment by one that has more.\<close>

lemma keeps_set:
  assumes "in_order s" "map_of (svTopics s) t = Some seg" "segPath seg' = segPath seg" "segClosed seg' = segClosed seg"
    and "\<And>F P. seg_rep seg F P \<Longrightarrow> \<exists>F' P'. seg_rep seg' F' P' \<and> prefix F F' \<and> prefix (F @ P) (F' @ P')"
  shows "keeps {} s (setSegment t seg' s)"
proof -
  let ?s = "setSegment t seg' s"
  have lp: "log_path ?s = log_path s" "log_files ?s = log_files s" by (simp_all add: setSegment_def log_path_def log_files_def fun_eq_iff)
  have "\<exists>F' P'. stored ?s u F' P' \<and> prefix F F' \<and> prefix (F @ P) (F' @ P')" if st: "stored s u F P" for u F P
  proof (cases "u = t")
    case True
    then have "seg_rep seg F P" using st assms(2) by (simp add: stored_def)
    then obtain F' P' where "seg_rep seg' F' P'" "prefix F F'" "prefix (F @ P) (F' @ P')" using assms(5) by blast
    then show ?thesis using True by (auto simp: stored_def setSegment_def update_conv')
  next
    case False
    then have "stored ?s u F P" using st by (simp add: stored_def setSegment_def update_conv' log_path_def split: option.splits)
    then show ?thesis by blast
  qed
  moreover have "in_order ?s" using assms(1,3,4) map_of_SomeD [OF assms(2)] distinct_update [of "svTopics s" t seg'] set_update_subset [of t seg' "svTopics s"]
    unfolding in_order_def opened_def lp by (fastforce simp: setSegment_def)
  ultimately show ?thesis by (auto simp: keeps_def setSegment_def)
qed

lemma flush_closed [simp]: "segClosed (snd (flush flt seg)) = segClosed seg"
  by (simp add: flush_def Let_def split: option.split prod.split)

lemma AppendBatch_place: "segPath (snd (AppendBatch flt now k v seg)) = segPath seg" "segClosed (snd (AppendBatch flt now k v seg)) = segClosed seg"
  by (simp_all add: AppendBatch_def Let_def)

lemma keeps_append:
  assumes "in_order s" "map_of (svTopics s) t = Some seg" "wf_msg (now, k, v)" "used seg + length (enc_msg (now, k, v)) < 2 ^ 63"
  shows "keeps {} s (setSegment t (snd (AppendBatch no_faults now k v seg)) s)"
    and "stored s t F P \<Longrightarrow> \<exists>F' P'. stored (setSegment t (snd (AppendBatch no_faults now k v seg)) s) t F' P' \<and> F' @ P' = F @ P @ [(now, k, v)]"
    and "stored s t F P \<Longrightarrow> fst (AppendBatch no_faults now k v seg) = int (length (F @ P))"
proof -
  let ?seg = "snd (AppendBatch no_faults now k v seg)"
  have app: "\<exists>F' P'. seg_rep ?seg F' P' \<and> F' @ P' = F @ P @ [(now, k, v)] \<and> (F' = F \<or> P' = [])" if "seg_rep seg F P" for F P
    using segment.append_rep [OF that assms(3,4)] by simp
  have "\<exists>F' P'. seg_rep ?seg F' P' \<and> prefix F F' \<and> prefix (F @ P) (F' @ P')" if rep: "seg_rep seg F P" for F P
  proof -
    obtain F' P' where r: "seg_rep ?seg F' P'" "F' @ P' = F @ P @ [(now, k, v)]" "F' = F \<or> P' = []" using app [OF rep] by blast
    then have "prefix F F'" "prefix (F @ P) (F' @ P')" by (auto simp: prefix_def)
    with r(1) show ?thesis by blast
  qed
  then show "keeps {} s (setSegment t ?seg s)" by (rule keeps_set [OF assms(1,2) AppendBatch_place])
  { assume "stored s t F P"
    then have rep: "seg_rep seg F P" using assms(2) by (simp add: stored_def)
    obtain F' P' where "seg_rep ?seg F' P'" "F' @ P' = F @ P @ [(now, k, v)]" using app [OF rep] by blast
    then show "\<exists>F' P'. stored (setSegment t ?seg s) t F' P' \<and> F' @ P' = F @ P @ [(now, k, v)]"
      by (intro exI [of _ F'] exI [of _ P']) (simp add: stored_def setSegment_def update_conv')
    show "fst (AppendBatch no_faults now k v seg) = int (length (F @ P))"
      using segment.append_offset [OF rep assms(3,4)] by simp }
qed

lemma keeps_flush:
  assumes "in_order s"
  shows "keeps {} s (flushTick no_faults topic s)"
proof (cases "map_of (svTopics s) topic")
  case (Some seg)
  have "\<exists>F' P'. seg_rep (snd (flush no_faults seg)) F' P' \<and> prefix F F' \<and> prefix (F @ P) (F' @ P')" if "seg_rep seg F P" for F P
    using flush_rep(2) [OF that] by (intro exI [of _ "F @ P"] exI [of _ "[]"]) simp
  then show ?thesis using keeps_set [OF assms Some, of "snd (flush no_faults seg)"] by (simp add: flushTick_def Some)
qed (use assms in \<open>simp add: flushTick_def keeps_refl\<close>)

section \<open>Requests\<close>

definition orderly :: "env \<Rightarrow> bool" where
  "orderly ev \<longleftrightarrow> stores_well ev \<and> evOpen ev = no_open_faults"

text \<open>Names that stay within the directory, where the request uses them for files.\<close>

definition well_named :: "Request \<Rightarrow> bool" where
  "well_named req \<longleftrightarrow> plain_topic (rqTopic req) \<and> (rqType req = ReqOffsetCommit \<longrightarrow> plain (rqGroupID req))
     \<or> rqType req = ReqJoinGroup \<or> rqType req = ReqSyncGroup"

definition log_room :: "env \<Rightarrow> Request \<Rightarrow> Server \<Rightarrow> bool" where
  "log_room ev req s \<longleftrightarrow> log_size s (rqTopic req) + length (enc_msg (evStamp ev, rqKey req, rqValue req)) < 2 ^ 63"

lemma keeps_upd:
  assumes "in_order s" "svTopics s' = svTopics s" "config s' = config s" "svDeduplicator s' = svDeduplicator s" "svDisk s' = svDisk s"
  shows "keeps {} s s'"
  using assms by (intro keeps_files) (simp_all add: config_def)

lemma stored_upd: "svTopics s' = svTopics s \<Longrightarrow> svDataDir s' = svDataDir s \<Longrightarrow> svDisk s' = svDisk s \<Longrightarrow> stored s' t F P = stored s t F P"
  by (simp add: stored_def log_path_def cong: option.case_cong)

lemma recordProduced_files:
  "svDisk (recordProduced ev req off s) = svDisk s" "svDeduplicator (recordProduced ev req off s) = svDeduplicator s"
  by (simp_all add: recordProduced_def)

lemmas produced_frames = recordProduced_frame recordProduced_files

text \<open>A produce request on an open segment: nothing, or one message more.\<close>

lemma produce_keeps:
  assumes "in_order s" "map_of (svTopics s) (rqTopic req) = Some seg" "orderly ev" "wf_request req"
    and "used seg + length (enc_msg (evStamp ev, rqKey req, rqValue req)) < 2 ^ 63" "handleProduceRequest ev req seg s = Some (resp, s')"
  shows "keeps {} s s'"
  using assms(6)
proof (rule handleProduceRequest_cases)
  assume "s' = s"
  then show ?thesis using assms(1) keeps_refl by simp
next
  fix off seg' assume a: "AppendBatch (evFlush ev) (evStamp ev) (rqKey req) (rqValue req) seg = (off, seg')"
    and s': "acknowledge ev req off seg' (recordProduced ev req off (setSegment (rqTopic req) seg' s)) = Some (resp, s')"
  have m: "wf_msg (evStamp ev, rqKey req, rqValue req)" "evFlush ev = no_faults"
    using assms(3,4) by (auto simp: orderly_def stores_well_def wf_request_def)
  have k: "keeps {} s (setSegment (rqTopic req) seg' s)" using keeps_append(1) [OF assms(1,2) m(1) assms(5)] a m(2) by simp
  then have "keeps {} (setSegment (rqTopic req) seg' s) s'"
    by (intro keeps_upd) (simp_all add: acknowledge_frame [OF s'] produced_frames keeps_def)
  with k show ?thesis by (rule keeps_trans) simp
qed

lemma consume_keeps: "in_order s \<Longrightarrow> handleConsumeRequest ev req seg s = Some (resp, s') \<Longrightarrow> keeps {} s s'"
  by (erule consume_cases, rule keeps_upd) auto

lemma offset_path_other:
  assumes "in_order s" "plain_topic u" "plain g" "CHR ''/'' \<notin> set t"
  shows "getFilePath (svOffsetStore s) g t p \<notin> log_files s u" "processed_path (svDeduplicator s) g \<notin> log_files s u"
proof -
  have s: "svDataDir s \<noteq> []" "svOffsetStore s = \<lparr>osBaseDir = svDataDir s\<rparr>" "ddDataDir (svDeduplicator s) = svDataDir s"
    using assms(1) by (simp_all add: in_order_def opened_def)
  show "getFilePath (svOffsetStore s) g t p \<notin> log_files s u"
    using offset_path_is_no_log [OF s(1) _ assms(2), of g t p] assms(3,4) s(2) by (simp add: plain_key_def)
  obtain pre where "\<forall>e. plain e \<longrightarrow> Join [svDataDir s, e] = pre @ e" using s(1) by (rule Join_dir)
  moreover have "plain (''processed_'' @ g @ ''.json'')" using assms(3) by (simp add: plain_def)
  ultimately have "last (processed_path (svDeduplicator s) g) = CHR ''n''" by (simp add: processed_path_def s(3))
  then show "processed_path (svDeduplicator s) g \<notin> log_files s u" by (intro other_file [OF assms(1,2)]) simp_all
qed

lemma failed_commit_keeps:
  assumes "in_order s" "orderly ev" "plain_topic (rqTopic req)" "handleFailedCommit ev req s = Some s'"
  shows "keeps {} s s'"
proof (cases "\<exists>seg s1. getOrCreateTopicSegment ev (rqTopic req) s = Some (Inr (seg, s1))")
  case True
  then obtain seg s1 where g: "getOrCreateTopicSegment ev (rqTopic req) s = Some (Inr (seg, s1))" by blast
  have k: "keeps {} s s1" using keeps_open(1) [OF assms(1,3) _ g] assms(2) by (simp add: orderly_def)
  then have "keeps {} s1 s'"
    using assms(4) by (intro keeps_upd) (auto simp: handleFailedCommit_def g keeps_def split: prod.splits list.splits)
  with k show ?thesis by (rule keeps_trans) simp
next
  case False
  then have "s' = s" using assms(4) by (auto simp: handleFailedCommit_def split: option.splits sum.splits)
  then show ?thesis using assms(1) keeps_refl by simp
qed

lemma mark_keeps:
  assumes "in_order s" "plain g" "MarkProcessed wr g ids (svDeduplicator s, svDisk s) = (dd, d)"
  shows "keeps {} s (s\<lparr>svDeduplicator := dd, svDisk := d\<rparr>)"
proof (rule keeps_one_file [OF assms(1)])
  show "\<forall>path. path \<noteq> processed_path (svDeduplicator s) g \<longrightarrow> svDisk (s\<lparr>svDeduplicator := dd, svDisk := d\<rparr>) path = svDisk s path"
    "ddDataDir (svDeduplicator (s\<lparr>svDeduplicator := dd, svDisk := d\<rparr>)) = ddDataDir (svDeduplicator s)"
    using assms(3) by (auto simp: MarkProcessed_def Save_def Let_def split: if_splits)
  show "processed_path (svDeduplicator s) g \<notin> log_files s t" if "plain_topic t" for t
    using offset_path_other(2) [OF assms(1) that assms(2), of "[]"] by simp
qed simp_all

lemma commit_keeps:
  assumes "in_order s" "plain g" "CHR ''/'' \<notin> set t" "CommitOffset flt (svOffsetStore s) g t p off (svDisk s) = (e, d)"
  shows "keeps {} s (s\<lparr>svDisk := d\<rparr>)"
proof (rule keeps_one_file [OF assms(1)])
  show "\<forall>path. path \<noteq> getFilePath (svOffsetStore s) g t p \<longrightarrow> svDisk (s\<lparr>svDisk := d\<rparr>) path = svDisk s path"
    using assms(4) by (auto simp: CommitOffset_def Let_def split: option.splits)
  show "getFilePath (svOffsetStore s) g t p \<notin> log_files s u" if "plain_topic u" for u
    using offset_path_other(1) [OF assms(1) that assms(2,3)] .
qed simp_all

lemma offset_request_keeps:
  assumes "in_order s" "orderly ev" "plain_topic (rqTopic req)" "rqType req = ReqOffsetCommit \<Longrightarrow> plain (rqGroupID req)"
    and "processOffsetRequest ev req s = Some (resp, s')"
  shows "keeps {} s s'"
proof (cases "rqType req = ReqOffsetCommit")
  case False
  then have "s' = s" using assms(5) by (auto simp: processOffsetRequest_def split: prod.splits option.splits)
  then show ?thesis using assms(1) keeps_refl by simp
next
  case True
  have g: "plain (rqGroupID req)" "CHR ''/'' \<notin> set (rqTopic req)" using assms(3,4) True by (simp_all add: plain_topic_def)
  obtain s1 where s1: "(if \<not> rqSuccess req then handleFailedCommit ev req s else Some s) = Some s1"
    using assms(5) True by (auto simp: processOffsetRequest_def split: bind_splits)
  have k1: "keeps {} s s1" using s1 failed_commit_keeps [OF assms(1-3)] keeps_refl [OF assms(1)] by (auto split: if_splits)
  define s2 where "s2 = (case rqProcessedIDs req of None \<Rightarrow> s1
     | Some ids \<Rightarrow> (case MarkProcessed (evSave ev) (rqGroupID req) ids (svDeduplicator s1, svDisk s1) of (dd, d) \<Rightarrow> s1\<lparr>svDeduplicator := dd, svDisk := d\<rparr>))"
  have o1: "in_order s1" using k1 by (simp add: keeps_def)
  then have k2: "keeps {} s1 s2" using mark_keeps [OF o1 g(1)] by (auto simp: s2_def keeps_refl split: option.split prod.split)
  then have o2: "in_order s2" by (simp add: keeps_def)
  obtain e d where c: "CommitOffset (evCommit ev) (svOffsetStore s2) (rqGroupID req) (rqTopic req) (rqPartition req) (rqOffset req) (svDisk s2) = (e, d)"
    by fastforce
  have "s' = s2\<lparr>svDisk := d\<rparr>"
    using assms(5) True c by (cases e) (simp_all add: processOffsetRequest_def s1 Let_def flip: s2_def)
  then have "keeps {} s2 s'" using commit_keeps [OF o2 g c] by simp
  then show ?thesis using k1 k2 keeps_trans by blast
qed

text \<open>Produce, consume and unknown requests, which open their topic.\<close>

lemma topic_request_keeps:
  assumes "in_order s" "orderly ev" "wf_request req" "plain_topic (rqTopic req)" "log_room ev req s" "processRequest ev req role s = Some (resp, s')"
    and "\<not> (rqType req = ReqOffsetCommit \<or> rqType req = ReqOffsetFetch)"
    and "\<not> (rqType req = ReqJoinGroup \<or> rqType req = ReqSyncGroup)" "rqType req \<noteq> ReqRegisterSchema"
  shows "keeps {} s s'"
proof (cases "isLeaderFor (rqTopic req) s \<and> (\<exists>x. getOrCreateTopicSegment ev (rqTopic req) s = Some (Inr x))")
  case True
  then obtain seg s1 where g: "getOrCreateTopicSegment ev (rqTopic req) s = Some (Inr (seg, s1))" and lead: "isLeaderFor (rqTopic req) s" by auto
  have "evOpen ev = no_open_faults" using assms(2) by (simp add: orderly_def)
  note o = keeps_open [OF assms(1,4) this g]
  have o1: "in_order s1" using o(1) by (simp add: keeps_def)
  have size: "used seg + length (enc_msg (evStamp ev, rqKey req, rqValue req)) < 2 ^ 63" using assms(5) o(4) by (simp add: log_room_def)
  have "keeps {} s1 s'" using assms(6-9) lead g keeps_refl [OF o1]
    by (auto simp: processRequest_def split: if_splits
        dest: produce_keeps [OF o1 o(2) assms(2,3) size] consume_keeps [OF o1])
  with o(1) show ?thesis by (rule keeps_trans) simp
next
  case False
  then have "s' = s" using assms(6-9) by (auto simp: processRequest_def split: if_splits sum.splits option.splits)
  then show ?thesis using keeps_refl [OF assms(1)] by simp
qed

lemma request_keeps:
  assumes "in_order s" "orderly ev" "wf_request req" "well_named req" "log_room ev req s" "processRequest ev req role s = Some (resp, s')"
  shows "keeps {} s s'"
proof -
  consider (offset) "rqType req = ReqOffsetCommit \<or> rqType req = ReqOffsetFetch"
    | (members) "rqType req = ReqJoinGroup \<or> rqType req = ReqSyncGroup"
    | (schema) "rqType req = ReqRegisterSchema"
    | (topic) "\<not> (rqType req = ReqOffsetCommit \<or> rqType req = ReqOffsetFetch)"
        "\<not> (rqType req = ReqJoinGroup \<or> rqType req = ReqSyncGroup)" "rqType req \<noteq> ReqRegisterSchema" by blast
  then show ?thesis
  proof cases
    case offset
    then have "plain_topic (rqTopic req)" "rqType req = ReqOffsetCommit \<Longrightarrow> plain (rqGroupID req)"
      using assms(4) by (auto simp: well_named_def Req_defs)
    then show ?thesis using offset_request_keeps [OF assms(1,2)] offset assms(6) by (simp add: processRequest_def)
  next
    case members
    then have "processGroupRequest req s = Some (resp, s')" using assms(6) by (auto simp: processRequest_def Req_defs)
    then show ?thesis by (intro keeps_upd [OF assms(1)]) (auto simp: processGroupRequest_def split: if_splits)
  next
    case schema
    then show ?thesis using assms(6)
      by (intro keeps_upd [OF assms(1)]) (auto simp: processRequest_def Req_defs split: prod.splits option.splits)
  next
    case topic
    then have t: "plain_topic (rqTopic req)" using assms(4) by (simp add: well_named_def)
    then show ?thesis using topic_request_keeps [OF assms(1-3) _ assms(5)] topic assms(6) by blast
  qed
qed

lemma follower_keeps:
  assumes "in_order s" "orderly ev" "wf_request req" "plain_topic (rqTopic req)" "log_room ev req s" "followerAppend ev req s = Some (resp, s')"
  shows "keeps {} s s'"
proof (cases "\<exists>seg s1. getOrCreateTopicSegment ev (rqTopic req) s = Some (Inr (seg, s1))")
  case True
  then obtain seg s1 where g: "getOrCreateTopicSegment ev (rqTopic req) s = Some (Inr (seg, s1))" by blast
  have ev: "evOpen ev = no_open_faults" "evFlush ev = no_faults" "wf_msg (evStamp ev, rqKey req, rqValue req)"
    using assms(2,3) by (auto simp: orderly_def stores_well_def wf_request_def)
  note o = keeps_open [OF assms(1,4) ev(1) g]
  have o1: "in_order s1" using o(1) by (simp add: keeps_def)
  have "used seg + length (enc_msg (evStamp ev, rqKey req, rqValue req)) < 2 ^ 63" using assms(5) o(4) by (simp add: log_room_def)
  note a = keeps_append(1) [OF o1 o(2) ev(3) this]
  have "s' = setSegment (rqTopic req) (snd (AppendBatch no_faults (evStamp ev) (rqKey req) (rqValue req) seg)) s1"
    using assms(6) by (simp add: followerAppend_def g ev(2) split: prod.splits)
  with o(1) a show ?thesis by (auto intro: keeps_trans)
next
  case False
  then have "s' = s" using assms(6) by (auto simp: followerAppend_def split: option.splits sum.splits)
  then show ?thesis using assms(1) keeps_refl by simp
qed

section \<open>The controller's file\<close>

definition only_leaders_file :: "Controller \<times> disk \<Rightarrow> Controller \<times> disk \<Rightarrow> bool" where
  "only_leaders_file x y \<longleftrightarrow> ctLeadersPath (fst y) = ctLeadersPath (fst x)
     \<and> (\<forall>path. path \<noteq> ctLeadersPath (fst x) \<longrightarrow> snd y path = snd x path)"

lemma only_leaders_refl: "only_leaders_file x x"
  by (simp add: only_leaders_file_def)

lemma only_leaders_trans: "only_leaders_file x y \<Longrightarrow> only_leaders_file y z \<Longrightarrow> only_leaders_file x z"
  by (simp add: only_leaders_file_def)

lemma set_and_save: "setLeader k l c = Some c' \<Longrightarrow> only_leaders_file (c, d) (c', saveLeaders flt c' d)"
  by (auto simp: setLeader_def only_leaders_file_def saveLeaders_def Let_def)

lemma setLeader_path: "setLeader k l c = Some c' \<Longrightarrow> ctLeadersPath c' = ctLeadersPath c"
  by (auto simp: setLeader_def)

lemma loadLeaders_only_file: "loadLeaders opn flt x = Some y \<Longrightarrow> only_leaders_file x y"
  by (auto simp: loadLeaders_def only_leaders_file_def saveLeaders_def Let_def dest!: setLeader_path
      split: prod.splits option.splits if_splits bind_splits)

lemma executeFailover_file:
  assumes "executeFailover opn flt now k active x = Some y"
  shows "only_leaders_file x y"
proof (cases "lowestActive now (ctBrokerID (fst x)) active = ctBrokerID (fst x)")
  case True
  then obtain z where z: "loadLeaders opn flt x = Some z" using assms by (auto simp: executeFailover_def split: prod.splits bind_splits)
  have "only_leaders_file z y" using assms True z
    by (auto simp: executeFailover_def Let_def only_leaders_refl intro: set_and_save split: prod.splits bind_splits if_splits)
  with loadLeaders_only_file [OF z] show ?thesis by (rule only_leaders_trans)
qed (use assms in \<open>auto simp: executeFailover_def only_leaders_refl split: prod.splits\<close>)

lemma checkFailover_file:
  assumes "checkFailover opn flt now x = Some y"
  shows "only_leaders_file x y"
proof -
  let ?b = "ctBrokerID (fst x)" and ?act = "AList.update (ctBrokerID (fst x)) now (ctActiveNodes (fst x))"
  let ?f = "\<lambda>acc (k, l). if l = ?b then acc else if \<not> alive now ?act l then Option.bind acc (executeFailover opn flt now k ?act) else acc"
  have "foldl ?f r kls = Some y \<Longrightarrow> \<exists>z. r = Some z \<and> only_leaders_file z y" for r kls
  proof (induction kls arbitrary: r)
    case (Cons kl kls)
    obtain k l where kl: "kl = (k, l)" by (cases kl)
    obtain z where z: "?f r (k, l) = Some z" "only_leaders_file z y" using Cons.IH [of "?f r (k, l)"] Cons.prems by (auto simp: kl)
    then show ?case by (cases z) (auto split: if_splits bind_splits intro: only_leaders_trans dest: executeFailover_file)
  qed (simp add: only_leaders_refl)
  then show ?thesis using assms by (force simp: checkFailover_def Let_def)
qed

lemma checkLoad_file:
  assumes "checkLoad opn flt produced rb x = Some y"
  shows "only_leaders_file x y"
proof (cases "produced > rbThreshold rb")
  case True
  then obtain z where z: "loadLeaders opn flt x = Some z" using assms by (auto simp: checkLoad_def MovePartition_def split: bind_splits)
  have "only_leaders_file z y" using assms True z
    by (auto simp: checkLoad_def MovePartition_def only_leaders_refl intro: set_and_save split: prod.splits bind_splits if_splits)
  with loadLeaders_only_file [OF z] show ?thesis by (rule only_leaders_trans)
qed (use assms in \<open>simp add: checkLoad_def only_leaders_refl\<close>)

lemma controller_keeps:
  assumes "in_order s" "only_leaders_file (svController s, svDisk s) (c, d)"
  shows "keeps {} s (s\<lparr>svController := c, svDisk := d\<rparr>)"
  using assms
  by (intro keeps_one_file [OF assms(1), where q = "ctLeadersPath (svController s)"]) (simp_all add: only_leaders_file_def in_order_def)

section \<open>Retention passes and restarts\<close>

lemma deleteTopicLog_frame:
  "deleteTopicLog flt u s = Some s' \<Longrightarrow> config s' = config s \<and> svDeduplicator s' = svDeduplicator s"
  by (auto simp: deleteTopicLog_def split: option.splits)

lemma pass_frame: "pass now rm fs s = Some s' \<Longrightarrow> config s' = config s \<and> svDeduplicator s' = svDeduplicator s"
proof (induction fs arbitrary: s)
  case (Cons f fs)
  then show ?case by (auto simp: pass_Cons retainFile_cases dest!: deleteTopicLog_frame split: bind_splits if_splits)
qed (simp add: pass_def)

lemma retention_keeps:
  assumes "in_order s" "\<forall>f \<in> set fs. log_entry f \<longrightarrow> plain_topic (entry_topic f)"
    and "processRetention no_faults now rm (Some fs) s = Some s'"
  shows "keeps (expired_topics now rm fs) s s'"
proof -
  have op: "opened s" using assms(1) by (simp add: in_order_def)
  have run: "pass now rm fs s = Some s'" using assms(3) by (simp add: processRetention_def pass_def)
  then have ret: "retained (expired_topics now rm fs) s s'" using pass_retained [OF op assms(2), of now rm] by auto
  have "stored s' t F P" if t: "plain_topic t" "t \<notin> expired_topics now rm fs" and st: "stored s t F P" for t F P
  proof (cases "map_of (svTopics s) t")
    case None
    then have d: "disk_log (svDisk s) (log_path s t) F" "P = []" using st by (simp_all add: stored_def)
    have log: "content (svDisk s') (log_path s t) = content (svDisk s) (log_path s t)" and "index_kept s s' t"
      using ret t by (simp_all add: retained_def content_def)
    then have "content (svDisk s') (getIndexPath (log_path s t)) = []
        \<or> content (svDisk s') (getIndexPath (log_path s t)) = content (svDisk s) (getIndexPath (log_path s t))"
      by (auto simp: index_kept_def content_def)
    then have "disk_log (svDisk s') (log_path s t) F"
      using disk_log_without_index [OF d(1) log] disk_log_cong [OF log _ d(1)] by blast
    then show ?thesis using None ret t d(2) by (simp add: stored_def retained_def log_path_def)
  qed (use ret t st in \<open>simp add: stored_def retained_def\<close>)
  moreover have "in_order s'" using pass_frame [OF run] ret assms(1)
    by (auto simp: in_order_def retained_def config_def log_files_def log_path_def)
  ultimately show ?thesis using ret by (intro keeps_same) (simp_all add: retained_def)
qed

text \<open>Compaction passes: every log that is not one of a compacted topic or disturbed by it is as it was.\<close>

lemma compaction_keeps:
  assumes "in_order s" "orderly ev" "processCompaction ev n s = Some s'"
  shows "keeps (\<Union>t \<in> set (topicsToCompact n s). disturbed t) s s'"
proof -
  let ?X = "set (topicsToCompact n s)"
  have op: "opened s" using assms(1) by (simp add: in_order_def)
  have ev: "evOpen ev = no_open_faults" "evFlush ev = no_faults" using assms(2) by (simp_all add: orderly_def stores_well_def)
  have c: "compacted ?X s s'" using compaction_pass_frame [OF op ev, of n] assms(3) by simp
  have plain: "\<forall>t \<in> ?X. plain_topic t" using op by (auto simp: topicsToCompact_def opened_def)
  obtain ts d where s': "s' = s\<lparr>svTopics := ts, svDisk := d\<rparr>" and op': "opened s'" using c by (auto simp: compacted_def)
  then have lp: "log_path s' = log_path s" "log_files s' = log_files s" by (simp_all add: log_path_def log_files_def fun_eq_iff)
  have "stored s' t F P" if t: "plain_topic t" "t \<notin> (\<Union>t \<in> ?X. disturbed t)" and st: "stored s t F P" for t F P
  proof -
    note f = compacted_log_files [OF c plain t]
    have "svDisk s' (log_path s t) = svDisk s (log_path s t)" "svDisk s' (getIndexPath (log_path s t)) = svDisk s (getIndexPath (log_path s t))"
      using f(2) by (simp_all add: log_files_def)
    then have "disk_log (svDisk s) (log_path s t) F \<Longrightarrow> disk_log (svDisk s') (log_path s t) F"
      using disk_log_cong [of "svDisk s'" "log_path s t" "svDisk s" F] by (simp add: content_def)
    then show ?thesis using st by (simp add: stored_def f(1) lp split: option.splits)
  qed
  moreover have "in_order s'" using assms(1) op' by (simp add: in_order_def lp) (simp add: s')
  ultimately show ?thesis by (intro keeps_same) (simp_all add: s')
qed

text \<open>A start on the directory that a broker left, whatever the outcome of reading the leaders file and whatever the flags, with a
  positive flush interval.\<close>

definition starts_on :: "disk \<Rightarrow> string \<Rightarrow> Server \<Rightarrow> bool" where
  "starts_on d dir s' \<longleftrightarrow> (\<exists>s2 shared ident acks fi bs ri rt opn flt. 0 < fi
     \<and> NewServer None None shared ident dir acks fi bs ri rt d = Inr s2
     \<and> ServerStart opn flt None s2 = Some (None, s'))"

text \<open>After a shutdown, and after the process was killed between two of its steps: then the open segments are as they were written,
  without their batches.\<close>

definition restarts :: "Server \<Rightarrow> Server \<Rightarrow> bool" where
  "restarts s s' \<longleftrightarrow> (\<exists>s1. shutdownBroker no_faults s = Some s1 \<and> starts_on (disk_view s1) (svDataDir s) s')"

definition killed :: "Server \<Rightarrow> Server \<Rightarrow> bool" where
  "killed s s' \<longleftrightarrow> starts_on (disk_view s) (svDataDir s) s'"

lemma new_server_in_order:
  assumes "NewServer None None shared ident dir acks fi bs ri rt d = Inr s" "dir \<noteq> []" "0 < fi"
  shows "in_order s" "svTopics s = []" "svDisk s = d" "svDataDir s = dir"
proof -
  have s: "svTopics s = [] \<and> svDisk s = d \<and> svDataDir s = dir \<and> svController s = NewController shared ident dir
      \<and> svOffsetStore s = \<lparr>osBaseDir = dir\<rparr> \<and> \<not> svShutdown s \<and> ddDataDir (svDeduplicator s) = dir
      \<and> svFlushInt s = fi"
    using assms(1) by (auto simp: NewServer_def NewOffsetStore_def NewDeduplicator_def)
  then show "svTopics s = []" "svDisk s = d" "svDataDir s = dir" by simp_all
  have op: "opened s" using s assms(2,3) by (simp add: opened_def)
  obtain pre where pre: "\<forall>t. plain_topic t \<longrightarrow> log_path s t = pre @ t @ ''.log'' \<and> getIndexPath (log_path s t) = pre @ t @ ''.index''"
    using topic_paths [of s] s assms(2) by metis
  have json: "plain ''leaders.json''" "plain ''metadata''" by (simp_all add: plain_def)
  obtain pd where "\<forall>e. plain e \<longrightarrow> Join [dir, e] = pd @ e" using assms(2) by (rule Join_dir)
  then have "Join [dir, ''metadata''] \<noteq> []" using json(2) by simp
  then have "(if shared then ''/data/metadata'' else Join [dir, ''metadata'']) \<noteq> []" by simp
  then obtain pm where "\<forall>e. plain e \<longrightarrow> Join [if shared then ''/data/metadata'' else Join [dir, ''metadata''], e] = pm @ e" by (rule Join_dir)
  then have "ctLeadersPath (svController s) = pm @ ''leaders.json''" using s json(1) by (simp add: NewController_def Let_def)
  then have "last (ctLeadersPath (svController s)) = CHR ''n''" by simp
  then have "ctLeadersPath (svController s) \<notin> log_files s t" if "plain_topic t" for t
    using pre that by (auto simp: log_files_def)
  then show "in_order s" using op s by (simp add: in_order_def)
qed

lemma started:
  assumes "starts_on d dir s'" "dir \<noteq> []"
  obtains s2 where "in_order s2" "svTopics s2 = []" "svDisk s2 = d" "svDataDir s2 = dir" "keeps {} s2 s'"
proof -
  obtain s2 shared ident acks fi bs ri rt opn flt where new: "NewServer None None shared ident dir acks fi bs ri rt d = Inr s2"
    and start: "ServerStart opn flt None s2 = Some (None, s')" and fi: "0 < fi"
    using assms(1) by (auto simp: starts_on_def)
  note s2 = new_server_in_order [OF new assms(2) fi]
  obtain c d' where cd: "loadLeaders opn flt (svController s2, svDisk s2) = Some (c, d')" "s' = s2\<lparr>svController := c, svDisk := d'\<rparr>"
    using start by (auto simp: ServerStart_def ControllerStart_def RebalancerStart_def split: bind_splits)
  then have "keeps {} s2 s'" using controller_keeps [OF s2(1)] loadLeaders_only_file by simp
  with s2 show thesis by (rule that)
qed

text \<open>After a shutdown the files hold every log, and after a kill what was flushed of it.\<close>

lemma shutdown_keeps_logs:
  assumes "opened s" "shutdownBroker no_faults s = Some s1" "plain_topic t" "stored s t F P"
  shows "disk_log (disk_view s1) (log_path s t) (F @ P)"
proof -
  note s1 = closed_placed [OF assms(1) assms(2) [unfolded shutdownBroker_def]]
  show ?thesis
  proof (cases "map_of (svTopics s) t")
    case (Some seg)
    then have "map_of (svTopics s1) t = Some (closed_segment seg)" using s1(4) by simp
    from disk_view_open [OF s1(1) this] show ?thesis
      using assms(4) Some by (intro closed_disk_log [of seg]) (simp_all add: content_def s1(2) stored_def)
  next
    case None
    then have none: "map_of (svTopics s1) t = None" using s1(4) by simp
    have "disk_view s1 path = svDisk s path" if "path \<in> log_files s1 t" for path
      using disk_view_unopened [OF s1(1) assms(3) none that] s1(3) by simp
    moreover have "disk_log (svDisk s) (log_path s t) (F @ P)" using assms(4) None by (simp add: stored_def)
    ultimately show ?thesis by (auto simp: log_files_def s1(2) content_def intro: disk_log_cong [rotated 2])
  qed
qed

lemma kill_keeps_flushed:
  assumes "opened s" "plain_topic t" "stored s t F P"
  shows "disk_log (disk_view s) (log_path s t) F"
proof (cases "map_of (svTopics s) t")
  case (Some seg)
  then have rep: "seg_rep seg F P" using assms(3) by (simp add: stored_def)
  note files = disk_view_open [OF opened_placed [OF assms(1)] Some]
  have r: "segFile seg = enc_msgs F" "list_all wf_msg F" "idx_ok (segIndex seg)" "index_rep (idxEntries (segIndex seg)) F"
    "length (segFile seg) + length (segBatch seg) < 2 ^ 63"
    using rep unfolding seg_rep_def file_rep_def by blast+
  then have "length (enc_msgs F) < 2 ^ 63" using add_lessD1 by metis
  then show ?thesis using files r(1-4) by (intro disk_logI [where idx = "segIndex seg"]) (simp_all add: content_def)
next
  case None
  have "disk_view s path = svDisk s path" if "path \<in> log_files s t" for path
    by (rule disk_view_unopened [OF opened_placed [OF assms(1)] assms(2) None that])
  moreover have "disk_log (svDisk s) (log_path s t) F" using assms(3) None by (simp add: stored_def)
  ultimately show ?thesis by (auto simp: log_files_def content_def intro: disk_log_cong [rotated 2])
qed

lemma restart_keeps:
  assumes "in_order s" "restarts s s'"
  shows "keeps {} s s'"
proof -
  obtain s1 where down: "shutdownBroker no_faults s = Some s1" and on: "starts_on (disk_view s1) (svDataDir s) s'"
    using assms(2) by (auto simp: restarts_def)
  have op: "opened s" and dir: "svDataDir s \<noteq> []" using assms(1) by (simp_all add: in_order_def opened_def)
  obtain s2 where s2: "in_order s2" "svTopics s2 = []" "svDisk s2 = disk_view s1" "svDataDir s2 = svDataDir s" "keeps {} s2 s'"
    by (rule started [OF on dir])
  have "stored s2 t (F @ P) []" if "plain_topic t" "stored s t F P" for t F P
    using shutdown_keeps_logs [OF op down that] s2(2-4) by (simp add: stored_def log_path_def)
  then have "\<exists>F' P'. stored s2 t F' P' \<and> prefix F F' \<and> prefix (F @ P) (F' @ P')" if "plain_topic t" "stored s t F P" for t F P
    using that by (intro exI [of _ "F @ P"] exI [of _ "[]"]) simp
  then have "keeps {} s s2" using s2(1,4) by (simp add: keeps_def)
  then show ?thesis using s2(5) by (rule keeps_trans) simp
qed

lemma kill_keeps:
  assumes "in_order s" "killed s s'"
  shows "keeps_flushed {} s s'"
proof -
  have op: "opened s" and dir: "svDataDir s \<noteq> []" using assms(1) by (simp_all add: in_order_def opened_def)
  obtain s2 where s2: "in_order s2" "svTopics s2 = []" "svDisk s2 = disk_view s" "svDataDir s2 = svDataDir s" "keeps {} s2 s'"
    by (rule started [OF assms(2) [unfolded killed_def] dir])
  have "stored s2 t F []" if "plain_topic t" "stored s t F P" for t F P
    using kill_keeps_flushed [OF op that] s2(2-4) by (simp add: stored_def log_path_def)
  then have "keeps_flushed {} s s2" using s2(1,4) unfolding keeps_flushed_def by blast
  then show ?thesis using keeps_keeps_flushed [OF s2(5)] by (rule keeps_flushed_trans) simp
qed

lemma health_keeps:
  assumes "in_order s"
  shows "keeps {} s (snd (healthHandler stopping opn wr (svDataDir s) s))"
proof -
  let ?q = "Join [svDataDir s, ''.healthcheck'']"
  have "svDataDir s \<noteq> []" using assms by (simp add: in_order_def opened_def)
  then obtain pre where "\<forall>e. plain e \<longrightarrow> Join [svDataDir s, e] = pre @ e" by (rule Join_dir)
  moreover have "plain ''.healthcheck''" by (simp add: plain_def)
  ultimately have "?q = pre @ ''.healthcheck''" by blast
  then have q: "?q \<notin> log_files s t" if "plain_topic t" for t using other_file [OF assms that, of ?q] by simp
  obtain b d where c: "checkWritable opn wr (svDataDir s) (svDisk s) = (b, d)" by fastforce
  then have d: "\<forall>path. path \<noteq> ?q \<longrightarrow> d path = svDisk s path"
    by (auto simp: checkWritable_def Let_def os_remove_def split: if_splits option.splits)
  have "snd (healthHandler stopping opn wr (svDataDir s) s) = (if stopping then s else s\<lparr>svDisk := d\<rparr>)"
    by (simp add: healthHandler_def c Let_def split: bool.split)
  moreover have "keeps {} s (s\<lparr>svDisk := d\<rparr>)" by (rule keeps_one_file [OF assms _ q]) (use d in simp_all)
  ultimately show ?thesis using keeps_refl [OF assms] by simp
qed

section \<open>The life of a broker\<close>

text \<open>The state is the server with the topics that retention passes have deleted and compaction passes have rewritten or disturbed
  so far.\<close>

inductive life_step :: "Server \<times> string set \<Rightarrow> Server \<times> string set \<Rightarrow> bool" where
  request: "life_step (s, X) (s', X)"
    if "orderly ev" "wf_request req" "well_named req" "log_room ev req s" "processRequest ev req role s = Some (resp, s')"
| replicated: "life_step (s, X) (s', X)"
    if "orderly ev" "wf_request req" "plain_topic (rqTopic req)" "log_room ev req s" "followerAppend ev req s = Some (resp, s')"
| tick: "life_step (s, X) (flushTick no_faults topic s, X)"
| join: "life_step (s, X) (s\<lparr>svRepManager := RegisterReplica ident conn (svRepManager s)\<rparr>, X)"
| heartbeat: "life_step (s, X) (s\<lparr>svController := receiveHeartbeat now msg (svController s)\<rparr>, X)"
| failover: "life_step (s, X) (s\<lparr>svController := c, svDisk := d\<rparr>, X)"
    if "checkFailover opn flt now (svController s, svDisk s) = Some (c, d)"
| rebalance: "life_step (s, X) (s', X)" if "rebalanceTick opn flt s = Some s'"
| health: "life_step (s, X) (snd (healthHandler stopping hopn wr (svDataDir s) s), X)"
| retention: "life_step (s, X) (s', X \<union> expired_topics now rm fs)"
    if "\<forall>f \<in> set fs. log_entry f \<longrightarrow> plain_topic (entry_topic f)" "processRetention no_faults now rm (Some fs) s = Some s'"
| compaction: "life_step (s, X) (s', X \<union> (\<Union>t \<in> set (topicsToCompact n s). disturbed t))"
    if "orderly ev" "processCompaction ev n s = Some s'"
| restart: "life_step (s, X) (s', X)" if "restarts s s'"

lemma life_step_keeps: "life_step x y \<Longrightarrow> in_order (fst x) \<Longrightarrow> keeps (snd y) (fst x) (fst y) \<and> snd x \<subseteq> snd y"
proof (induction rule: life_step.induct)
  case (request ev req s role resp s' X)
  then show ?case using request_keeps keeps_mono by fastforce
next
  case (replicated ev req s resp s' X)
  then show ?case using follower_keeps keeps_mono by fastforce
next
  case (tick s X topic)
  then show ?case using keeps_flush keeps_mono by fastforce
next
  case (join s X ident conn)
  then have "keeps {} s (s\<lparr>svRepManager := RegisterReplica ident conn (svRepManager s)\<rparr>)" by (intro keeps_files) simp_all
  then show ?case using keeps_mono by fastforce
next
  case (heartbeat s X now msg)
  then have "keeps {} s (s\<lparr>svController := receiveHeartbeat now msg (svController s)\<rparr>)"
    by (intro keeps_files) (simp_all add: receiveHeartbeat_def)
  then show ?case using keeps_mono by fastforce
next
  case (failover opn flt now s c d X)
  then show ?case using controller_keeps checkFailover_file keeps_mono by fastforce
next
  case (rebalance opn flt s s' X)
  then obtain c d where "checkLoad opn flt (stMessagesProduced (GetStats (svMetrics s))) (svRebalancer s) (svController s, svDisk s) = Some (c, d)"
    "s' = s\<lparr>svController := c, svDisk := d\<rparr>" by (auto simp: rebalanceTick_def)
  then show ?case using rebalance controller_keeps checkLoad_file keeps_mono by fastforce
next
  case (health s X stopping hopn wr)
  then show ?case using health_keeps keeps_mono by fastforce
next
  case (retention fs now rm s s' X)
  then show ?case using retention_keeps [of s fs now rm s'] keeps_mono by fastforce
next
  case (compaction ev n s s' X)
  then show ?case using compaction_keeps [of s ev n s'] keeps_mono by fastforce
next
  case (restart s s' X)
  then show ?case using restart_keeps keeps_mono by fastforce
qed

interpretation life: keeping_steps life_step "\<lambda>x. in_order (fst x)" "\<lambda>x y. snd x \<subseteq> snd y \<and> keeps (snd y) (fst x) (fst y)"
proof unfold_locales
  fix x y z assume "snd x \<subseteq> snd y \<and> keeps (snd y) (fst x) (fst y)" "snd y \<subseteq> snd z \<and> keeps (snd z) (fst y) (fst z)"
  then show "snd x \<subseteq> snd z \<and> keeps (snd z) (fst x) (fst z)" using keeps_trans by blast
qed (auto simp: keeps_refl dest: life_step_keeps, auto simp: keeps_def dest: life_step_keeps)

text \<open>The same with kills of the process.\<close>

inductive crash_step :: "Server \<times> string set \<Rightarrow> Server \<times> string set \<Rightarrow> bool" where
  life: "crash_step x y" if "life_step x y"
| kill: "crash_step (s, X) (s', X)" if "killed s s'"

lemma crash_step_keeps:
  assumes "crash_step x y" "in_order (fst x)"
  shows "snd x \<subseteq> snd y \<and> keeps_flushed (snd y) (fst x) (fst y)"
  using assms
proof (induction rule: crash_step.induct)
  case (life x y)
  then show ?case using life_step_keeps keeps_keeps_flushed by blast
next
  case (kill s s' X)
  then show ?case using kill_keeps [of s s'] by (auto simp: keeps_flushed_def)
qed

interpretation crash: keeping_steps crash_step "\<lambda>x. in_order (fst x)" "\<lambda>x y. snd x \<subseteq> snd y \<and> keeps_flushed (snd y) (fst x) (fst y)"
proof unfold_locales
  fix x y z assume "snd x \<subseteq> snd y \<and> keeps_flushed (snd y) (fst x) (fst y)" "snd y \<subseteq> snd z \<and> keeps_flushed (snd z) (fst y) (fst z)"
  then show "snd x \<subseteq> snd z \<and> keeps_flushed (snd z) (fst x) (fst z)" using keeps_flushed_trans by blast
qed (use crash_step_keeps in \<open>auto simp: keeps_flushed_def\<close>)

text \<open>What an acknowledgement means: the message is the next one of the log.\<close>

lemma acknowledged_response:
  "acknowledge ev req off seg s = Some (resp, s') \<Longrightarrow> rsStatus resp = StatusOk \<Longrightarrow> rsOffset resp = off"
  by (auto simp: acknowledge_def Let_def ok_response_def err_response_def new_response_def StatusOk_def StatusErr_def split: prod.splits if_splits)

lemma acknowledged_append:
  assumes "processRequest ev req role s = Some (resp, s')" "rqType req = ReqProduce" "rsStatus resp = StatusOk" "\<not> known ev req s"
  obtains seg s1 off seg' where "getOrCreateTopicSegment ev (rqTopic req) s = Some (Inr (seg, s1))"
    "AppendBatch (evFlush ev) (evStamp ev) (rqKey req) (rqValue req) seg = (off, seg')"
    "acknowledge ev req off seg' (recordProduced ev req off (setSegment (rqTopic req) seg' s1)) = Some (resp, s')"
proof -
  have err: "rsStatus (err_response msg) \<noteq> StatusOk" for msg
    by (simp add: err_response_def new_response_def StatusOk_def StatusErr_def)
  obtain seg s1 where g: "getOrCreateTopicSegment ev (rqTopic req) s = Some (Inr (seg, s1))" and h: "handleProduceRequest ev req seg s1 = Some (resp, s')"
    using assms(1,2,3) err by (auto simp: processRequest_def Req_defs split: if_splits sum.splits option.splits)
  have "svProducerSM s1 = svProducerSM s" using g by (rule getOrCreate_frame) simp
  then have new: "\<not> (rqProducerID req \<noteq> 0 \<and> rqMessageID req \<noteq> []
      \<and> snd (CheckDuplicate (evNow ev) (rqProducerID req) (rqMessageID req) (svProducerSM s1)))"
    using assms(4) by (auto simp: known_def idempotent_def)
  obtain off seg' where a: "AppendBatch (evFlush ev) (evStamp ev) (rqKey req) (rqValue req) seg = (off, seg')" by fastforce
  have "acknowledge ev req off seg' (recordProduced ev req off (setSegment (rqTopic req) seg' s1)) = Some (resp, s')"
    using h new err assms(3) by (auto simp: handleProduceRequest_def a Let_def split: option.splits if_splits)
  with g a show thesis by (rule that)
qed

lemma acknowledged_stored:
  assumes "in_order s" "stored s (rqTopic req) F P" "orderly ev" "wf_request req" "plain_topic (rqTopic req)" "log_room ev req s"
    and "processRequest ev req role s = Some (resp, s')" "rqType req = ReqProduce" "rsStatus resp = StatusOk" "\<not> known ev req s"
  shows "in_order s'" "rsOffset resp = int (length (F @ P))"
    and "\<exists>F' P'. stored s' (rqTopic req) F' P' \<and> F' @ P' = F @ P @ [(evStamp ev, rqKey req, rqValue req)]"
proof -
  let ?m = "(evStamp ev, rqKey req, rqValue req)" and ?t = "rqTopic req"
  have ev: "evOpen ev = no_open_faults" "evFlush ev = no_faults" "wf_msg ?m"
    using assms(3,4) by (auto simp: orderly_def stores_well_def wf_request_def)
  obtain seg s1 off seg' where g: "getOrCreateTopicSegment ev ?t s = Some (Inr (seg, s1))"
    and a: "AppendBatch no_faults (evStamp ev) (rqKey req) (rqValue req) seg = (off, seg')"
    and resp: "acknowledge ev req off seg' (recordProduced ev req off (setSegment ?t seg' s1)) = Some (resp, s')"
    using acknowledged_append [OF assms(7-10)] ev(2) by metis
  note o = keeps_open [OF assms(1,5) ev(1) g]
  have o1: "in_order s1" and size: "used seg + length (enc_msg ?m) < 2 ^ 63"
    using o(1,4) assms(6) by (simp_all add: keeps_def log_room_def)
  note app = keeps_append [OF o1 o(2) ev(3) size]
  have "off = int (length (F @ P))" using app(3) [OF o(3) [OF assms(2)]] a by simp
  then show "rsOffset resp = int (length (F @ P))" using acknowledged_response [OF resp assms(9)] by simp
  have "config s' = config (setSegment ?t seg' s1)" by (simp add: acknowledge_frame(1) [OF resp] produced_frames)
  then have "svDataDir s' = svDataDir (setSegment ?t seg' s1)" by (simp add: config_def)
  moreover have "\<exists>F' P'. stored (setSegment ?t seg' s1) ?t F' P' \<and> F' @ P' = F @ P @ [?m]" using app(2) [OF o(3) [OF assms(2)]] a by simp
  ultimately show "\<exists>F' P'. stored s' ?t F' P' \<and> F' @ P' = F @ P @ [?m]"
    using stored_upd [of s' "setSegment ?t seg' s1"] by (simp add: acknowledge_frame [OF resp] produced_frames)
  have "well_named req" using assms(5,8) by (simp add: well_named_def Req_defs)
  then show "in_order s'" using request_keeps [OF assms(1,3,4) _ assms(6,7)] by (simp add: keeps_def)
qed

text \<open>The sample broker, started on an empty directory.\<close>

lemma sample_server_order: "in_order sample_server"
proof -
  have "NewServer None None False 0 ''data'' 1 (10 ^ 8) 65536 0 0 Map.empty = Inr sample_server"
    by (simp add: sample_server_def NewServer_def NewOffsetStore_def)
  then show ?thesis by (rule new_server_in_order(1)) simp_all
qed

lemma sample_order: "in_order sample_topic_server"
proof -
  have path: "log_path sample_server ''test-0'' = ''data/test-0.log''" by code_simp
  have "svTopics sample_server = []" "svBatchSize sample_server = 65536" "svFlushInt sample_server = 10 ^ 8" "svDisk sample_server = Map.empty"
    and ev: "evOpen sample_env = no_open_faults"
    by (simp_all add: sample_server_def NewServer_def NewOffsetStore_def sample_env_def calm_def)
  then have g: "getOrCreateTopicSegment sample_env ''test-0'' sample_server = Some (Inr (fresh_segment ''data/test-0.log'' 65536, sample_topic_server))"
    by (simp add: getOrCreateTopicSegment_def path openSegment_def content_def NewSegment_fresh sample_topic_server_def)
  have "keeps {} sample_server sample_topic_server" by (rule keeps_open(1) [OF sample_server_order _ ev g]) (simp add: plain_topic_def)
  then show ?thesis by (simp add: keeps_def)
qed

lemma dup_server_order: "in_order (topic_server dup_segment)"
proof -
  have "opened (topic_server dup_segment)" by (rule server_ready_opened [OF dup_server(1)])
  then show ?thesis using sample_server_order by (simp add: in_order_def topic_server_def log_files_def log_path_def)
qed

text \<open>A broker comes up on any directory that the disk has.\<close>

lemma start_succeeds: "\<exists>s'. starts_on d dir s'"
proof -
  obtain s where s: "NewServer None None False 0 dir 1 1 65536 1 0 d = Inr s" "svController s = NewController False 0 dir"
    "svRebalancer s = NewRebalancer 1 0" by (simp add: NewServer_def NewOffsetStore_def)
  have "\<exists>c d'. loadLeaders opn flt (svController s, svDisk s) = Some (c, d')" for opn flt
    using s(2) by (auto simp: loadLeaders_def setLeader_def NewController_def Let_def split: option.splits)
  then obtain c d' where "loadLeaders None no_save_faults (svController s, svDisk s) = Some (c, d')" by blast
  then have "\<exists>s'. ServerStart None no_save_faults None s = Some (None, s')"
    using s(3) by (simp add: ServerStart_def ControllerStart_def RebalancerStart_def NewTicker_def NewRebalancer_def)
  then show ?thesis using s(1) zero_less_one unfolding starts_on_def by blast
qed

section \<open>Properties\<close>

text \<open>\<^bold>\<open>C2\<close>: what the broker has acknowledged, it keeps. Let a produce request that is not a known duplicate be answered with success. The answer
  has the offset at the end of the log; and after any life of the broker from then on, with restarts, retention and compaction passes, requests,
  replication and failovers in any order, the message is still read at that offset, from the open log or from its files, once the batch is flushed. The
  exceptions are a topic that some retention pass found expired, one that a compaction pass rewrote, and one that has the name of a
  rewritten topic with \<^verbatim>\<open>.compacted\<close>, \<^verbatim>\<open>.log\<close> or \<^verbatim>\<open>.compacted.log\<close> added to it.\<close>

theorem acknowledged_messages_survive:
  assumes "in_order s" "stored s (rqTopic req) F P" "orderly ev" "wf_request req" "plain_topic (rqTopic req)" "log_room ev req s"
    and "rqType req = ReqProduce" "\<not> known ev req s" "processRequest ev req role s = Some (resp, s1)" "rsStatus resp = StatusOk"
    and "life_step\<^sup>*\<^sup>* (s1, {}) (s2, X)" "rqTopic req \<notin> X" "evOpen ev' = no_open_faults"
  shows "rsOffset resp = int (length (F @ P))
    \<and> (\<exists>seg s3. getOrCreateTopicSegment ev' (rqTopic req) s2 = Some (Inr (seg, s3))
         \<and> ReadAt (snd (flush no_faults seg)) (rsOffset resp) = Inr (rqKey req, rqValue req, rsOffset resp + 1))"
proof -
  let ?m = "(evStamp ev, rqKey req, rqValue req)" and ?t = "rqTopic req"
  note ack = acknowledged_stored [OF assms(1-6,9,7,10,8)]
  have k: "keeps X s1 s2" using life.run_kept [OF assms(11)] ack(1) by simp
  obtain F1 P1 where st: "stored s1 ?t F1 P1" "F1 @ P1 = (F @ P) @ [?m]" using ack(3) by auto
  obtain F2 P2 where 2: "stored s2 ?t F2 P2" "prefix F1 F2" "prefix (F1 @ P1) (F2 @ P2)" by (rule keepsD [OF k assms(5,12) st(1)])
  then obtain zs where log: "F2 @ P2 = ((F @ P) @ [?m]) @ zs" unfolding st(2) by (auto simp: prefix_def)
  have at: "length (F @ P) < length (F2 @ P2)" "(F2 @ P2) ! length (F @ P) = ?m" unfolding log by (simp_all add: nth_append)
  have ord: "in_order s2" using k by (simp add: keeps_def)
  obtain seg s3 where g: "getOrCreateTopicSegment ev' ?t s2 = Some (Inr (seg, s3))" by (rule stored_opens [OF 2(1) assms(13) ord])
  note o = keeps_open [OF ord assms(5,13) g]
  have rep: "seg_rep seg F2 P2" using o(3) [OF 2(1)] o(2) by (simp add: stored_def)
  have "ReadAt (snd (flush no_faults seg)) (int (length (F @ P))) = Inr (rqKey req, rqValue req, int (length (F @ P)) + 1)"
    unfolding ReadAt_rep [OF flush_rep(2) [OF rep]] using at by (simp add: nat_int_add)
  then show ?thesis using ack(2) g by auto
qed

theorem acknowledged_messages_survive_witness:
  "\<exists>s1 seg s3. processRequest sample_env sample_put RoleProducer sample_topic_server = Some (ok_response 0, s1)
    \<and> getOrCreateTopicSegment sample_env ''test-0'' (flushTick no_faults ''test-0'' s1) = Some (Inr (seg, s3))
    \<and> ReadAt (snd (flush no_faults seg)) 0 = Inr ([1], [2], 1)"
proof -
  have f: "evOpen sample_env = no_open_faults" "evStamp sample_env = 5" "rqTopic sample_put = ''test-0''" "rqKey sample_put = [1]"
      "rqValue sample_put = [2]" "rqType sample_put = ReqProduce"
    by (simp_all add: sample_env_def calm_def sample_put_def new_request_def)
  have st: "stored sample_topic_server (rqTopic sample_put) [] []"
    using sample_holds by (auto simp: holds_def stored_def)
  have ev: "orderly sample_env" by (simp add: orderly_def stores_well_def sample_env_def calm_def in_int64_def)
  have wf: "wf_request sample_put"
    by (simp add: wf_request_def sample_put_def new_request_def known_type_def in_int64_def in_int32_def processed_ids_def Req_defs)
  have room: "log_room sample_env sample_put sample_topic_server"
    by (simp add: log_room_def log_size_def f sample_topic_server_def fresh_segment_rep(2) record_bytes_def)
  have ans: "produce_answer sample_env 0 sample_topic_server = ok_response 0"
    by (simp add: produce_answer_def sample_topic_server_def sample_server_def NewServer_def NewOffsetStore_def
        Replicate_def NewReplicationManager_def)
  obtain s1 where s1: "processRequest sample_env sample_put RoleProducer sample_topic_server = Some (ok_response 0, s1)"
    by (rule produce_request_stores [OF sample_producible sample_holds sample_new]) (simp add: ans)
  have ok: "rsStatus (ok_response 0) = StatusOk" by (simp add: ok_response_def new_response_def)
  have life: "life_step\<^sup>*\<^sup>* (s1, {}) (flushTick no_faults ''test-0'' s1, {})" by (rule r_into_rtranclp, rule life_step.tick)
  have pt: "plain_topic (rqTopic sample_put)" "rqTopic sample_put \<notin> {}" using f(3) by (simp_all add: plain_topic_def)
  have "rsOffset (ok_response 0) = 0" by (simp add: ok_response_def)
  then show ?thesis
    using acknowledged_messages_survive [OF sample_order st ev wf pt(1) room f(6) sample_new s1 ok life pt(2) f(1)] s1 f by auto
qed

text \<open>\<^bold>\<open>C3\<close>: reads are stable. What a consumer has read at an offset of an open log is what is read there ever after, in whatever life the
  broker leads from then on, with requests, flushes, replication, failovers, retention and compaction passes, restarts and kills of the process between its
  steps, as long as no retention pass finds the topic expired and no compaction pass rewrites it or, because of its name, disturbs its
  files. (Compaction renumbers the messages of the topics it rewrites.)\<close>

theorem reads_survive_kills:
  assumes "in_order s" "plain_topic t" "map_of (svTopics s) t = Some seg" "seg_rep seg F P"
    and "crash_step\<^sup>*\<^sup>* (s, {}) (s', X)" "t \<notin> X" "evOpen ev = no_open_faults"
  shows "\<exists>seg' s''. getOrCreateTopicSegment ev t s' = Some (Inr (seg', s''))
    \<and> (\<forall>off rec. ReadAt seg off = Inr rec \<longrightarrow> ReadAt seg' off = Inr rec)"
proof -
  have k: "keeps_flushed X s s'" using crash.run_kept [OF assms(5)] assms(1) by simp
  have "stored s t F P" using assms(3,4) by (simp add: stored_def)
  then obtain F' P' where st: "stored s' t F' P'" "prefix F F'" by (rule keeps_flushedD [OF k assms(2,6)])
  have ord: "in_order s'" using k by (simp add: keeps_flushed_def)
  obtain seg' s'' where g: "getOrCreateTopicSegment ev t s' = Some (Inr (seg', s''))" by (rule stored_opens [OF st(1) assms(7) ord])
  note o = keeps_open [OF ord assms(2,7) g]
  have rep: "seg_rep seg' F' P'" using o(3) [OF st(1)] o(2) by (simp add: stored_def)
  have "\<forall>off rec. ReadAt seg off = Inr rec \<longrightarrow> ReadAt seg' off = Inr rec"
    using st(2) by (auto simp: ReadAt_rep [OF assms(4)] ReadAt_rep [OF rep] prefix_def nth_append split: if_splits)
  with g show ?thesis by blast
qed

theorem reads_survive_kills_witness:
  "\<exists>s' seg' s'' rec. killed (topic_server dup_segment) s' \<and> getOrCreateTopicSegment sample_env ''t'' s' = Some (Inr (seg', s''))
    \<and> ReadAt dup_segment 0 = Inr rec \<and> ReadAt seg' 0 = Inr rec"
proof -
  obtain s' where k: "killed (topic_server dup_segment) s'" using start_succeeds unfolding killed_def by blast
  then have run: "crash_step\<^sup>*\<^sup>* (topic_server dup_segment, {}) (s', {})" by (intro r_into_rtranclp crash_step.kill)
  have f: "plain_topic ''t''" "''t'' \<notin> {}" "evOpen sample_env = no_open_faults" by (simp_all add: plain_topic_def sample_env_def calm_def)
  obtain rec where rec: "ReadAt dup_segment 0 = Inr rec"
    by (cases "ReadAt dup_segment 0") (auto simp: ReadAt_rep [OF dup_segment_rep] dup_messages_def)
  obtain seg' s'' where g: "getOrCreateTopicSegment sample_env ''t'' s' = Some (Inr (seg', s''))" "ReadAt seg' 0 = Inr rec"
    using reads_survive_kills [OF dup_server_order f(1) topic_server_facts(1) dup_segment_rep run f(2,3)] rec by blast
  show ?thesis using k g rec by blast
qed

end
