(* ===== verification/Idempotence.thy ===== *)
theory Idempotence
  imports Broker_Life
begin

text \<open>
  Retries of produce requests (\<^verbatim>\<open>internal/broker/server.go\<close> with the table of \<^verbatim>\<open>internal/producer/idempotent.go\<close>): what the
  table of message ids promises over a whole run of the process, and where the promise ends.

  \<open>serving_step\<close> is a step of a running process: requests of any client, ticks, replication, heartbeats, failover, rebalancing, health
  checks, retention and compaction, with any faults and any names. \<open>retries_are_answered_from_the_table\<close> is about all its runs within
  the time to live. Its requests are atomic. The handler in the code is not: it looks the id up, appends and records without a lock
  that covers all three. \<open>produce_step\<close> takes it apart into these phases (which in a row are the handler,
  \<open>phases_are_the_handler\<close>), and \<open>concurrent_retries_store_twice\<close> runs two of them side by side. The table is
  in memory only: \<open>restart_forgets_ids\<close>.
\<close>

section \<open>A running process\<close>

text \<open>The clock of requests is at most \<open>limit\<close>.\<close>

inductive serving_step :: "int \<Rightarrow> Server \<Rightarrow> Server \<Rightarrow> bool" for limit where
  request: "serving_step limit s s'" if "processRequest ev req role s = Some (resp, s')" "evNow ev \<le> limit"
| replicated: "serving_step limit s s'" if "followerAppend ev req s = Some (resp, s')"
| tick: "serving_step limit s (flushTick flt topic s)"
| join: "serving_step limit s (s\<lparr>svRepManager := RegisterReplica ident conn (svRepManager s)\<rparr>)"
| heartbeat: "serving_step limit s (s\<lparr>svController := receiveHeartbeat now msg (svController s)\<rparr>)"
| failover: "serving_step limit s (s\<lparr>svController := c, svDisk := d\<rparr>)"
    if "checkFailover opn sflt now (svController s, svDisk s) = Some (c, d)"
| rebalance: "serving_step limit s s'" if "rebalanceTick opn sflt s = Some s'"
| health: "serving_step limit s (snd (healthHandler stopping opn wr dir s))"
| retention: "serving_step limit s s'" if "processRetention flt now rm files s = Some s'"
| compaction: "serving_step limit s s'" if "processCompaction ev n s = Some s'"

section \<open>The table of ids along a run\<close>

lemma setSegment_ids [simp]: "svProducerSM (setSegment t seg s) = svProducerSM s"
  by (simp add: setSegment_def)

lemma flushTick_ids: "svProducerSM (flushTick flt t s) = svProducerSM s"
  by (simp add: flushTick_def split: option.split)

lemma followerAppend_ids: "followerAppend ev req s = Some (resp, s') \<Longrightarrow> svProducerSM s' = svProducerSM s"
  by (auto simp: followerAppend_def elim!: getOrCreate_frame split: option.splits sum.splits prod.splits)

lemma deleteTopicLog_ids: "deleteTopicLog flt u s = Some s' \<Longrightarrow> svProducerSM s' = svProducerSM s"
  by (auto simp: deleteTopicLog_def split: option.splits)

lemma fold_ids:
  assumes "\<And>x s s'. f x s = Some s' \<Longrightarrow> svProducerSM s' = svProducerSM s"
    and "foldl (\<lambda>acc x. Option.bind acc (f x)) (Some s) xs = Some s'"
  shows "svProducerSM s' = svProducerSM s"
  using assms(2)
proof (induction xs arbitrary: s)
  case (Cons x xs)
  have "foldl (\<lambda>acc x. Option.bind acc (f x)) None xs = None" by (induction xs) simp_all
  then show ?case using Cons assms(1) [of x s] by (cases "f x s") auto
qed simp

lemma processRetention_ids:
  assumes "processRetention flt now rm files s = Some s'"
  shows "svProducerSM s' = svProducerSM s"
proof (cases files)
  case (Some fs)
  have "svProducerSM s' = svProducerSM s" if "retainFile flt now rm f s = Some s'" for f s s'
    using that by (auto simp: retainFile_def dest: deleteTopicLog_ids split: if_splits option.splits)
  then show ?thesis using assms Some fold_ids [of "retainFile flt now rm" s fs s'] by (simp add: processRetention_def)
qed (use assms in \<open>simp add: processRetention_def\<close>)

lemma writeCompactedFile_ids: "writeCompactedFile ev t records lo s = Some (e, s') \<Longrightarrow> svProducerSM s' = svProducerSM s"
  by (auto simp: writeCompactedFile_def Let_def split: option.splits sum.splits)

lemma replaceWithCompacted_ids: "replaceWithCompacted ev t s = Some (e, s') \<Longrightarrow> svProducerSM s' = svProducerSM s"
  by (auto simp: replaceWithCompacted_def Let_def split: option.splits sum.splits)

lemma CompactTopic_ids: "CompactTopic ev t s = Some (e, s') \<Longrightarrow> svProducerSM s' = svProducerSM s"
  by (auto simp: CompactTopic_def split: option.splits prod.splits if_splits bind_splits
      dest!: writeCompactedFile_ids replaceWithCompacted_ids)

lemma processCompaction_ids: "processCompaction ev n s = Some s' \<Longrightarrow> svProducerSM s' = svProducerSM s"
  unfolding processCompaction_def by (erule fold_ids [rotated]) (auto dest: CompactTopic_ids)

text \<open>A request records the id of its message, if it appends one, and nothing else.\<close>

lemma processRequest_ids:
  assumes "processRequest ev req role s = Some (resp, s')"
  shows "svProducerSM s' = svProducerSM s
    \<or> idempotent req \<and> \<not> known ev req s \<and> (\<exists>off. svProducerSM s' = RecordMessage (evNow ev) (rqProducerID req) (rqMessageID req) off (svProducerSM s))"
proof -
  have prod: ?thesis if g: "getOrCreateTopicSegment ev (rqTopic req) s = Some (Inr (seg, s1))" and h: "handleProduceRequest ev req seg s1 = Some (resp, s')"
    for seg s1
  proof -
    have sm: "svProducerSM s1 = svProducerSM s" using g by (rule getOrCreate_frame) simp
    show ?thesis
    proof (cases "known ev req s")
      case True
      then have "s' = s1" using h sm by (auto simp: handleProduceRequest_def known_def idempotent_def split: option.splits)
      then show ?thesis using sm by simp
    next
      case False
      from h show ?thesis
      proof (rule handleProduceRequest_cases)
        fix off seg' assume "acknowledge ev req off seg' (recordProduced ev req off (setSegment (rqTopic req) seg' s1)) = Some (resp, s')"
        then show ?thesis using acknowledge_frame(3) sm False by (fastforce simp: recordProduced_def idempotent_def)
      qed (use sm in simp)
    qed
  qed
  have cons: "svProducerSM s' = svProducerSM s"
    if "getOrCreateTopicSegment ev (rqTopic req) s = Some (Inr (seg, s1))" "handleConsumeRequest ev req seg s1 = Some (resp, s')" for seg s1
    using that by (auto elim!: getOrCreate_frame consume_cases)
  have opened: "svProducerSM s1 = svProducerSM s" if "getOrCreateTopicSegment ev (rqTopic req) s = Some (Inr (seg, s1))" for seg s1
    using that by (rule getOrCreate_frame) simp
  have offs: "svProducerSM s' = svProducerSM s" if "processOffsetRequest ev req s = Some (resp, s')"
    using that by (rule processOffsetRequest_frame) simp
  have grp: "svProducerSM s' = svProducerSM s" if "processGroupRequest req s = Some (resp, s')"
    using that by (auto simp: processGroupRequest_def split: if_splits)
  from assms show ?thesis unfolding processRequest_def
    by (auto split: if_splits sum.splits prod.splits option.splits dest: offs grp cons prod opened)
qed

text \<open>The table answers for a message, at every time up to the limit.\<close>

definition remembers :: "int \<Rightarrow> int \<Rightarrow> string \<Rightarrow> int \<Rightarrow> Server \<Rightarrow> bool" where
  "remembers limit p k off s \<longleftrightarrow> (\<forall>now \<le> limit. CheckDuplicate now p k (svProducerSM s) = (off, True))"

lemma remembers_same: "svProducerSM s' = svProducerSM s \<Longrightarrow> remembers limit p k off s \<Longrightarrow> remembers limit p k off s'"
  by (simp add: remembers_def)

lemma serving_remembers:
  assumes "serving_step limit s s'" "remembers limit p k off s"
  shows "remembers limit p k off s'"
  using assms
proof (induction rule: serving_step.induct)
  case (request ev req role s resp s')
  from processRequest_ids [OF request(1)] show ?case
  proof
    assume "idempotent req \<and> \<not> known ev req s \<and> (\<exists>off. svProducerSM s' = RecordMessage (evNow ev) (rqProducerID req) (rqMessageID req) off (svProducerSM s))"
    then obtain off' where r: "idempotent req" "\<not> known ev req s"
        "svProducerSM s' = RecordMessage (evNow ev) (rqProducerID req) (rqMessageID req) off' (svProducerSM s)" by blast
    have "(p, k) \<noteq> (rqProducerID req, rqMessageID req)"
      using r(1,2) request(2,3) by (auto simp: known_def remembers_def)
    then show ?thesis using request(3) by (simp add: remembers_def r(3) msgids.check_rec_other)
  qed (use request(3) in \<open>simp add: remembers_def\<close>)
next
  case (rebalance opn sflt s s')
  then show ?case by (auto simp: rebalanceTick_def remembers_def)
next
  case (health s stopping opn wr dir)
  have "svProducerSM (snd (healthHandler stopping opn wr dir s)) = svProducerSM s"
    by (auto simp: healthHandler_def Let_def split: prod.split bool.split)
  then show ?case using health by (rule remembers_same)
qed (auto intro: remembers_same simp: flushTick_ids dest: followerAppend_ids processRetention_ids processCompaction_ids)

interpretation serving: guarded_steps "serving_step limit" "remembers limit p k off" for limit p k off
  by unfold_locales (rule serving_remembers)

section \<open>The handler in phases\<close>

text \<open>Where a connection that serves the request stands.\<close>

datatype handler = Received | Checked | Appended int | Answered Response

definition produceCheck :: "env \<Rightarrow> Request \<Rightarrow> Server \<Rightarrow> handler option" where
  "produceCheck ev req s =
     (case Validate (evJsonErr ev) (rqTopic req) (rqValue req) (svSchemaRegistry s) of
        None \<Rightarrow> None
      | Some (Some e) \<Rightarrow> Some (Answered (err_response (''ErrInvalidSchema: '' @ error_text e)))
      | Some None \<Rightarrow>
          (let dup = CheckDuplicate (evNow ev) (rqProducerID req) (rqMessageID req) (svProducerSM s) in
           if rqProducerID req \<noteq> 0 \<and> rqMessageID req \<noteq> [] \<and> snd dup then Some (Answered (ok_response (fst dup)))
           else Some Checked))"

text \<open>Connections that serve the same request; each phase is a step, and those of different connections come in any order.\<close>

inductive produce_step :: "Request \<Rightarrow> Server \<times> (nat \<Rightarrow> handler) \<Rightarrow> Server \<times> (nat \<Rightarrow> handler) \<Rightarrow> bool" for req where
  checks: "produce_step req (s, h) (s, h(i := x))" if "h i = Received" "produceCheck ev req s = Some x"
| appends: "produce_step req (s, h) (setSegment (rqTopic req) seg' s, h(i := Appended off))"
    if "h i = Checked" "map_of (svTopics s) (rqTopic req) = Some seg"
      "AppendBatch (evFlush (ev :: env)) (evStamp ev) (rqKey req) (rqValue req) seg = (off, seg')"
| records: "produce_step req (s, h) (s', h(i := Answered resp))"
    if "h i = Appended off" "map_of (svTopics s) (rqTopic req) = Some seg"
      "acknowledge ev req off seg (recordProduced ev req off s) = Some (resp, s')"

text \<open>One connection alone takes the steps of \<^verbatim>\<open>handleProduceRequest\<close>.\<close>

lemma recordProduced_setSegment:
  "recordProduced ev req off (setSegment t seg s) = setSegment t seg (recordProduced ev req off s)"
  by (simp add: recordProduced_def setSegment_def)

lemma phases_are_the_handler:
  assumes "handleProduceRequest ev req seg s = Some (resp, s')" "map_of (svTopics s) (rqTopic req) = Some seg" "h i = Received"
  shows "(produce_step req)\<^sup>*\<^sup>* (s, h) (s', h(i := Answered resp))"
proof (cases "produceCheck ev req s = Some Checked")
  case False
  then have "produceCheck ev req s = Some (Answered resp) \<and> s' = s"
    using assms(1) by (auto simp: handleProduceRequest_def produceCheck_def Let_def split: option.splits if_splits)
  then show ?thesis using produce_step.checks [of h i ev req s "Answered resp"] assms(3) by auto
next
  case True
  obtain off seg' where a: "AppendBatch (evFlush ev) (evStamp ev) (rqKey req) (rqValue req) seg = (off, seg')" by fastforce
  let ?s1 = "setSegment (rqTopic req) seg' s" and ?h1 = "h(i := Checked)"
  have ack: "acknowledge ev req off seg' (recordProduced ev req off ?s1) = Some (resp, s')"
    using assms(1) True by (auto simp: handleProduceRequest_def produceCheck_def Let_def a split: option.splits if_splits)
  have "produce_step req (s, h) (s, ?h1)" using assms(3) True by (rule produce_step.checks)
  moreover have "produce_step req (s, ?h1) (?s1, ?h1(i := Appended off))" using assms(2) a by (intro produce_step.appends) simp_all
  moreover have "produce_step req (?s1, ?h1(i := Appended off)) (s', (?h1(i := Appended off))(i := Answered resp))"
    using ack by (intro produce_step.records) (simp_all add: setSegment_def update_conv')
  ultimately show ?thesis by (simp add: converse_rtranclp_into_rtranclp)
qed

text \<open>With a positive acknowledgement setting of one, an append is always acknowledged.\<close>

lemma acknowledge_leader_only:
  assumes "svAcks s = 1" "evLabel ev (rqTopic req)"
  obtains s' where "acknowledge ev req off seg s = Some (ok_response off, s')" "svTopics s' = svTopics s" "svAcks s' = 1"
proof -
  obtain resp s' where a: "acknowledge ev req off seg s = Some (resp, s')" using acknowledge_no_panic [of ev req off seg s] assms(2) by blast
  have "resp = ok_response off" using a assms by (auto simp: acknowledge_def Let_def split: prod.splits)
  moreover have "svAcks s' = 1" using acknowledge_frame(1) [OF a] assms(1) by (simp add: config_def)
  ultimately show thesis using that a acknowledge_frame(2) [OF a] by blast
qed

text \<open>Two connections that bring the same message, the original and an impatient retry, and look its id up before either has recorded
  it: the message is stored twice, and each is answered with the offset of its own copy.\<close>

theorem concurrent_retries_store_twice:
  assumes "producible ev req role s" "map_of (svTopics s) (rqTopic req) = Some seg" "seg_rep seg F P" "\<not> known ev req s" "svAcks s = 1"
    and "used seg + 2 * length (enc_msg (evStamp ev, rqKey req, rqValue req)) < 2 ^ 63"
  shows "\<exists>s' h F' P'. (produce_step req)\<^sup>*\<^sup>* (s, \<lambda>_. Received) (s', h)
    \<and> h 0 = Answered (ok_response (int (length (F @ P)))) \<and> h 1 = Answered (ok_response (int (length (F @ P)) + 1))
    \<and> holds s' (rqTopic req) F' P'
    \<and> F' @ P' = F @ P @ [(evStamp ev, rqKey req, rqValue req), (evStamp ev, rqKey req, rqValue req)]"
proof -
  let ?m = "(evStamp ev, rqKey req, rqValue req)" and ?n = "int (length (F @ P))" and ?t = "rqTopic req"
  let ?app = "AppendBatch (evFlush ev) (evStamp ev) (rqKey req) (rqValue req)"
  have ev: "evFlush ev = no_faults" "wf_msg ?m" "evLabel ev ?t" "accepted ev req s" using assms(1) by (simp_all add: producible_def)
  have size: "used seg + length (enc_msg ?m) < 2 ^ 63" using assms(6) by simp
  obtain off1 seg1 where a1: "AppendBatch no_faults (evStamp ev) (rqKey req) (rqValue req) seg = (off1, seg1)" by fastforce
  obtain F1 P1 where 1: "seg_rep seg1 F1 P1" "F1 @ P1 = F @ P @ [?m]"
    using segment.append_rep [OF assms(3) ev(2) size] a1 by auto
  have o1: "off1 = ?n" "used seg1 = used seg + length (enc_msg ?m)"
    using segment.append_offset [OF assms(3) ev(2) size] segment.append_size [OF assms(3) ev(2) size] a1 by simp_all
  have size1: "used seg1 + length (enc_msg ?m) < 2 ^ 63" using assms(6) o1(2) by simp
  obtain off2 seg2 where a2: "AppendBatch no_faults (evStamp ev) (rqKey req) (rqValue req) seg1 = (off2, seg2)" by fastforce
  obtain F2 P2 where 2: "seg_rep seg2 F2 P2" "F2 @ P2 = F1 @ P1 @ [?m]"
    using segment.append_rep [OF 1(1) ev(2) size1] a2 by auto
  have "off2 = int (length (F1 @ P1))" using segment.append_offset [OF 1(1) ev(2) size1] a2 by simp
  then have o2: "off2 = ?n + 1" unfolding 1(2) by simp
  have app: "?app seg = (?n, seg1)" "?app seg1 = (?n + 1, seg2)" using a1 a2 o1(1) o2 ev(1) by simp_all
  have log: "F2 @ P2 = F @ P @ [?m, ?m]" using 2(2) 1(2) by (simp flip: append_assoc)
  have chk: "produceCheck ev req s = Some Checked"
    using ev(4) assms(4) by (auto simp: produceCheck_def accepted_def known_def idempotent_def Let_def)
  let ?h0 = "\<lambda>_ :: nat. Received"
  let ?h1 = "?h0(0 := Checked)" let ?h2 = "?h1(1 := Checked)" let ?h3 = "?h2(0 := Appended ?n)" let ?h4 = "?h3(1 := Appended (?n + 1))"
  let ?s1 = "setSegment ?t seg1 s" let ?s2 = "setSegment ?t seg2 ?s1"
  have top: "map_of (svTopics ?s1) ?t = Some seg1" "map_of (svTopics ?s2) ?t = Some seg2" "svAcks ?s2 = 1"
    using assms(5) by (simp_all add: setSegment_def update_conv')
  have acks: "svAcks (recordProduced ev req ?n ?s2) = 1" using top(3) by (simp add: recordProduced_frame)
  obtain s3 where 3: "acknowledge ev req ?n seg2 (recordProduced ev req ?n ?s2) = Some (ok_response ?n, s3)"
      "svTopics s3 = svTopics ?s2" "svAcks s3 = 1"
    by (rule acknowledge_leader_only [OF acks ev(3)]) (simp add: recordProduced_frame)
  have acks3: "svAcks (recordProduced ev req (?n + 1) s3) = 1" using 3(3) by (simp add: recordProduced_frame)
  obtain s4 where 4: "acknowledge ev req (?n + 1) seg2 (recordProduced ev req (?n + 1) s3) = Some (ok_response (?n + 1), s4)"
      "svTopics s4 = svTopics s3"
    by (rule acknowledge_leader_only [OF acks3 ev(3)]) (simp add: recordProduced_frame)
  have "produce_step req (s, ?h0) (s, ?h1)" "produce_step req (s, ?h1) (s, ?h2)" using chk by (auto intro: produce_step.checks)
  moreover have "produce_step req (s, ?h2) (?s1, ?h3)" using assms(2) app(1) by (intro produce_step.appends) simp_all
  moreover have "produce_step req (?s1, ?h3) (?s2, ?h4)" using top(1) app(2) by (intro produce_step.appends) simp_all
  moreover have "produce_step req (?s2, ?h4) (s3, ?h4(0 := Answered (ok_response ?n)))" using top(2) 3(1) by (intro produce_step.records) simp_all
  moreover have "produce_step req (s3, ?h4(0 := Answered (ok_response ?n)))
      (s4, ?h4(0 := Answered (ok_response ?n), 1 := Answered (ok_response (?n + 1))))"
    using top(2) 3(2) 4(1) by (intro produce_step.records) simp_all
  ultimately have "(produce_step req)\<^sup>*\<^sup>* (s, ?h0) (s4, ?h4(0 := Answered (ok_response ?n), 1 := Answered (ok_response (?n + 1))))"
    by (meson converse_rtranclp_into_rtranclp rtranclp.rtrancl_refl)
  moreover have "holds s4 ?t F2 P2" using 2(1) top(2) 3(2) 4(2) by (simp add: holds_def)
  moreover have "(?h4(0 := Answered (ok_response ?n), 1 := Answered (ok_response (?n + 1)))) 0 = Answered (ok_response ?n)"
    "(?h4(0 := Answered (ok_response ?n), 1 := Answered (ok_response (?n + 1)))) 1 = Answered (ok_response (?n + 1))" by simp_all
  ultimately show ?thesis using log by blast
qed

lemma sample_race:
  "\<exists>s' h F' P'. (produce_step sample_put)\<^sup>*\<^sup>* (sample_topic_server, \<lambda>_. Received) (s', h)
    \<and> h 0 = Answered (ok_response 0) \<and> h 1 = Answered (ok_response 1)
    \<and> holds s' ''test-0'' F' P' \<and> F' @ P' = [(5, [1], [2]), (5, [1], [2])]"
proof -
  have f: "rqTopic sample_put = ''test-0''" "rqKey sample_put = [1]" "rqValue sample_put = [2]" "evStamp sample_env = 5" "svAcks sample_topic_server = 1"
    by (simp_all add: sample_put_def new_request_def sample_env_def calm_def sample_topic_server_def sample_server_def NewServer_def NewOffsetStore_def)
  have seg: "map_of (svTopics sample_topic_server) (rqTopic sample_put) = Some (fresh_segment ''data/test-0.log'' 65536)"
    by (simp add: f sample_topic_server_def)
  show ?thesis
    using concurrent_retries_store_twice [OF sample_producible seg fresh_segment_rep(1) sample_new f(5)]
    by (simp add: f fresh_segment_rep(2) record_bytes_def)
qed

text \<open>The next process starts with an empty table, whatever the previous one had recorded.\<close>

lemma restart_forgets_ids:
  assumes "starts_on d dir s'"
  shows "svProducerSM s' = NewIdempotentManager (24 * 3600 * 10 ^ 9)" "\<not> known ev req s'"
proof -
  show "svProducerSM s' = NewIdempotentManager (24 * 3600 * 10 ^ 9)"
    using assms by (auto simp: starts_on_def ServerStart_def NewServer_def NewOffsetStore_def)
  then show "\<not> known ev req s'" by (simp add: known_def NewIdempotentManager_def CheckDuplicate_def)
qed

section \<open>Properties\<close>

lemma known_retry:
  assumes "rqType req = ReqProduce" "idempotent req" "CheckDuplicate (evNow ev) (rqProducerID req) (rqMessageID req) (svProducerSM s) = (off, True)"
    and "processRequest ev req role s = Some (resp, s')"
  shows "(resp = ok_response off \<or> rsStatus resp = StatusErr)
    \<and> (\<exists>ts. s' = s\<lparr>svTopics := ts\<rparr> \<and> (\<forall>t seg. map_of (svTopics s) t = Some seg \<longrightarrow> map_of ts t = Some seg))"
proof -
  have err: "rsStatus (err_response msg) = StatusErr" for msg by (simp add: err_response_def new_response_def)
  show ?thesis
  proof (cases "isLeaderFor (rqTopic req) s \<and> (\<exists>x. getOrCreateTopicSegment ev (rqTopic req) s = Some (Inr x))")
    case False
    then have "s' = s\<lparr>svTopics := svTopics s\<rparr>" "rsStatus resp = StatusErr"
      using assms(1,4) err by (auto simp: processRequest_def Req_defs split: if_splits option.splits sum.splits)
    then show ?thesis by blast
  next
    case True
    then obtain seg s1 where g: "getOrCreateTopicSegment ev (rqTopic req) s = Some (Inr (seg, s1))" and lead: "isLeaderFor (rqTopic req) s"
      by auto
    from g obtain ts where s1: "s1 = s\<lparr>svTopics := ts\<rparr>" by (rule getOrCreate_frame)
    have same: "\<forall>t sg. map_of (svTopics s) t = Some sg \<longrightarrow> map_of ts t = Some sg" using getOrCreate_topics(1) [OF g] by (simp add: s1)
    have "s' = s1 \<and> (resp = ok_response off \<or> rsStatus resp = StatusErr)"
      using assms(1-4) g lead err
      by (auto simp: processRequest_def Req_defs handleProduceRequest_def idempotent_def s1 split: if_splits option.splits)
    then show ?thesis using s1 same by blast
  qed
qed

text \<open>\<^bold>\<open>C11\<close>: a message with a producer and a message id is stored once. The first request appends it, even when it is answered with a
  replication error. After that the process may run on in any way, with any requests of any clients, also of the same producer, and with
  flushes, replication, failover, retention and compaction: up to the time to live after the first request, a retry is answered with the
  offset of the first, or with an error when the broker does not lead the topic any more, the client may not produce, or a schema was
  registered that the message violates; it appends nothing and changes no open log. (This is about one process, whose requests take effect
  one after the other: the table is lost with the process, and two copies that are served at the same time may both be stored.)\<close>

theorem retries_are_answered_from_the_table:
  assumes "producible ev req role s" "holds s (rqTopic req) F P" "\<not> known ev req s" "idempotent req"
  shows "\<exists>s1 F' P'. processRequest ev req role s = Some (produce_answer ev (int (length (F @ P))) s, s1)
    \<and> holds s1 (rqTopic req) F' P' \<and> F' @ P' = F @ P @ [(evStamp ev, rqKey req, rqValue req)]
    \<and> (\<forall>s2 ev' role'. (serving_step (evNow ev + imTtl (svProducerSM s)))\<^sup>*\<^sup>* s1 s2 \<and> evNow ev' \<le> evNow ev + imTtl (svProducerSM s) \<longrightarrow>
         (\<forall>resp s3. processRequest ev' req role' s2 = Some (resp, s3) \<longrightarrow>
            (resp = ok_response (int (length (F @ P))) \<or> rsStatus resp = StatusErr)
            \<and> (\<exists>ts. s3 = s2\<lparr>svTopics := ts\<rparr> \<and> (\<forall>t seg. map_of (svTopics s2) t = Some seg \<longrightarrow> map_of ts t = Some seg)))
         \<and> (CanProduce role' \<and> isLeaderFor (rqTopic req) s2 \<and> accepted ev' req s2 \<and> map_of (svTopics s2) (rqTopic req) \<noteq> None \<longrightarrow>
            processRequest ev' req role' s2 = Some (ok_response (int (length (F @ P))), s2)))"
proof -
  let ?n = "length (F @ P)" and ?limit = "evNow ev + imTtl (svProducerSM s)"
  obtain s1 F' P' where s1: "processRequest ev req role s = Some (produce_answer ev (int ?n) s, s1)"
    "holds s1 (rqTopic req) F' P'" "F' @ P' = F @ P @ [(evStamp ev, rqKey req, rqValue req)]"
    "svProducerSM s1 = (if idempotent req
       then RecordMessage (evNow ev) (rqProducerID req) (rqMessageID req) (int ?n) (svProducerSM s) else svProducerSM s)"
    using produce_request_stores [OF assms(1-3)] by metis
  have ty: "rqType req = ReqProduce" using assms(1) by (simp add: producible_def)
  have rem1: "remembers ?limit (rqProducerID req) (rqMessageID req) (int ?n) s1"
    using s1(4) assms(4) by (auto simp: remembers_def idempotent_def intro: msgids.check_rec)
  have dup: "CheckDuplicate (evNow ev') (rqProducerID req) (rqMessageID req) (svProducerSM s2) = (int ?n, True)"
    if "(serving_step ?limit)\<^sup>*\<^sup>* s1 s2" "evNow ev' \<le> ?limit" for s2 ev'
    using serving.run_safe [OF that(1) rem1] that(2) by (simp add: remembers_def)
  have answered: "processRequest ev' req role' s2 = Some (ok_response (int ?n), s2)"
    if run: "(serving_step ?limit)\<^sup>*\<^sup>* s1 s2" "evNow ev' \<le> ?limit"
      and ok: "CanProduce role'" "isLeaderFor (rqTopic req) s2" "accepted ev' req s2" "map_of (svTopics s2) (rqTopic req) \<noteq> None" for s2 ev' role'
  proof -
    obtain seg where seg: "map_of (svTopics s2) (rqTopic req) = Some seg" using ok(4) by blast
    have "known ev' req s2" using dup [OF run] assms(4) by (simp add: known_def)
    from known_answer [OF this ok(3), of seg] show ?thesis
      using dup [OF run] processRequest_open(1) [OF ok(2) seg ty ok(1), of ev'] by simp
  qed
  show ?thesis
    using s1(1-3) known_retry [OF ty assms(4) dup] answered by blast
qed

text \<open>A retry after the next flush.\<close>

theorem retries_are_answered_from_the_table_witness:
  "\<exists>s1. processRequest sample_env sample_put RoleProducer sample_topic_server
        = Some (produce_answer sample_env 0 sample_topic_server, s1)
    \<and> processRequest sample_env sample_put RoleProducer (flushTick no_faults ''test-0'' s1)
      = Some (ok_response 0, flushTick no_faults ''test-0'' s1)"
proof -
  have idem: "idempotent sample_put" by (simp add: idempotent_def sample_put_def new_request_def)
  have ttl: "evNow sample_env \<le> evNow sample_env + imTtl (svProducerSM sample_topic_server)"
    by (simp add: sample_topic_server_def sample_server_def NewServer_def NewOffsetStore_def NewIdempotentManager_def)
  obtain s1 where s1: "processRequest sample_env sample_put RoleProducer sample_topic_server
        = Some (produce_answer sample_env 0 sample_topic_server, s1)"
      and retry: "\<And>s2. (serving_step (evNow sample_env + imTtl (svProducerSM sample_topic_server)))\<^sup>*\<^sup>* s1 s2
        \<Longrightarrow> CanProduce RoleProducer \<Longrightarrow> isLeaderFor (rqTopic sample_put) s2 \<Longrightarrow> accepted sample_env sample_put s2
        \<Longrightarrow> map_of (svTopics s2) (rqTopic sample_put) \<noteq> None \<Longrightarrow> processRequest sample_env sample_put RoleProducer s2 = Some (ok_response 0, s2)"
    using retries_are_answered_from_the_table [OF sample_producible sample_holds sample_new idem] ttl by auto
  let ?s2 = "flushTick no_faults ''test-0'' s1"
  obtain s1' F' P' where s1': "processRequest sample_env sample_put RoleProducer sample_topic_server
        = Some (produce_answer sample_env 0 sample_topic_server, s1')"
      "holds s1' (rqTopic sample_put) F' P'" "config s1' = config sample_topic_server" "svSchemaRegistry s1' = svSchemaRegistry sample_topic_server"
    by (rule produce_request_stores [OF sample_producible sample_holds sample_new]) simp
  then have eq: "s1' = s1" using s1 by simp
  obtain seg where seg: "map_of (svTopics s1) ''test-0'' = Some seg"
    using s1'(2) by (auto simp: holds_def eq sample_put_def new_request_def)
  then have f: "config ?s2 = config sample_topic_server" "svSchemaRegistry ?s2 = svSchemaRegistry sample_topic_server"
      "map_of (svTopics ?s2) (rqTopic sample_put) \<noteq> None"
    using s1'(3,4) by (simp_all add: eq flushTick_def setSegment_def update_conv' sample_put_def new_request_def)
  have p: "CanProduce RoleProducer" "isLeaderFor (rqTopic sample_put) sample_topic_server" "accepted sample_env sample_put sample_topic_server"
    using sample_producible by (simp_all add: producible_def)
  have "processRequest sample_env sample_put RoleProducer ?s2 = Some (ok_response 0, ?s2)"
    by (rule retry [OF r_into_rtranclp [of "serving_step limit" for limit, OF serving_step.tick] p(1)])
      (use f p in \<open>simp_all add: isLeaderFor_cong [OF f(1)] accepted_def\<close>)
  then show ?thesis using s1 by blast
qed

end
