(* ===== verification/Client.thy ===== *)
theory Client
  imports Requests
begin

text \<open>
  The command-line client, \<^verbatim>\<open>cmd/client/main.go\<close>. A connection is a writer's state and the input that will arrive on it; every
  function that dials gets the result of the dial and the connection as arguments. \<^verbatim>\<open>log.Fatalf\<close> ends the process: its message is
  the left value of the result. What is printed is a list of lines. Loops without end are written over the list of their
  rounds. The throughput figures of the benchmarks, which are only printed, are left out.

  The properties put the client together with the broker: it never authenticates, so the broker refuses all it
  sends; and it commits offsets under another name than it fetches them, and as failures.
\<close>

section \<open>Flags and connections\<close>

record client_flags =
  cfMode :: string
  cfBroker :: string
  cfAddr :: string
  cfTopic :: string
  cfMessages :: int
  cfGroup :: string
  cfPartition :: int
  cfConsumerID :: string
  cfLogEnabled :: bool
  cfBenchmark :: string

definition default_flags :: client_flags where
  "default_flags = \<lparr>cfMode = [], cfBroker = ''localhost:9092'', cfAddr = [], cfTopic = [], cfMessages = 1, cfGroup = [],
     cfPartition = - 1, cfConsumerID = [], cfLogEnabled = False, cfBenchmark = []\<rparr>"

type_synonym 's conn = "'s \<times> reader"

text \<open>Writing a request without looking at the error, and reading a response.\<close>

definition send_ignoring :: "'s writer \<Rightarrow> Request \<Rightarrow> 's conn \<Rightarrow> 's conn" where
  "send_ignoring w req c = (snd (WriteRequest w req (fst c)), snd c)"

definition receive :: "'a read_op \<Rightarrow> 's conn \<Rightarrow> (go_error + 'a) \<times> 's conn" where
  "receive rd c = (case rd (snd c) of (res, r) \<Rightarrow> (res, fst c, r))"

text \<open>\<^verbatim>\<open>fmt.Sprintf("%s-%d", t, p)\<close>\<close>

definition partition_topic :: "string \<Rightarrow> int \<Rightarrow> string" where
  "partition_topic t p = t @ ''-'' @ itoa p"

section \<open>Producing\<close>

definition sendProduce ::
  "client_flags \<Rightarrow> 's writer \<Rightarrow> string \<Rightarrow> string \<Rightarrow> string \<Rightarrow> 's conn \<Rightarrow> (string + string list) \<times> 's conn" where
  "sendProduce fl w t k v c =
     (case WriteRequest w (produce_request t (bytes_of k) (bytes_of v)) (fst c) of
        (Some e, st) \<Rightarrow> (Inl (''Failed to write request: '' @ error_text e), st, snd c)
      | (None, st) \<Rightarrow>
          (case receive (ReadResponse False) (st, snd c) of
             (Inl e, c) \<Rightarrow> (Inl (''Failed to read response: '' @ error_text e), c)
           | (Inr resp, c) \<Rightarrow>
               if rsStatus resp = StatusErr then (Inl (''Broker error: '' @ rsErrMsg resp), c)
               else (Inr (if cfLogEnabled fl
                          then [''['' @ cfConsumerID fl @ ''] Produced key='' @ k @ '' to topic='' @ t @ '' at offset='' @ itoa (rsOffset resp)]
                          else []), c)))"

fun produceAll ::
  "client_flags \<Rightarrow> 's writer \<Rightarrow> string \<Rightarrow> (string \<times> string) list \<Rightarrow> 's conn \<Rightarrow> (string + string list) \<times> 's conn" where
  "produceAll fl w t [] c = (Inr [], c)"
| "produceAll fl w t ((k, v) # kvs) c =
     (case sendProduce fl w t k v c of
        (Inl e, c) \<Rightarrow> (Inl e, c)
      | (Inr out, c) \<Rightarrow> apfst (map_sum id ((@) out)) (produceAll fl w t kvs c))"

definition numbered_messages :: "int \<Rightarrow> (string \<times> string) list" where
  "numbered_messages n = map (\<lambda>i. (''key-'' @ itoa i, ''val-'' @ itoa i)) [0..n - 1]"

definition runProduceClient ::
  "client_flags \<Rightarrow> call_fault \<Rightarrow> 's writer \<Rightarrow> string \<Rightarrow> string list \<Rightarrow> 's conn \<Rightarrow> (string + string list) \<times> 's conn" where
  "runProduceClient fl dial w t args c =
     (case dial of
        Some e \<Rightarrow> (Inl (''Failed to connect: '' @ error_text e), c)
      | None \<Rightarrow>
          (let part = (if cfPartition fl = - 1 then 0 else cfPartition fl);
               targetTopic = partition_topic t part
           in if cfMessages fl > 1 \<or> length args < 2 then produceAll fl w targetTopic (numbered_messages (cfMessages fl)) c
              else sendProduce fl w targetTopic (args ! 0) (args ! 1) c))"

section \<open>Groups and offsets\<close>

definition join_request :: "string \<Rightarrow> string \<Rightarrow> string \<Rightarrow> Request" where
  "join_request gID mID t = (new_request ReqJoinGroup [])\<lparr>rqGroupID := gID, rqMemberID := mID, rqTopics := [t]\<rparr>"

definition sync_request :: "string \<Rightarrow> string \<Rightarrow> Request" where
  "sync_request gID mID = (new_request ReqSyncGroup [])\<lparr>rqGroupID := gID, rqMemberID := mID\<rparr>"

text \<open>The status of the answer to the sync is not looked at; an absent assignment is an empty list.\<close>

definition joinGroup ::
  "'s writer \<Rightarrow> string \<Rightarrow> string \<Rightarrow> string \<Rightarrow> 's conn \<Rightarrow> (string + int \<times> int list) \<times> 's conn" where
  "joinGroup w gID mID t c =
     (case WriteRequest w (join_request gID mID t) (fst c) of
        (Some e, st) \<Rightarrow> (Inl (''JoinGroup send failed: '' @ error_text e), st, snd c)
      | (None, st) \<Rightarrow>
     (case receive ReadGroupResponse (st, snd c) of
        (Inl e, c) \<Rightarrow> (Inl (''JoinGroup read failed: '' @ error_text e), c)
      | (Inr resp, c) \<Rightarrow>
          if rsStatus resp = StatusErr then (Inl (''JoinGroup error: '' @ rsErrMsg resp), c)
          else
     (case WriteRequest w (sync_request gID mID) (fst c) of
        (Some e, st) \<Rightarrow> (Inl (''SyncGroup send failed: '' @ error_text e), st, snd c)
      | (None, st) \<Rightarrow>
     (case receive ReadGroupResponse (st, snd c) of
        (Inl e, c) \<Rightarrow> (Inl (''SyncGroup read failed: '' @ error_text e), c)
      | (Inr syncResp, c) \<Rightarrow>
          (Inr (rsGeneration resp,
             case rsAssignment syncResp of None \<Rightarrow> [] | Some ass \<Rightarrow> (case map_of ass t of None \<Rightarrow> [] | Some ps \<Rightarrow> ps)), c)))))"

definition fetch_request :: "string \<Rightarrow> string \<Rightarrow> int \<Rightarrow> Request" where
  "fetch_request gID t p = (new_request ReqOffsetFetch t)\<lparr>rqGroupID := gID, rqPartition := p\<rparr>"

definition fetchStartOffset :: "string \<Rightarrow> call_fault \<Rightarrow> 's writer \<Rightarrow> string \<Rightarrow> int \<Rightarrow> 's conn \<Rightarrow> int \<times> 's conn" where
  "fetchStartOffset gID dial w t p c =
     (if gID = [] \<or> dial \<noteq> None then (0, c)
      else case WriteRequest w (fetch_request gID t p) (fst c) of
          (Some e, st) \<Rightarrow> (0, st, snd c)
        | (None, st) \<Rightarrow>
            (case receive (ReadResponse False) (st, snd c) of
               (Inl e, c) \<Rightarrow> (0, c)
             | (Inr resp, c) \<Rightarrow> (if rsStatus resp = StatusErr \<or> rsOffset resp = - 1 then 0 else rsOffset resp, c)))"

definition commit_request :: "string \<Rightarrow> string \<Rightarrow> int \<Rightarrow> int \<Rightarrow> Request" where
  "commit_request gID partTopic p off =
     (new_request ReqOffsetCommit partTopic)\<lparr>rqGroupID := gID, rqPartition := p, rqOffset := off\<rparr>"

definition commitOffset :: "call_fault \<Rightarrow> 's writer \<Rightarrow> string \<Rightarrow> string \<Rightarrow> int \<Rightarrow> int \<Rightarrow> 's conn \<Rightarrow> 's conn" where
  "commitOffset dial w gID partTopic p off c =
     (if dial \<noteq> None then c else snd (receive (ReadResponse False) (send_ignoring w (commit_request gID partTopic p off) c)))"

section \<open>Consuming\<close>

definition consume_request :: "string \<Rightarrow> int \<Rightarrow> int \<Rightarrow> Request" where
  "consume_request t off maxBytes = (new_request ReqConsume t)\<lparr>rqOffset := off, rqMaxBytes := maxBytes\<rparr>"

definition printRecord :: "client_flags \<Rightarrow> int \<Rightarrow> Record \<Rightarrow> string" where
  "printRecord fl p rec = ''['' @ cfConsumerID fl @ ''] Partition '' @ itoa p @ '': '' @ string_of (recKey rec)
     @ '' => '' @ string_of (recValue rec)"

definition records_of :: "Response \<Rightarrow> Record list" where
  "records_of resp = (case rsRecords resp of None \<Rightarrow> [] | Some rs \<Rightarrow> rs)"

text \<open>The commit goes over a connection of its own, \<open>cc\<close>. The result holds the next offset, what was printed and both
  connections.\<close>

definition executePartitionConsume ::
  "client_flags \<Rightarrow> 's writer \<Rightarrow> string \<Rightarrow> int \<Rightarrow> int \<Rightarrow> call_fault \<Rightarrow> 's conn \<Rightarrow> 's conn
   \<Rightarrow> (go_error + int) \<times> string list \<times> 's conn \<times> 's conn" where
  "executePartitionConsume fl w partTopic off p dial cc c =
     (case WriteRequest w (consume_request partTopic off 1048576) (fst c) of
        (Some e, st) \<Rightarrow> (Inl e, [], (st, snd c), cc)
      | (None, st) \<Rightarrow>
          (case receive (ReadResponse True) (st, snd c) of
             (Inl e, c) \<Rightarrow> (Inl e, [], c, cc)
           | (Inr resp, c) \<Rightarrow>
               if rsStatus resp = StatusErr then (Inl (Err (''broker error: '' @ rsErrMsg resp)), [], c, cc)
               else (Inr (rsOffset resp), map (printRecord fl p) (records_of resp), c,
                     if records_of resp \<noteq> [] \<and> cfGroup fl \<noteq> []
                     then commitOffset dial w (cfGroup fl) partTopic p (rsOffset resp) cc else cc)))"

text \<open>The three brokers in turn; \<open>ds\<close> holds the result of each dial.\<close>

definition leader_candidates :: "string list" where
  "leader_candidates = [''localhost:9092'', ''localhost:9093'', ''localhost:9094'']"

fun tryBrokers :: "'s writer \<Rightarrow> string \<Rightarrow> (string \<Rightarrow> go_error + 's conn) \<Rightarrow> string list \<Rightarrow> go_error + 's conn" where
  "tryBrokers w partTopic dial [] = Inl (Err (''no leader found for partition '' @ partTopic))"
| "tryBrokers w partTopic dial (addr # addrs) =
     (case dial addr of
        Inl e \<Rightarrow> tryBrokers w partTopic dial addrs
      | Inr c \<Rightarrow>
          (case receive (ReadResponse True) (send_ignoring w (consume_request partTopic 0 1) c) of
             (Inl e, c) \<Rightarrow> tryBrokers w partTopic dial addrs
           | (Inr resp, c) \<Rightarrow> if rsStatus resp \<noteq> StatusErr then Inr c else tryBrokers w partTopic dial addrs))"

definition dialPartitionLeader :: "'s writer \<Rightarrow> string \<Rightarrow> (string \<Rightarrow> go_error + 's conn) \<Rightarrow> go_error + 's conn" where
  "dialPartitionLeader w partTopic dial = tryBrokers w partTopic dial leader_candidates"

text \<open>One round of the loop: the dials to the brokers, and the dial and the connection of the commit.\<close>

type_synonym 's consume_round = "(string \<Rightarrow> go_error + 's conn) \<times> call_fault \<times> 's conn"

fun consumeRounds ::
  "client_flags \<Rightarrow> 's writer \<Rightarrow> string \<Rightarrow> int \<Rightarrow> 's consume_round list \<Rightarrow> int \<Rightarrow> string list \<times> int" where
  "consumeRounds fl w partTopic p [] off = ([], off)"
| "consumeRounds fl w partTopic p ((dial, cdial, cc) # rs) off =
     (case dialPartitionLeader w partTopic dial of
        Inl e \<Rightarrow> consumeRounds fl w partTopic p rs off
      | Inr c \<Rightarrow>
          (case executePartitionConsume fl w partTopic off p cdial cc c of
             (res, out, c, cc) \<Rightarrow>
               apfst ((@) out) (consumeRounds fl w partTopic p rs (case res of Inr nextOff \<Rightarrow> nextOff | Inl e \<Rightarrow> off))))"

definition consumePartitionLoop ::
  "client_flags \<Rightarrow> 's writer \<Rightarrow> string \<Rightarrow> int \<Rightarrow> call_fault \<Rightarrow> 's conn \<Rightarrow> 's consume_round list \<Rightarrow> string list \<times> int" where
  "consumePartitionLoop fl w t p dial c rs =
     consumeRounds fl w (partition_topic t p) p rs (fst (fetchStartOffset (cfGroup fl) dial w t p c))"

text \<open>The partitions whose loops are started; none means that the client ends.\<close>

definition runConsumeClient ::
  "client_flags \<Rightarrow> string \<Rightarrow> int \<Rightarrow> call_fault \<Rightarrow> 's writer \<Rightarrow> string \<Rightarrow> 's conn \<Rightarrow> (string + int list) \<times> 's conn" where
  "runConsumeClient fl hostname pid dial w t c =
     (let mID = (if cfConsumerID fl = [] then hostname @ ''-'' @ itoa pid else cfConsumerID fl)
      in case dial of
           Some e \<Rightarrow> (Inl (''Failed to connect: '' @ error_text e), c)
         | None \<Rightarrow>
             if cfGroup fl \<noteq> [] then apfst (map_sum id snd) (joinGroup w (cfGroup fl) mID t c)
             else (let p = int32 (cfPartition fl) in (Inr [if p = - 1 then 0 else p], c)))"

section \<open>Benchmarks\<close>

definition bench_produce :: "string \<Rightarrow> Request" where
  "bench_produce t = produce_request t (bytes_of ''benchkey'') (bytes_of ''benchval'')"

record bench_report =
  brTotal :: int
  brElapsed :: int
  brP50 :: int
  brP95 :: int
  brP99 :: int

text \<open>An index outside the slice panics, which is \<open>None\<close>.\<close>

definition slice_at :: "'a list \<Rightarrow> int \<Rightarrow> 'a option" where
  "slice_at xs i = (if 0 \<le> i \<and> i < int (length xs) then Some (xs ! nat i) else None)"

text \<open>Go's division rounds towards zero.\<close>

definition percentile_index :: "int \<Rightarrow> int \<Rightarrow> int" where
  "percentile_index n q = (if n \<ge> 0 then n * q div 100 else - (- (n * q) div 100))"

definition printProduceBenchmarkReport :: "int \<Rightarrow> int \<Rightarrow> int list \<Rightarrow> bench_report option" where
  "printProduceBenchmarkReport n elapsed latencies =
     (let ls = sort latencies in
      case slice_at ls (percentile_index n 50) of None \<Rightarrow> None | Some p50 \<Rightarrow>
      (case slice_at ls (percentile_index n 95) of None \<Rightarrow> None | Some p95 \<Rightarrow>
      (case slice_at ls (percentile_index n 99) of None \<Rightarrow> None | Some p99 \<Rightarrow>
       Some \<lparr>brTotal = n, brElapsed = elapsed, brP50 = p50, brP95 = p95, brP99 = p99\<rparr>)))"

text \<open>\<open>clock\<close> gives the reading of the monotonic clock at each call: one before the loop, two per message, one at the
  end. A negative count panics when the slice is made.\<close>

fun benchLoop :: "'s writer \<Rightarrow> string \<Rightarrow> (nat \<Rightarrow> int) \<Rightarrow> nat \<Rightarrow> nat \<Rightarrow> 's conn \<Rightarrow> int list \<times> 's conn" where
  "benchLoop w t clock i 0 c = ([], c)"
| "benchLoop w t clock i (Suc n) c =
     (case receive (ReadResponse False) (send_ignoring w (bench_produce t) c) of
        (resp, c) \<Rightarrow> apfst ((#) (clock (2 * i + 2) - clock (2 * i + 1))) (benchLoop w t clock (Suc i) n c))"

definition runProduceBenchmark ::
  "client_flags \<Rightarrow> call_fault \<Rightarrow> 's writer \<Rightarrow> string \<Rightarrow> (nat \<Rightarrow> int) \<Rightarrow> 's conn \<Rightarrow> (string + bench_report) option" where
  "runProduceBenchmark fl dial w t clock c =
     (case dial of
        Some e \<Rightarrow> Some (Inl (''Failed to connect: '' @ error_text e))
      | None \<Rightarrow>
          (let n = cfMessages fl in
           if n < 0 then None
           else map_option Inr (printProduceBenchmarkReport n (clock (2 * nat n + 1) - clock 0) (fst (benchLoop w t clock 0 (nat n) c)))))"

text \<open>The consume benchmark: \<open>nows\<close> are the readings of the clock at the loop condition.\<close>

fun consumeUntil :: "'s writer \<Rightarrow> string \<Rightarrow> int \<Rightarrow> int list \<Rightarrow> int \<Rightarrow> int \<Rightarrow> 's conn \<Rightarrow> int \<times> int \<times> 's conn" where
  "consumeUntil w t deadline [] off consumed c = (consumed, off, c)"
| "consumeUntil w t deadline (now # nows) off consumed c =
     (if now < deadline then
        (case receive (ReadResponse True) (send_ignoring w (consume_request (t @ ''-0'') off 1048576) c) of
           (Inl e, c) \<Rightarrow> consumeUntil w t deadline nows off consumed c
         | (Inr resp, c) \<Rightarrow>
             if rsStatus resp = StatusErr then consumeUntil w t deadline nows off consumed c
             else consumeUntil w t deadline nows (rsOffset resp) (consumed + int (length (records_of resp))) c)
      else (consumed, off, c))"

definition runConsumeBenchmark ::
  "call_fault \<Rightarrow> 's writer \<Rightarrow> string \<Rightarrow> int \<Rightarrow> int list \<Rightarrow> 's conn \<Rightarrow> string + int" where
  "runConsumeBenchmark dial w t start nows c =
     (case dial of
        Some e \<Rightarrow> Inl (''Failed to connect: '' @ error_text e)
      | None \<Rightarrow> Inr (fst (consumeUntil w t (start + 10 * second) nows 0 0 c)))"

section \<open>Command line\<close>

datatype client_command =
    Usage
  | RunProduce string string "string list"
  | RunConsume string string
  | BenchProduce string string
  | BenchConsume string string

definition client_main :: "client_flags \<Rightarrow> string list \<Rightarrow> client_command" where
  "client_main fl args =
     (let bAddr = (if cfAddr fl \<noteq> [] then cfAddr fl else cfBroker fl);
          positional = (cfMode fl = [] \<and> length args \<ge> 2);
          m = (if positional then args ! 0 else cfMode fl);
          t = (if positional then args ! 1 else cfTopic fl);
          payloadArgs = (if positional then drop 2 args else args)
      in if cfBenchmark fl \<noteq> [] then
           (let t = (if t = [] then ''test'' else t)
            in if cfBenchmark fl = ''produce'' then BenchProduce bAddr t else BenchConsume bAddr t)
         else if m = [] \<or> t = [] then Usage
         else if m = ''produce'' then RunProduce bAddr t payloadArgs
         else RunConsume bAddr t)"

section \<open>The client and the broker\<close>

text \<open>Every first request that is not a login is refused.\<close>

lemma refused:
  assumes "wf_request (wire_view req)" "rqType req \<noteq> ReqAuthenticate"
  shows "handleConnection sign secret now evs buffer_write conn (Reader (request_frame req @ rest) e) (s, [])
    = (Closed, s, response_frame (error_response ''authentication required''))"
  using AuthenticateConnection_frame [OF assms(1), of sign secret now rest e] assms(2)
  by (simp add: WriteRequest_buffer handleConnection_def WriteResponse_buffer err_response_def error_response_def)

lemma client_requests:
  assumes "length t < 65536" "length k < 2 ^ 32" "length v < 2 ^ 32" "length g < 65536" "length mID < 65536" "in_int32 p" "in_int64 off"
  shows "wf_request (wire_view (produce_request t k v))" "wf_request (wire_view (join_request g mID t))"
    "wf_request (wire_view (fetch_request g t p))" "wf_request (wire_view (consume_request t off 1048576))"
    "rqType (produce_request t k v) \<noteq> ReqAuthenticate" "rqType (join_request g mID t) \<noteq> ReqAuthenticate"
    "rqType (fetch_request g t p) \<noteq> ReqAuthenticate" "rqType (consume_request t off m) \<noteq> ReqAuthenticate"
  using assms by (simp_all add: wire_view_def wf_request_def new_request_def Let_def Req_defs known_type_def
      in_int32_def in_int64_def processed_ids_def produce_request_def join_request_def fetch_request_def consume_request_def)

section \<open>Properties\<close>

text \<open>\<^bold>\<open>C35\<close>: the client does not log in, so the broker refuses its first request and stays as it is: a producer ends with a
  fatal error, joining a group does, and a consumer starts at offset 0 and never gets a record.\<close>

theorem client_is_refused:
  fixes sign secret now evs conn and s :: Server
  assumes "length t < 65536" "length k < 2 ^ 32" "length v < 2 ^ 32" "length g < 65536" "length mID < 65536" "in_int32 p" "in_int64 off"
  defines "serve \<equiv> \<lambda>frame. handleConnection sign secret now evs buffer_write conn (Reader frame EOF) (s, [])"
  shows "\<exists>reply. serve (request_frame (produce_request t (bytes_of k) (bytes_of v))) = (Closed, s, reply)
      \<and> sendProduce fl buffer_write t k v ([], Reader reply EOF)
        = (Inl ''Broker error: authentication required'', request_frame (produce_request t (bytes_of k) (bytes_of v)), Reader [] EOF)
      \<and> serve (request_frame (join_request g mID t)) = (Closed, s, reply)
      \<and> joinGroup buffer_write g mID t ([], Reader reply EOF)
        = (Inl ''JoinGroup error: authentication required'', request_frame (join_request g mID t), Reader [] EOF)
      \<and> serve (request_frame (fetch_request g t p)) = (Closed, s, reply)
      \<and> fst (fetchStartOffset g None buffer_write t p ([], Reader reply EOF)) = 0
      \<and> serve (request_frame (consume_request t off 1048576)) = (Closed, s, reply)
      \<and> fst (executePartitionConsume fl buffer_write t off p dial cc ([], Reader reply EOF))
        = Inl (Err ''broker error: authentication required'')"
proof -
  let ?e = "error_response ''authentication required''"
  let ?reply = "response_frame ?e"
  have k: "length (bytes_of k) < 2 ^ 32" "length (bytes_of v) < 2 ^ 32" using assms(2,3) by simp_all
  note wf = client_requests [OF assms(1) k assms(4-7)]
  have srv: "serve (request_frame req) = (Closed, s, ?reply)" if "wf_request (wire_view req)" "rqType req \<noteq> ReqAuthenticate" for req
    using refused [OF that, where rest = "[]"] by (simp add: serve_def)
  have rd: "ReadResponse b (Reader ?reply EOF) = (Inr ?e, Reader [] EOF)" "ReadGroupResponse (Reader ?reply EOF) = (Inr ?e, Reader [] EOF)" for b
    using error_response_dec [of "''authentication required''", where rest = "[]" and e = EOF] by simp_all
  have e: "rsStatus ?e = StatusErr" "rsErrMsg ?e = ''authentication required''" by (simp_all add: error_response_def new_response_def)
  show ?thesis
    by (rule exI [of _ ?reply])
      (simp add: srv wf rd e sendProduce_def joinGroup_def fetchStartOffset_def executePartitionConsume_def receive_def WriteRequest_buffer)
qed

theorem client_is_refused_witness:
  "\<exists>reply. handleConnection (\<lambda>_ _. Inr ''tok'') [] 0 (\<lambda>_. sample_env) buffer_write 0
        (Reader (request_frame (produce_request ''t-0'' (bytes_of ''k'') (bytes_of ''v''))) EOF) (sample_server, []) = (Closed, sample_server, reply)
      \<and> fst (sendProduce default_flags buffer_write ''t-0'' ''k'' ''v'' ([], Reader reply EOF)) = Inl ''Broker error: authentication required''"
proof -
  have "length ''t-0'' < 65536" "length ''k'' < (2::nat) ^ 32" "length ''v'' < (2::nat) ^ 32" "length ''g'' < 65536" "length ''m'' < 65536"
    "in_int32 0" "in_int64 0" by (simp_all add: in_int32_def in_int64_def)
  from client_is_refused [OF this, where sign = "\<lambda>_ _. Inr ''tok''" and secret = "[]" and now = 0 and evs = "\<lambda>_. sample_env"
      and conn = 0 and s = sample_server and fl = default_flags and dial = None and cc = "([], Reader [] EOF)"]
  obtain reply where "handleConnection (\<lambda>_ _. Inr ''tok'') [] 0 (\<lambda>_. sample_env) buffer_write 0
        (Reader (request_frame (produce_request ''t-0'' (bytes_of ''k'') (bytes_of ''v''))) EOF) (sample_server, []) = (Closed, sample_server, reply)"
    "fst (sendProduce default_flags buffer_write ''t-0'' ''k'' ''v'' ([], Reader reply EOF)) = Inl ''Broker error: authentication required''"
    by (elim exE conjE) simp
  then show ?thesis by blast
qed

text \<open>The client's commit does not set the success flag and names the partition's topic. When the message at the
  committed offset is already on disk, the broker takes the commit as a failed delivery of that message and redelivers it or
  sends it to the dead letter queue; and the start offset that the client fetches is not the one it committed: it is what it
  was before.\<close>

theorem client_commit_is_a_failure:
  assumes "holds s (partition_topic t p) F P" "0 \<le> off" "off < int (length F)" "F ! nat off = (ts, k, v)"
    and "osBaseDir (svOffsetStore s) \<noteq> []" "plain_key (g, t, p)"
    and "evCommit ev = no_commit_faults" "evFetch ev' = None"
  shows "\<exists>s1. processRequest ev (wire_view (commit_request g (partition_topic t p) p off)) role s = Some (new_response StatusOk, s1)
    \<and> svOutbox s1 = svOutbox s @ [fst (HandleFailure g (partition_topic t p) p off k v (svRetry s))]
    \<and> map_option fst (processRequest ev' (fetch_request g t p) role' s1)
      = map_option fst (processRequest ev' (fetch_request g t p) role' s)"
proof -
  let ?pt = "partition_topic t p"
  define req where "req = wire_view (commit_request g ?pt p off)"
  let ?store = "svOffsetStore s"
  let ?hf = "HandleFailure g ?pt p off k v (svRetry s)"
  let ?s1 = "s\<lparr>svRetry := snd ?hf, svOutbox := svOutbox s @ [fst ?hf],
    svDisk := (svDisk s)(getFilePath ?store g ?pt p \<mapsto> bytes_of (offset_json \<lparr>orOffset = off\<rparr>))\<rparr>"
  have req: "rqType req = ReqOffsetCommit" "\<not> rqSuccess req" "rqProcessedIDs req = Some []" "rqTopic req = ?pt"
      "rqGroupID req = g" "rqPartition req = p" "rqOffset req = off"
    by (simp_all add: req_def wire_view_def commit_request_def new_request_def Let_def Req_defs processed_ids_def)
  obtain seg where seg: "map_of (svTopics s) ?pt = Some seg" "seg_rep seg F P" using assms(1) by (auto simp: holds_def)
  have "drop (nat off) F = (ts, k, v) # drop (Suc (nat off)) F"
    using assms(2-4) by (metis Cons_nth_drop_Suc nat_less_iff)
  then obtain rec recs nxt where rd: "ReadRecords seg off 1024 = ((rec # recs, nxt), None)" "lrKey rec = k" "lrValue rec = v"
    using ReadRecords_rep [OF seg(2), of off 1024] assms(2,3) by (simp add: Let_def)
  have fail: "handleFailedCommit ev req s = Some (s\<lparr>svRetry := snd ?hf, svOutbox := svOutbox s @ [fst ?hf]\<rparr>)"
    by (simp add: handleFailedCommit_def getOrCreateTopicSegment_def req seg(1) rd split: prod.split)
  have "processRequest ev req role s = Some (new_response StatusOk, ?s1)"
    using assms(7) by (simp add: processRequest_def processOffsetRequest_def req fail MarkProcessed_def CommitOffset_def
        no_commit_faults_def Let_def)
  moreover have "getFilePath ?store g t p \<noteq> getFilePath ?store g ?pt p"
    using getFilePath_inject [OF assms(5,6), of g ?pt p] assms(6)
    by (auto simp: plain_key_def partition_topic_def)
  then have "map_option fst (processRequest ev' (fetch_request g t p) role' ?s1)
      = map_option fst (processRequest ev' (fetch_request g t p) role' s)"
    using assms(8) by (simp add: processRequest_def processOffsetRequest_def fetch_request_def new_request_def Req_defs FetchOffset_def
        split: option.split prod.split)
  ultimately show ?thesis unfolding req_def by (intro exI [of _ ?s1]) simp
qed

definition consumed_server :: Server where
  "consumed_server = sample_server\<lparr>svTopics := [(partition_topic ''t'' 0, snd (flush no_faults sample_segment))]\<rparr>"

theorem client_commit_is_a_failure_witness:
  "\<exists>s1. processRequest sample_env (wire_view (commit_request ''g'' (partition_topic ''t'' 0) 0 0)) RoleConsumer consumed_server
      = Some (new_response StatusOk, s1)
    \<and> svOutbox s1 = [Redeliver (2 * second) (partition_topic ''t'' 0) [1] [2]]
    \<and> map_option fst (processRequest sample_env (fetch_request ''g'' ''t'' 0) RoleConsumer s1) = Some (ok_response (- 1))"
proof -
  have h: "holds consumed_server (partition_topic ''t'' 0) [(5, [1], [2])] []"
    using flush_rep(2) [OF sample_segment_rep] by (simp add: holds_def consumed_server_def)
  have "osBaseDir (svOffsetStore consumed_server) \<noteq> []" "plain_key (''g'', ''t'', 0)" "evCommit sample_env = no_commit_faults" "evFetch sample_env = None"
    by (simp_all add: consumed_server_def sample_server_def NewServer_def NewOffsetStore_def plain_key_def plain_def sample_env_def calm_def)
  note main = client_commit_is_a_failure [OF h, of 0 5 "[1]" "[2]", simplified, OF this, of RoleConsumer RoleConsumer]
  have "processRequest sample_env (fetch_request ''g'' ''t'' 0) RoleConsumer consumed_server = Some (ok_response (- 1), consumed_server)"
    by (simp add: processRequest_def processOffsetRequest_def fetch_request_def new_request_def Req_defs FetchOffset_def
        sample_env_def calm_def consumed_server_def sample_server_def NewServer_def NewOffsetStore_def)
  moreover have "svOutbox consumed_server = []" "svRetry consumed_server = GlobalRetryManager"
    by (simp_all add: consumed_server_def sample_server_def NewServer_def NewOffsetStore_def)
  ultimately show ?thesis using main by (simp add: HandleFailure_def GlobalRetryManager_def)
qed

lemma length_filter_sort: "length (filter P (sort xs)) = length (filter P xs)" for xs :: "int list"
  by (metis mset_filter mset_sort size_mset)

lemma sorted_rank:
  fixes xs :: "int list"
  assumes "sorted xs" "i < length xs"
  shows "i < length (filter (\<lambda>x. x \<le> xs ! i) xs)" "length (filter (\<lambda>x. x < xs ! i) xs) \<le> i"
proof -
  have "filter (\<lambda>x. x < xs ! i) (drop i xs) = []"
    using assms by (auto simp: filter_empty_conv in_set_conv_nth not_less intro!: sorted_nth_mono)
  then have "filter (\<lambda>x. x < xs ! i) (take i xs @ drop i xs) = filter (\<lambda>x. x < xs ! i) (take i xs)"
    unfolding filter_append by simp
  then have "filter (\<lambda>x. x < xs ! i) xs = filter (\<lambda>x. x < xs ! i) (take i xs)" by (simp only: append_take_drop_id)
  then show "length (filter (\<lambda>x. x < xs ! i) xs) \<le> i"
    using length_filter_le [of "\<lambda>x. x < xs ! i" "take i xs"] assms(2) by simp
  have "filter (\<lambda>x. x \<le> xs ! i) (take (Suc i) xs) = take (Suc i) xs"
    using assms by (auto simp: filter_id_conv in_set_conv_nth sorted_nth_mono)
  then have "Suc i = length (filter (\<lambda>x. x \<le> xs ! i) (take (Suc i) xs))" using assms(2) by simp
  also have "\<dots> \<le> length (filter (\<lambda>x. x \<le> xs ! i) (take (Suc i) xs @ drop (Suc i) xs))"
    unfolding filter_append by simp
  finally show "i < length (filter (\<lambda>x. x \<le> xs ! i) xs)" by (simp only: append_take_drop_id)
qed

lemma percentile_index_mono: "0 \<le> n \<Longrightarrow> q \<le> r \<Longrightarrow> percentile_index n q \<le> percentile_index n r"
  by (simp add: percentile_index_def zdiv_mono1 mult_left_mono)

lemma percentile_index_less:
  assumes "0 < n" "q < 100"
  shows "percentile_index n q < n"
proof -
  have "n * q < 100 * n" using assms by simp
  then have "n * q div 100 < n" by linarith
  then show ?thesis using assms(1) by (simp add: percentile_index_def)
qed

text \<open>The \<open>q\<close>-th percentile of a sample: an element of it such that at most \<open>q\<close> per cent of the sample are smaller, and more than
  \<open>q\<close> per cent are smaller or equal. There is at most one such value.\<close>

definition percentile :: "int list \<Rightarrow> nat \<Rightarrow> int \<Rightarrow> bool" where
  "percentile xs q p \<longleftrightarrow> p \<in> set xs \<and> 100 * length (filter (\<lambda>x. x < p) xs) \<le> q * length xs
     \<and> q * length xs < 100 * length (filter (\<lambda>x. x \<le> p) xs)"

lemma percentile_unique:
  assumes "percentile xs q p" "percentile xs q p'"
  shows "p = p'"
proof -
  have "\<not> a < b" if "percentile xs q a" "percentile xs q b" for a b
  proof
    assume "a < b"
    then have "length (filter (\<lambda>x. x \<le> a) xs) \<le> length (filter (\<lambda>x. x < b) xs)"
      by (induction xs) auto
    then show False using that by (simp add: percentile_def)
  qed
  then show ?thesis using assms by (meson linorder_neqE)
qed

text \<open>The element of the sorted latencies that the report picks for \<open>q\<close> per cent.\<close>

lemma percentile_rank:
  fixes lat :: "int list"
  assumes "lat \<noteq> []" "q < 100"
  obtains p where "slice_at (sort lat) (percentile_index (int (length lat)) (int q)) = Some p"
    "p = sort lat ! nat (percentile_index (int (length lat)) (int q))" "percentile lat q p"
proof -
  define N where "N = length lat * q"
  define i where "i = N div 100"
  have "N < length lat * 100" using assms by (simp add: N_def)
  then have i: "i < length lat" "N < 100 * (i + 1)" "100 * i \<le> N" by (auto simp: i_def)
  have idx: "percentile_index (int (length lat)) (int q) = int i" by (simp add: percentile_index_def i_def N_def zdiv_int)
  let ?p = "sort lat ! i"
  have "i < length (filter (\<lambda>l. l \<le> ?p) lat)" "length (filter (\<lambda>l. l < ?p) lat) \<le> i"
    using sorted_rank [of "sort lat" i] i(1) by (simp_all add: length_filter_sort)
  then have "q * length lat < 100 * length (filter (\<lambda>l. l \<le> ?p) lat)" "100 * length (filter (\<lambda>l. l < ?p) lat) \<le> q * length lat"
    using i(2,3) unfolding N_def [unfolded mult.commute [of _ q], symmetric] by simp_all
  moreover have "?p \<in> set lat" using i(1) nth_mem [of i "sort lat"] by simp
  ultimately have pc: "percentile lat q ?p" unfolding percentile_def by blast
  have "slice_at (sort lat) (int i) = Some ?p" using i(1) by (simp add: slice_at_def)
  then show thesis by (intro that [of ?p]) (simp_all only: idx nat_int pc)
qed

text \<open>\<^bold>\<open>C33\<close>: the report of a produce benchmark with at least one message exists (no index is out of range), and its three figures
  are the 50th, 95th and 99th percentile of the measured latencies: each is a measured value, at most that many per cent of the
  latencies are below it and more than that many are at most it, which determines it. Without messages the report panics.\<close>

theorem benchmark_percentiles:
  assumes "lat \<noteq> []"
  shows "printProduceBenchmarkReport 0 el [] = None \<and> (\<exists>r. printProduceBenchmarkReport (int (length lat)) el lat = Some r
    \<and> percentile lat 50 (brP50 r) \<and> percentile lat 95 (brP95 r) \<and> percentile lat 99 (brP99 r)
    \<and> brP50 r \<le> brP95 r \<and> brP95 r \<le> brP99 r)"
proof -
  let ?n = "int (length lat)" and ?at = "\<lambda>q. sort lat ! nat (percentile_index (int (length lat)) q)"
  obtain a where a: "slice_at (sort lat) (percentile_index ?n 50) = Some a" "a = ?at 50" "percentile lat 50 a"
    using percentile_rank [OF assms, of 50] by auto
  obtain b where b: "slice_at (sort lat) (percentile_index ?n 95) = Some b" "b = ?at 95" "percentile lat 95 b"
    using percentile_rank [OF assms, of 95] by auto
  obtain c where c: "slice_at (sort lat) (percentile_index ?n 99) = Some c" "c = ?at 99" "percentile lat 99 c"
    using percentile_rank [OF assms, of 99] by auto
  have idx: "0 \<le> percentile_index ?n 50" "percentile_index ?n 50 \<le> percentile_index ?n 95"
      "percentile_index ?n 95 \<le> percentile_index ?n 99" "percentile_index ?n 95 < ?n" "percentile_index ?n 99 < ?n"
    using percentile_index_mono [of ?n] percentile_index_less [of ?n] assms by (simp_all, simp add: percentile_index_def)
  have "a \<le> b" "b \<le> c" unfolding a(2) b(2) c(2) using idx by (auto intro!: sorted_nth_mono)
  with a b c show ?thesis
    by (simp add: printProduceBenchmarkReport_def Let_def slice_at_def [of "[]"] percentile_index_def [of 0])
qed

theorem benchmark_percentiles_witness:
  "\<exists>r. printProduceBenchmarkReport 3 9 [4, 2, 7] = Some r \<and> brP50 r = 4 \<and> brP99 r = 7"
proof -
  obtain r where r: "printProduceBenchmarkReport 3 9 [4, 2, 7] = Some r" "percentile [4, 2, 7] 50 (brP50 r)" "percentile [4, 2, 7] 99 (brP99 r)"
    using benchmark_percentiles [of "[4, 2, 7]" 9] by auto
  moreover have "percentile [4, 2, 7] 50 4" "percentile [4, 2, 7] 99 7" by (simp_all add: percentile_def)
  ultimately show ?thesis using percentile_unique by blast
qed

end
