(* ===== verification/Gateway.thy ===== *)
theory Gateway
  imports Client
begin

text \<open>
  The HTTP gateway, \<^verbatim>\<open>cmd/api-gateway/main.go\<close>: the middleware, the routes and their handlers, each of which opens a
  connection to the broker, logs in as administrator and sends one request. The rules of Go's \<^verbatim>\<open>ServeMux\<close>, the decoding of a JSON
  body into a struct and the encoding of the replies, with base64 for byte slices, are written out. The file server and the
  WebSocket proxy are results of their own, and so is the report of the analyser, whose encoding has a floating-point number.
  A panic of a handler (a nil response is dereferenced) ends the request, not the gateway.

  The properties: nothing reaches the broker without a valid token; and a produce request, through the gateway and the
  broker, is answered with the offset of the message.
\<close>

section \<open>Decoding a struct\<close>

text \<open>Field names are matched without regard to case; besides the ASCII letters, the long s and the Kelvin sign fold to
  ASCII.\<close>

fun fold_field :: "string \<Rightarrow> string" where
  "fold_field [] = []"
| "fold_field (c # cs) =
     (if take 2 (c # cs) = [CHR 0xC5, CHR 0xBF] then CHR ''s'' # fold_field (drop 1 cs)
      else if take 3 (c # cs) = [CHR 0xE2, CHR 0x84, CHR 0xAA] then CHR ''k'' # fold_field (drop 2 cs)
      else (if 65 \<le> code c \<and> code c \<le> 90 then char_of (code c + 32) else c) # fold_field cs)"

type_synonym fields = "(string \<Rightarrow> string) \<times> (string \<Rightarrow> int)"

definition decode_member :: "string list \<Rightarrow> string list \<Rightarrow> fields \<times> bool \<Rightarrow> string \<times> json \<Rightarrow> fields \<times> bool" where
  "decode_member strs ints acc kv =
     (case (acc, kv) of (((sv, iv), bad), (k, v)) \<Rightarrow>
        let n = fold_field k in
        if v = JNull then acc
        else if n \<in> set strs then (case v of JStr x \<Rightarrow> ((sv(n := x), iv), bad) | _ \<Rightarrow> ((sv, iv), True))
        else if n \<in> set ints then (case int_of_json v of Some i \<Rightarrow> ((sv, iv(n := i)), bad) | None \<Rightarrow> ((sv, iv), True))
        else acc)"

text \<open>\<^verbatim>\<open>json.NewDecoder(r.Body).Decode(&body)\<close> for a struct with the given string and \<^verbatim>\<open>int64\<close> fields. A value of the wrong type is an
  error, reported after the other fields are set.\<close>

definition decode_struct :: "string list \<Rightarrow> string list \<Rightarrow> string \<Rightarrow> fields option" where
  "decode_struct strs ints s =
     (case json_first s of
        Some JNull \<Rightarrow> Some (\<lambda>_. [], \<lambda>_. 0)
      | Some (JObj kvs) \<Rightarrow> (case foldl (decode_member strs ints) ((\<lambda>_. [], \<lambda>_. 0), False) kvs of (f, bad) \<Rightarrow> if bad then None else Some f)
      | _ \<Rightarrow> None)"

section \<open>Encoding the replies\<close>

definition b64_char :: "nat \<Rightarrow> char" where
  "b64_char n = ''ABCDEFGHIJKLMNOPQRSTUVWXYZabcdefghijklmnopqrstuvwxyz0123456789+/'' ! n"

fun base64 :: "bytes \<Rightarrow> string" where
  "base64 [] = []"
| "base64 [a] = (let n = unat a in [b64_char (n div 4), b64_char (n mod 4 * 16), CHR ''='', CHR ''=''])"
| "base64 [a, b] = (let n = unat a; m = unat b
     in [b64_char (n div 4), b64_char (n mod 4 * 16 + m div 16), b64_char (m mod 16 * 4), CHR ''=''])"
| "base64 (a # b # c # bs) = (let n = unat a; m = unat b; k = unat c
     in [b64_char (n div 4), b64_char (n mod 4 * 16 + m div 16), b64_char (m mod 16 * 4 + k div 64), b64_char (k mod 64)] @ base64 bs)"

definition enc_wire_record :: "Record \<Rightarrow> string" where
  "enc_wire_record rec = enc_object [(''Timestamp'', itoa (recTimestamp rec)), (''Offset'', itoa (recOffset rec)),
     (''Key'', ''\"'' @ base64 (recKey rec) @ ''\"''), (''Value'', ''\"'' @ base64 (recValue rec) @ ''\"'')]"

section \<open>Requests and replies\<close>

record http_request =
  hrMethod :: string
  hrPath :: string
  hrAuthorization :: string
  hrQuery :: "string \<Rightarrow> string"
  hrBody :: string
  hrRemoteAddr :: string

record http_response =
  hsStatus :: int
  hsType :: string
  hsBody :: string

datatype http_result =
    Reply http_response
  | HandlerPanic
  | Redirect string
  | StaticFile string
  | ProxyTo string string "(string \<times> string) list"
  | Insights AIResponse

definition http_error :: "string \<Rightarrow> int \<Rightarrow> http_result" where
  "http_error msg st = Reply \<lparr>hsStatus = st, hsType = ''text/plain; charset=utf-8'', hsBody = msg @ [CHR 0x0A]\<rparr>"

definition json_reply :: "string \<Rightarrow> http_result" where
  "json_reply body = Reply \<lparr>hsStatus = 200, hsType = ''application/json'', hsBody = body\<rparr>"

definition empty_reply :: "int \<Rightarrow> http_result" where
  "empty_reply st = Reply \<lparr>hsStatus = st, hsType = [], hsBody = []\<rparr>"

text \<open>What the gateway process gets from outside: the token library, the secret, the time, the dial to the broker, the random
  number and the metrics of this process, and whether the directory of the front end exists.\<close>

record gateway_env =
  geParse :: "string \<Rightarrow> (signing_method \<Rightarrow> go_error + bytes) \<Rightarrow> go_error + Claims \<times> bool"
  geSign :: "bytes \<Rightarrow> Claims \<Rightarrow> go_error + string"
  geSecret :: string
  geNow :: int
  geDial :: call_fault
  geRandom :: rat
  geMetrics :: Metrics
  geFrontend :: bool

section \<open>The broker's side of a handler\<close>

definition readAuthError :: "unit read_op" where
  "readAuthError =
     rtry binary_Read_uint16 (\<lambda>errLen.
     rtry (ReadFull (case errLen of Inr n \<Rightarrow> n | Inl e \<Rightarrow> 0)) (\<lambda>errMsgBuf.
     rfail (Err (''auth error: '' @ (case errMsgBuf of Inr bs \<Rightarrow> string_of bs | Inl e \<Rightarrow> [])))))"

definition readAuthResponse :: "unit read_op" where
  "readAuthResponse =
     rbind binary_Read_int32 (\<lambda>totalLen.
     rbind (ReadFull 1) (\<lambda>statusBuf.
     if statusBuf ! 0 = StatusErr then readAuthError
     else
       rbind binary_Read_uint16 (\<lambda>tokenLen.
       rbind (ReadFull tokenLen) (\<lambda>tokenBuf.
       rret ()))))"

definition broker_login :: "'s writer \<Rightarrow> 's conn \<Rightarrow> 's conn" where
  "broker_login w c = snd (receive readAuthResponse (send_ignoring w admin_login c))"

definition gateway_produce :: "fields \<Rightarrow> Request" where
  "gateway_produce body = (case body of (sv, iv) \<Rightarrow> (new_request ReqProduce (sv ''topic''))\<lparr>rqKey := bytes_of (sv ''key''),
     rqValue := bytes_of (sv ''value''), rqMessageID := sv ''message_id'', rqProducerID := iv ''producer_id''\<rparr>)"

definition offset_reply :: "Response \<Rightarrow> http_result" where
  "offset_reply resp = json_reply
     (enc_object [(''offset'', itoa (rsOffset resp)), (''status'', itoa (int (unat (rsStatus resp))))] @ [CHR 0x0A])"

definition handleProduce :: "gateway_env \<Rightarrow> 's writer \<Rightarrow> http_request \<Rightarrow> 's conn \<Rightarrow> http_result \<times> 's conn" where
  "handleProduce ge w r c =
     (if hrMethod r \<noteq> ''POST'' then (http_error ''Method not allowed'' 405, c)
      else case decode_struct [''topic'', ''key'', ''value'', ''message_id''] [''producer_id''] (hrBody r) of
          None \<Rightarrow> (http_error ''Bad request'' 400, c)
        | Some body \<Rightarrow>
            if geDial ge \<noteq> None then (http_error ''Broker unavailable'' 500, c)
            else (case receive (ReadResponse False) (send_ignoring w (gateway_produce body) (broker_login w c)) of
                (Inl e, c) \<Rightarrow> (HandlerPanic, c)
              | (Inr resp, c) \<Rightarrow> (offset_reply resp, c)))"

definition query_int :: "(string \<Rightarrow> string) \<Rightarrow> string \<Rightarrow> int" where
  "query_int q name = (if q name = [] then 0 else case Atoi (q name) of Some n \<Rightarrow> n | None \<Rightarrow> 0)"

definition query_max :: "(string \<Rightarrow> string) \<Rightarrow> int" where
  "query_max q = (if q ''max'' = [] then 100 else case Atoi (q ''max'') of Some n \<Rightarrow> if n > 0 then n else 100 | None \<Rightarrow> 100)"

definition gateway_consume :: "(string \<Rightarrow> string) \<Rightarrow> Request" where
  "gateway_consume q = (new_request ReqConsume (q ''topic''))\<lparr>rqOffset := 0, rqMaxBytes := 1024 * 1024,
     rqStartTime := query_int q ''start_time'', rqEndTime := query_int q ''end_time''\<rparr>"

definition messages_reply :: "int \<Rightarrow> Response \<Rightarrow> http_result" where
  "messages_reply mx resp =
     (if records_of resp = [] then json_reply ''{\"messages\": []}''
      else let recs = (if int (length (records_of resp)) > mx then take (nat mx) (records_of resp) else records_of resp)
        in json_reply (enc_object [(''messages'', ''['' @ join_with '','' (map enc_wire_record recs) @ '']'')] @ [CHR 0x0A]))"

definition handleConsume :: "gateway_env \<Rightarrow> 's writer \<Rightarrow> http_request \<Rightarrow> 's conn \<Rightarrow> http_result \<times> 's conn" where
  "handleConsume ge w r c =
     (if geDial ge \<noteq> None then (http_error ''Broker unavailable'' 503, c)
      else case receive (ReadResponse True) (send_ignoring w (gateway_consume (hrQuery r)) (broker_login w c)) of
          (Inl e, c) \<Rightarrow> (http_error ''Consume failed'' 500, c)
        | (Inr resp, c) \<Rightarrow> (messages_reply (query_max (hrQuery r)) resp, c))"

definition gateway_schema :: "fields \<Rightarrow> Request" where
  "gateway_schema body = (case body of (sv, iv) \<Rightarrow> (new_request ReqRegisterSchema (sv ''topic''))\<lparr>rqSchemaDef := sv ''schema''\<rparr>)"

definition handleSchemas :: "gateway_env \<Rightarrow> 's writer \<Rightarrow> http_request \<Rightarrow> 's conn \<Rightarrow> http_result \<times> 's conn" where
  "handleSchemas ge w r c =
     (if hrMethod r \<noteq> ''POST'' then (http_error ''Method not allowed'' 405, c)
      else case decode_struct [''topic'', ''schema''] [] (hrBody r) of
          None \<Rightarrow> (http_error ''Bad request'' 400, c)
        | Some body \<Rightarrow>
            if geDial ge \<noteq> None then (http_error ''Broker unavailable'' 500, c)
            else (case receive (ReadResponse False) (send_ignoring w (gateway_schema body) (broker_login w c)) of
                (Inl e, c) \<Rightarrow> (HandlerPanic, c)
              | (Inr resp, c) \<Rightarrow> (json_reply (enc_object [(''status'', itoa (int (unat (rsStatus resp))))] @ [CHR 0x0A]), c)))"

section \<open>Handlers that do not use the broker\<close>

definition handleTopics :: "http_request \<Rightarrow> http_result" where
  "handleTopics r =
     (if hrMethod r = ''GET'' then json_reply ''[\"test-0\", \"test-1\"]''
      else if hrMethod r = ''POST'' then empty_reply 201 else empty_reply 200)"

definition handleInsights :: "gateway_env \<Rightarrow> http_request \<Rightarrow> http_result" where
  "handleInsights ge r =
     (if hrMethod r \<noteq> ''GET'' then http_error ''Method not allowed'' 405
      else Insights (AnalyzeCluster (geRandom ge) (geMetrics ge)))"

definition handleHealth :: "http_result" where
  "handleHealth = json_reply ''{\"status\":\"ok\"}''"

definition handleAuth :: "gateway_env \<Rightarrow> http_request \<Rightarrow> http_result" where
  "handleAuth ge r =
     (if hrMethod r \<noteq> ''POST'' then http_error ''Method not allowed'' 405
      else case decode_struct [''username'', ''password''] [] (hrBody r) of
          None \<Rightarrow> http_error ''Bad request'' 400
        | Some (sv, iv) \<Rightarrow>
            if sv ''username'' = ''admin'' \<and> sv ''password'' = ''admin123'' then
              (case GenerateJWT (geSign ge) (geSecret ge) (geNow ge) ''admin'' ''admin'' of
                 Inl e \<Rightarrow> http_error ''Error generating token'' 500
               | Inr token \<Rightarrow> json_reply (enc_object [(''token'', quote token)] @ [CHR 0x0A]))
            else http_error ''Unauthorized'' 401)"

definition handleRoot :: "gateway_env \<Rightarrow> http_request \<Rightarrow> http_result" where
  "handleRoot ge r =
     (if geFrontend ge then StaticFile (hrPath r)
      else if hrPath r \<noteq> ''/'' then http_error ''404 page not found'' 404
      else Reply \<lparr>hsStatus = 200, hsType = ''text/html'', hsBody = ''<html><body><h1>KafkaLite API Gateway</h1>''
        @ ''<p>Frontend not found. Please check the deployment.</p></body></html>''\<rparr>)"

text \<open>The request the proxy sends on: its host, its path and the headers it sets.\<close>

definition proxyWebSocket :: "http_request \<Rightarrow> http_result" where
  "proxyWebSocket r = ProxyTo ''localhost:8083'' (hrPath r)
     [(''X-Forwarded-For'', hrRemoteAddr r), (''X-Forwarded-Proto'', ''https'')]"

section \<open>Routing\<close>

definition HasPrefix :: "string \<Rightarrow> string \<Rightarrow> bool" where
  "HasPrefix s p \<longleftrightarrow> take (length p) s = p"

definition TrimPrefix :: "string \<Rightarrow> string \<Rightarrow> string" where
  "TrimPrefix s p = (if HasPrefix s p then drop (length p) s else s)"

text \<open>\<^verbatim>\<open>ServeMux\<close>: a path that is not clean is redirected, and so is a path that only lacks the slash of a registered
  tree; then the exact patterns come first, \<^verbatim>\<open>/ws/\<close> takes its subtree and \<^verbatim>\<open>/\<close> the rest.\<close>

definition cleanPath :: "string \<Rightarrow> string" where
  "cleanPath p =
     (if p = [] then ''/''
      else let p = (if hd p \<noteq> CHR ''/'' then CHR ''/'' # p else p); np = Clean p
        in if last p = CHR ''/'' \<and> np \<noteq> ''/'' then np @ ''/'' else np)"

definition gatewayMux :: "gateway_env \<Rightarrow> 's writer \<Rightarrow> http_request \<Rightarrow> 's conn \<Rightarrow> http_result \<times> 's conn" where
  "gatewayMux ge w r c =
     (let path = hrPath r; clean = (if hrMethod r = ''CONNECT'' then path else cleanPath path) in
      if clean = ''/ws'' then (Redirect ''/ws/'', c)
      else if clean \<noteq> path then (Redirect clean, c)
      else if path = ''/topics'' then (handleTopics r, c)
      else if path = ''/produce'' then handleProduce ge w r c
      else if path = ''/consume'' then handleConsume ge w r c
      else if path = ''/schemas'' then handleSchemas ge w r c
      else if path = ''/ai/insights'' then (handleInsights ge r, c)
      else if path = ''/health'' then (handleHealth, c)
      else if path = ''/auth'' then (handleAuth ge r, c)
      else if HasPrefix path ''/ws/'' then (proxyWebSocket r, c)
      else if HasPrefix path ''/'' then (handleRoot ge r, c)
      else (http_error ''404 page not found'' 404, c))"

definition public_path :: "string \<Rightarrow> bool" where
  "public_path path \<longleftrightarrow> path = ''/'' \<or> path = ''/favicon.ico'' \<or> path = ''/health'' \<or> path = ''/auth''
     \<or> HasPrefix path ''/ws/'' \<or> HasPrefix path ''/static/'' \<or> HasSuffix path ''.css'' \<or> HasSuffix path ''.js''
     \<or> HasSuffix path ''.png'' \<or> HasSuffix path ''.ico''"

definition authMiddleware ::
  "gateway_env \<Rightarrow> (http_request \<Rightarrow> 's conn \<Rightarrow> http_result \<times> 's conn) \<Rightarrow> http_request \<Rightarrow> 's conn \<Rightarrow> http_result \<times> 's conn" where
  "authMiddleware ge next r c =
     (if public_path (hrPath r) then next r c
      else if hrAuthorization r = [] \<or> \<not> HasPrefix (hrAuthorization r) ''Bearer '' then (http_error ''Unauthorized'' 401, c)
      else case ValidateJWT (geParse ge) (geSecret ge) (TrimPrefix (hrAuthorization r) ''Bearer '') of
          Inl e \<Rightarrow> (http_error ''Unauthorized'' 401, c)
        | Inr claims \<Rightarrow> next r c)"

text \<open>The result carries the headers that every reply gets.\<close>

definition cors_headers :: "(string \<times> string) list" where
  "cors_headers = [(''Access-Control-Allow-Origin'', ''*''), (''Access-Control-Allow-Methods'', ''GET, POST, OPTIONS''),
     (''Access-Control-Allow-Headers'', ''Authorization, Content-Type'')]"

definition corsMiddleware ::
  "(http_request \<Rightarrow> 's conn \<Rightarrow> http_result \<times> 's conn) \<Rightarrow> http_request \<Rightarrow> 's conn \<Rightarrow> (string \<times> string) list \<times> http_result \<times> 's conn" where
  "corsMiddleware next r c = (cors_headers, if hrMethod r = ''OPTIONS'' then (empty_reply 200, c) else next r c)"

definition gateway :: "gateway_env \<Rightarrow> 's writer \<Rightarrow> http_request \<Rightarrow> 's conn \<Rightarrow> (string \<times> string) list \<times> http_result \<times> 's conn" where
  "gateway ge w = corsMiddleware (authMiddleware ge (gatewayMux ge w))"

text \<open>The address to bind: the environment variable \<^verbatim>\<open>PORT\<close> replaces the default only.\<close>

definition bind_address :: "string \<Rightarrow> string \<Rightarrow> string" where
  "bind_address addr portEnv = (if portEnv \<noteq> [] \<and> addr = '':8082'' then '':'' @ portEnv else addr)"

section \<open>Talking to the broker\<close>

lemma readAuthResponse_token:
  assumes "token \<noteq> []" "length token < 65536"
  shows "readAuthResponse (Reader (response_frame (token_reply token) @ rest) e) = (Inr (), Reader rest e)"
proof -
  have ok: "StatusOk \<noteq> StatusErr" by (simp add: StatusOk_def StatusErr_def)
  have frame: "response_frame (token_reply token)
      = enc_i32 (sint (getResponsePayloadSize (token_reply token))) @ StatusOk # enc_str16 token"
    using assms ok by (simp add: response_frame_def response_body_def ok_payload_def token_reply_def new_response_def)
  show ?thesis
    unfolding frame using assms ok
    by (simp add: readAuthResponse_def enc_str16_def rbind_def codec_dec) (simp add: rbind_def codec_dec, simp add: rret_def)
qed

lemma broker_login_answered:
  assumes "token \<noteq> []" "length token < 65536"
  shows "broker_login buffer_write (out, Reader (response_frame (token_reply token) @ rest) e)
    = (out @ request_frame admin_login, Reader rest e)"
  by (simp add: broker_login_def receive_def send_ignoring_def WriteRequest_buffer readAuthResponse_token [OF assms])

lemma gateway_produce_wire:
  "wire_view (gateway_produce body) = gateway_produce body"
  by (cases body) (simp add: wire_view_def gateway_produce_def new_request_def Let_def Req_defs)

lemma admin_login_is_login: "admin_login = login ''admin'' ''admin''"
  by (simp add: admin_login_def login_def)

lemma ok_response_dec:
  "in_int64 off \<Longrightarrow> ReadResponse False (Reader (response_frame (ok_response off) @ rest) e) = (Inr (ok_response off), Reader rest e)"
  using plain_response_dec [of StatusOk off rest e]
  by (simp add: ok_response_def plain_response_def StatusOk_def StatusErr_def)

text \<open>One session of the gateway with the broker: the login and a request, whose response the gateway can read.\<close>

lemma gateway_session:
  assumes "GenerateJWT sign secret now ''admin'' RoleAdmin = Inr token" "token \<noteq> []" "length token < 65536"
    and "session_request req" "\<not> svShutdown s" "processRequest (evs 0) req RoleAdmin s = Some (resp, s')"
    and "ReadResponse isConsume (Reader (response_frame resp) EOF) = (Inr resp, Reader [] EOF)"
  defines "sent \<equiv> request_frame admin_login @ request_frame req"
    and "reply \<equiv> response_frame (token_reply token) @ response_frame resp"
  shows "handleConnection sign secret now evs buffer_write conn (Reader sent EOF) (s, []) = (Closed, s', reply)"
    and "receive (ReadResponse isConsume) (send_ignoring buffer_write req (broker_login buffer_write ([], Reader reply EOF)))
      = (Inr resp, sent, Reader [] EOF)"
proof -
  have wire: "wire_view req = req" using assms(4) by (simp add: session_request_def)
  have "run_requests evs 0 RoleAdmin [req] s = Some ([resp], s')" using assms(6) by simp
  moreover have "credentials_role ''admin'' ''admin'' = Some RoleAdmin" by (simp add: credentials_role_def)
  ultimately show "handleConnection sign secret now evs buffer_write conn (Reader sent EOF) (s, []) = (Closed, s', reply)"
    using session_run [where u = "''admin''" and p = "''admin''" and reqs = "[req]", of RoleAdmin] assms(1,4,5)
    by (simp add: sent_def reply_def admin_login_is_login)
  show "receive (ReadResponse isConsume) (send_ignoring buffer_write req (broker_login buffer_write ([], Reader reply EOF)))
      = (Inr resp, sent, Reader [] EOF)"
    using broker_login_answered [OF assms(2,3)] assms(7)
    by (simp add: reply_def sent_def send_ignoring_def receive_def WriteRequest_buffer wire)
qed

section \<open>Properties\<close>

definition has_token :: "gateway_env \<Rightarrow> http_request \<Rightarrow> bool" where
  "has_token ge r \<longleftrightarrow> HasPrefix (hrAuthorization r) ''Bearer ''
     \<and> (case ValidateJWT (geParse ge) (geSecret ge) (TrimPrefix (hrAuthorization r) ''Bearer '') of Inl _ \<Rightarrow> False | Inr _ \<Rightarrow> True)"

text \<open>Without a valid token in its header a request leaves the connection to the broker alone, whatever its path and method. The preflight
  method is answered with an empty reply, any other request for a path that is not public with 401; and what is sent on to another
  server goes to the feed, under its own path. What the feed makes of it is in \<open>Feed\<close>.\<close>

lemma no_token_no_session:
  assumes "\<not> has_token ge r"
  obtains res where "gateway ge w r c = (cors_headers, res, c)"
    "hrMethod r = ''OPTIONS'' \<Longrightarrow> res = empty_reply 200"
    "\<not> public_path (hrPath r) \<Longrightarrow> hrMethod r \<noteq> ''OPTIONS'' \<Longrightarrow> res = http_error ''Unauthorized'' 401"
    "\<And>host path hdrs. res = ProxyTo host path hdrs \<Longrightarrow> host = ''localhost:8083'' \<and> path = hrPath r \<and> HasPrefix path ''/ws/''"
proof (cases "public_path (hrPath r) \<and> hrMethod r \<noteq> ''OPTIONS''")
  case True
  then have "hrPath r \<notin> {''/produce'', ''/consume'', ''/schemas''}"
    by (auto simp: public_path_def HasPrefix_def HasSuffix_def)
  then have conn: "snd (gatewayMux ge w r c) = c"
    and proxy: "fst (gatewayMux ge w r c) = ProxyTo host path hdrs \<Longrightarrow> host = ''localhost:8083'' \<and> path = hrPath r \<and> HasPrefix path ''/ws/''" for host path hdrs
    by (simp_all add: gatewayMux_def Let_def)
      (auto simp: handleTopics_def handleInsights_def handleHealth_def handleAuth_def handleRoot_def proxyWebSocket_def
        http_error_def json_reply_def empty_reply_def split: if_splits option.splits prod.splits sum.splits)
  from conn have "gatewayMux ge w r c = (fst (gatewayMux ge w r c), c)" by (metis prod.collapse)
  with True have "gateway ge w r c = (cors_headers, fst (gatewayMux ge w r c), c)"
    by (simp add: gateway_def corsMiddleware_def authMiddleware_def)
  then show thesis using that True proxy by blast
next
  case False
  let ?res = "if hrMethod r = ''OPTIONS'' then empty_reply 200 else http_error ''Unauthorized'' 401"
  have "gateway ge w r c = (cors_headers, ?res, c)"
    using assms False by (auto simp: gateway_def corsMiddleware_def authMiddleware_def has_token_def HasPrefix_def split: sum.split)
  then show thesis by (rule that) (auto simp: empty_reply_def http_error_def split: if_splits)
qed

text \<open>A token library that knows one token.\<close>

definition sample_gateway :: gateway_env where
  "sample_gateway = \<lparr>geParse = (\<lambda>tok keyf. if tok = ''tok'' then Inr (\<lparr>clUserID = ''admin'', clRole = ''admin'',
       clExpiresAt = 0, clIssuedAt = 0\<rparr>, True) else Inl (Err ''bad token'')), geSign = (\<lambda>_ _. Inr ''tok''), geSecret = [], geNow = 0,
     geDial = None, geRandom = 0, geMetrics = no_metrics, geFrontend = False\<rparr>"

definition sample_post :: "string \<Rightarrow> http_request" where
  "sample_post auth = \<lparr>hrMethod = ''POST'', hrPath = ''/produce'', hrAuthorization = auth, hrQuery = (\<lambda>_. []),
     hrBody = ''{\"topic\":\"test-0\",\"Key\":\"k\",\"value\":\"v\",\"message_id\":\"m\",\"producer_id\":7}'', hrRemoteAddr = []\<rparr>"

lemma sample_tokens: "\<not> has_token sample_gateway (sample_post ''Bearer no'')" "has_token sample_gateway (sample_post ''Bearer tok'')"
  by (simp_all add: has_token_def sample_gateway_def sample_post_def HasPrefix_def TrimPrefix_def ValidateJWT_def)

text \<open>\<^bold>\<open>C9\<close>: a produce request with a valid token, through the gateway, over the wire and through the broker, appends the message
  to the topic's log and is answered with the offset at which it is stored. With acks other than 0 and 1 this is so when the
  replication succeeds.\<close>

theorem gateway_produce_end_to_end:
  fixes sv :: "string \<Rightarrow> string" and iv :: "string \<Rightarrow> int"
  defines "body \<equiv> (sv, iv)"
  assumes "hrMethod r = ''POST''" "hrPath r = ''/produce''" "has_token ge r" "geDial ge = None"
    and "decode_struct [''topic'', ''key'', ''value'', ''message_id''] [''producer_id''] (hrBody r) = Some body"
    and "wf_request (gateway_produce body)" "\<not> svShutdown s"
    and "GenerateJWT sign secret now ''admin'' RoleAdmin = Inr token" "token \<noteq> []" "length token < 65536"
    and "producible (evs 0) (gateway_produce body) RoleAdmin s" "holds s (sv ''topic'') F P"
    and "\<not> known (evs 0) (gateway_produce body) s" "length (F @ P) < 2 ^ 63"
    and "svAcks s = 0 \<or> svAcks s = 1 \<or> fst (Replicate (evAck (evs 0)) (svRepManager s)) = None"
  shows "\<exists>sent reply s' F' P'.
      gateway ge buffer_write r ([], Reader reply EOF)
      = (cors_headers, json_reply (enc_object [(''offset'', itoa (int (length (F @ P)))), (''status'', itoa 0)] @ [CHR 0x0A]),
         sent, Reader [] EOF)
    \<and> handleConnection sign secret now evs buffer_write conn (Reader sent EOF) (s, []) = (Closed, s', reply)
    \<and> holds s' (sv ''topic'') F' P' \<and> F' @ P' = F @ P @ [(evStamp (evs 0), bytes_of (sv ''key''), bytes_of (sv ''value''))]"
proof -
  let ?req = "gateway_produce body" and ?off = "int (length (F @ P))"
  have f: "rqTopic ?req = sv ''topic''" "rqKey ?req = bytes_of (sv ''key'')" "rqValue ?req = bytes_of (sv ''value'')"
    by (simp_all add: gateway_produce_def new_request_def body_def)
  obtain s' F' P' where p: "processRequest (evs 0) ?req RoleAdmin s = Some (produce_answer (evs 0) ?off s, s')"
      "holds s' (sv ''topic'') F' P'" "F' @ P' = F @ P @ [(evStamp (evs 0), bytes_of (sv ''key''), bytes_of (sv ''value''))]"
    by (rule produce_request_stores [OF assms(12) assms(13) [folded f(1)] assms(14), unfolded f])
  have ans: "produce_answer (evs 0) ?off s = ok_response ?off"
    using assms(16) by (auto simp: produce_answer_def split: option.split)
  have off: "in_int64 ?off" using assms(15) by (simp add: in_int64_def)
  have "rqType ?req = ReqProduce" by (simp add: gateway_produce_def new_request_def body_def)
  then have req: "session_request ?req" using assms(7) by (simp add: session_request_def gateway_produce_wire Req_defs)
  have dec: "ReadResponse False (Reader (response_frame (ok_response ?off)) EOF) = (Inr (ok_response ?off), Reader [] EOF)"
    using ok_response_dec [OF off, of "[]" EOF] by simp
  note ses = gateway_session [where evs = evs, OF assms(9,10,11) req assms(8) p(1) [unfolded ans] dec]
  have clean: "cleanPath ''/produce'' = ''/produce''" by code_simp
  have "hrAuthorization r \<noteq> []" using assms(4) by (auto simp: has_token_def HasPrefix_def)
  with assms(2-6) ses(2) have "gateway ge buffer_write r ([], Reader (response_frame (token_reply token) @ response_frame (ok_response ?off)) EOF)
      = (cors_headers, offset_reply (ok_response ?off), request_frame admin_login @ request_frame ?req, Reader [] EOF)"
    by (simp add: gateway_def corsMiddleware_def authMiddleware_def gatewayMux_def handleProduce_def has_token_def clean
        split: sum.splits)
  moreover have "offset_reply (ok_response ?off)
      = json_reply (enc_object [(''offset'', itoa ?off), (''status'', itoa 0)] @ [CHR 0x0A])"
    by (simp add: offset_reply_def ok_response_def new_response_def StatusOk_def)
  ultimately have "gateway ge buffer_write r ([], Reader (response_frame (token_reply token) @ response_frame (ok_response ?off)) EOF)
      = (cors_headers, json_reply (enc_object [(''offset'', itoa ?off), (''status'', itoa 0)] @ [CHR 0x0A]),
         request_frame admin_login @ request_frame ?req, Reader [] EOF)" by (simp only:)
  with ses(1) [of conn] p(2,3) show ?thesis by blast
qed

definition sample_body :: fields where
  "sample_body = ((\<lambda>_. [])(''topic'' := ''test-0'', ''key'' := ''k'', ''value'' := ''v'', ''message_id'' := ''m''), (\<lambda>_. 0)(''producer_id'' := 7))"

lemma sample_decodes:
  "decode_struct [''topic'', ''key'', ''value'', ''message_id''] [''producer_id''] (hrBody (sample_post auth)) = Some sample_body"
proof -
  have "json_first ''{\"topic\":\"test-0\",\"Key\":\"k\",\"value\":\"v\",\"message_id\":\"m\",\"producer_id\":7}''
      = Some (JObj [(''topic'', JStr ''test-0''), (''Key'', JStr ''k''), (''value'', JStr ''v''), (''message_id'', JStr ''m''), (''producer_id'', JNum ''7'')])"
    by code_simp
  moreover have "fold_field ''topic'' = ''topic''" "fold_field ''Key'' = ''key''" "fold_field ''value'' = ''value''"
      "fold_field ''message_id'' = ''message_id''" "fold_field ''producer_id'' = ''producer_id''" "Atoi ''7'' = Some 7"
    by code_simp+
  ultimately show ?thesis by (simp add: decode_struct_def sample_post_def decode_member_def sample_body_def del: fold_field.simps)
qed

lemma sample_gateway_request:
  "gateway_produce sample_body = (new_request ReqProduce ''test-0'')\<lparr>rqKey := bytes_of ''k'', rqValue := bytes_of ''v'',
     rqMessageID := ''m'', rqProducerID := 7\<rparr>"
  by (simp add: gateway_produce_def sample_body_def)

theorem gateway_produce_end_to_end_witness:
  "\<exists>sent reply s' F' P'.
      gateway sample_gateway buffer_write (sample_post ''Bearer tok'') ([], Reader reply EOF)
      = (cors_headers, json_reply (enc_object [(''offset'', itoa 0), (''status'', itoa 0)] @ [CHR 0x0A]), sent, Reader [] EOF)
    \<and> handleConnection (\<lambda>_ _. Inr ''tok'') [] 0 (\<lambda>_. sample_env) buffer_write 0 (Reader sent EOF) (sample_topic_server, []) = (Closed, s', reply)
    \<and> holds s' ''test-0'' F' P' \<and> F' @ P' = [(5, bytes_of ''k'', bytes_of ''v'')]"
proof -
  let ?req = "gateway_produce sample_body"
  have req: "rqTopic ?req = ''test-0''" "rqKey ?req = bytes_of ''k''" "rqValue ?req = bytes_of ''v''" "evStamp sample_env = 5"
    by (simp_all add: sample_gateway_request new_request_def sample_env_def calm_def)
  have p: "producible sample_env ?req RoleAdmin sample_topic_server"
    using fresh_segment_rep(2) [of "''data/test-0.log''" 65536]
    by (simp add: producible_def sample_gateway_request new_request_def CanProduce_def sample_topic_server_def sample_leads_topic
        room_def sample_env_def calm_def in_int64_def record_bytes_def accepted_def Validate_def sample_labels)
      (simp add: sample_server_def NewServer_def NewOffsetStore_def NewRegistry_def)
  have h: "holds sample_topic_server (fst sample_body ''topic'') [] []"
    using sample_holds by (simp add: sample_body_def sample_put_def new_request_def)
  have k: "\<not> known sample_env ?req sample_topic_server"
    by (simp add: known_def sample_topic_server_def sample_server_def NewServer_def NewOffsetStore_def CheckDuplicate_def
        NewIdempotentManager_def)
  have wf: "wf_request ?req"
    by (simp add: sample_gateway_request wf_request_def new_request_def known_type_def Req_defs in_int32_def in_int64_def processed_ids_def)
  have s: "\<not> svShutdown sample_topic_server" "svAcks sample_topic_server = 0 \<or> svAcks sample_topic_server = 1
      \<or> fst (Replicate (evAck sample_env) (svRepManager sample_topic_server)) = None"
    by (simp_all add: sample_topic_server_def sample_server_def NewServer_def NewOffsetStore_def)
  show ?thesis
    using gateway_produce_end_to_end [where sv = "fst sample_body" and iv = "snd sample_body", unfolded prod.collapse,
        OF _ _ sample_tokens(2) _ sample_decodes wf s(1) _ _ _ p h k _ s(2), of "\<lambda>_ _. Inr ''tok''" "[]" 0 "''tok''" 0]
    by (simp add: req GenerateJWT_def) (simp add: sample_post_def sample_gateway_def sample_body_def)
qed

end
