(* ===== verification/Token_Tools.thy ===== *)
theory Token_Tools
  imports Gateway
begin

text \<open>
  The two remaining programs around tokens: \<^verbatim>\<open>cmd/auth-cli/main.go\<close>, which prints one, and the WebSocket feed of
  \<^verbatim>\<open>internal/monitoring/websocket.go\<close>, which asks for one and then sends a snapshot of the metrics at every tick, as JSON. The
  WebSocket library is an argument: the error of the upgrade and of every write. The endless loop of the feed runs over the list of
  its ticks. Its listener is in \<open>Feed\<close>.

  The lemmas: the feed sends nothing without a valid token, and then exactly the snapshots of its ticks up to the first failed
  write, from whose text a reader gets the counters and, up to \<open>2 ^ 53\<close>, the rates; and a token that the tool prints opens the gateway and the feed that share its secret, for any token library
  that accepts what it has signed.
\<close>

section \<open>The token tool\<close>

record auth_cli_flags =
  acUsername :: string
  acRole :: string
  acSecret :: string

definition default_auth_cli_flags :: auth_cli_flags where
  "default_auth_cli_flags = \<lparr>acUsername = ''admin'', acRole = ''admin'', acSecret = []\<rparr>"

text \<open>\<open>env\<close> is the environment variable \<^verbatim>\<open>JWT_SECRET\<close>, which the flag replaces.\<close>

definition auth_cli_secret :: "auth_cli_flags \<Rightarrow> string \<Rightarrow> string" where
  "auth_cli_secret fl env = (if acSecret fl \<noteq> [] then acSecret fl else env)"

text \<open>The exit status and what is printed.\<close>

definition auth_cli :: "(bytes \<Rightarrow> Claims \<Rightarrow> go_error + string) \<Rightarrow> string \<Rightarrow> int \<Rightarrow> auth_cli_flags \<Rightarrow> int \<times> string" where
  "auth_cli sign env now fl =
     (case GenerateJWT sign (auth_cli_secret fl env) now (acUsername fl) (acRole fl) of
        Inl e \<Rightarrow> (1, ''Error generating token: '' @ error_text e @ [CHR 0x0A])
      | Inr token \<Rightarrow> (0, token @ [CHR 0x0A]))"

section \<open>The feed\<close>

datatype feed_result =
    FeedRefused http_result
  | UpgradeFailed go_error
  | FeedSent "string list"

text \<open>The encoding of a snapshot by \<^verbatim>\<open>encoding/json\<close>, which the library sends as one message.\<close>

definition snapshot_json :: "MetricsSnapshot \<Rightarrow> string" where
  "snapshot_json snap = enc_object [(''messages_produced_total'', itoa (msMessagesProducedTotal snap)),
     (''messages_consumed_total'', itoa (msMessagesConsumedTotal snap)),
     (''produce_rate'', FormatFloat (msProduceRate snap)), (''consume_rate'', FormatFloat (msConsumeRate snap))]"

text \<open>A tick has the collector at that time and the error of the write. The list returned is what arrived; a failed write ends the
  handler.\<close>

fun feedLoop :: "(MetricsCollector \<times> go_error option) list \<Rightarrow> string list" where
  "feedLoop [] = []"
| "feedLoop ((collector, werr) # ticks) =
     (let snap = GetSnapshot collector in
      case werr of Some e \<Rightarrow> [] | None \<Rightarrow> snapshot_json snap # feedLoop ticks)"

definition handleWebSocket ::
  "(string \<Rightarrow> (signing_method \<Rightarrow> go_error + bytes) \<Rightarrow> go_error + Claims \<times> bool) \<Rightarrow> string \<Rightarrow> go_error option
    \<Rightarrow> (MetricsCollector \<times> go_error option) list \<Rightarrow> http_request \<Rightarrow> feed_result" where
  "handleWebSocket jwtParse env upgrade ticks r =
     (let token = hrQuery r ''token'' in
      if token = [] then FeedRefused (http_error ''Unauthorized'' 401)
      else case ValidateJWT jwtParse env token of
          Inl e \<Rightarrow> FeedRefused (http_error ''Unauthorized'' 401)
        | Inr claims \<Rightarrow> (case upgrade of Some e \<Rightarrow> UpgradeFailed e | None \<Rightarrow> FeedSent (feedLoop ticks)))"

section \<open>Lemmas\<close>

lemma feedLoop_until_failure:
  "feedLoop ticks = map (snapshot_json \<circ> GetSnapshot \<circ> fst) (takeWhile (\<lambda>t. snd t = None) ticks)"
  by (induction ticks rule: feedLoop.induct) (auto split: option.split)

text \<open>What a reader finds in a message.\<close>

lemma snapshot_is_read:
  assumes "\<bar>msProduceRate snap\<bar> < 2 ^ 53" "\<bar>msConsumeRate snap\<bar> < 2 ^ 53"
  shows "json_first (snapshot_json snap) = Some (JObj [(''messages_produced_total'', JNum (itoa (msMessagesProducedTotal snap))),
     (''messages_consumed_total'', JNum (itoa (msMessagesConsumedTotal snap))),
     (''produce_rate'', JNum (itoa (msProduceRate snap))), (''consume_rate'', JNum (itoa (msConsumeRate snap)))])"
  using json_first_ints [of "[(''messages_produced_total'', msMessagesProducedTotal snap), (''messages_consumed_total'', msMessagesConsumedTotal snap),
      (''produce_rate'', msProduceRate snap), (''consume_rate'', msConsumeRate snap)]" "[]"] assms
  by (simp add: snapshot_json_def FormatFloat_exact ascii_def)

definition query_token_valid ::
  "(string \<Rightarrow> (signing_method \<Rightarrow> go_error + bytes) \<Rightarrow> go_error + Claims \<times> bool) \<Rightarrow> string \<Rightarrow> http_request \<Rightarrow> bool" where
  "query_token_valid jwtParse env r \<longleftrightarrow> hrQuery r ''token'' \<noteq> [] \<and> \<not> isl (ValidateJWT jwtParse env (hrQuery r ''token''))"

lemma feed_needs_token:
  "handleWebSocket jwtParse env upgrade ticks r =
     (if query_token_valid jwtParse env r
      then case upgrade of Some e \<Rightarrow> UpgradeFailed e
         | None \<Rightarrow> FeedSent (map (snapshot_json \<circ> GetSnapshot \<circ> fst) (takeWhile (\<lambda>t. snd t = None) ticks))
      else FeedRefused (http_error ''Unauthorized'' 401))"
  by (auto simp: handleWebSocket_def query_token_valid_def feedLoop_until_failure Let_def isl_def split: sum.splits option.splits)

text \<open>What the documentation of the token library says of its two functions: a token signed with a key is valid for a reader whose key function
  returns that key for HMAC methods, as long as it has not expired at the time \<open>t\<close> of reading, in seconds.\<close>

definition accepts_own_tokens ::
  "(bytes \<Rightarrow> Claims \<Rightarrow> go_error + string) \<Rightarrow> (string \<Rightarrow> (signing_method \<Rightarrow> go_error + bytes) \<Rightarrow> go_error + Claims \<times> bool) \<Rightarrow> int \<Rightarrow> bool" where
  "accepts_own_tokens sign jwtParse t \<longleftrightarrow>
     (\<forall>key claims token keyf. sign key claims = Inr token \<longrightarrow> keyf SigningMethodHMAC = Inr key \<longrightarrow> t < clExpiresAt claims
        \<longrightarrow> token \<noteq> [] \<and> jwtParse token keyf = Inr (claims, True))"

lemma own_token_valid:
  assumes "accepts_own_tokens sign jwtParse t" "GenerateJWT sign secret now u role = Inr token" "t < numeric_date (now + day)"
  obtains claims where "ValidateJWT jwtParse secret token = Inr claims" "clUserID claims = u" "clRole claims = role" "token \<noteq> []"
proof -
  define claims where "claims = \<lparr>clUserID = u, clRole = role, clExpiresAt = numeric_date (now + day), clIssuedAt = numeric_date now\<rparr>"
  have "sign (getSecret secret) claims = Inr token" using assms(2) by (simp add: GenerateJWT_def claims_def)
  moreover have "t < clExpiresAt claims" using assms(3) by (simp add: claims_def)
  ultimately have tok: "token \<noteq> []" "jwtParse token (keyFunc secret) = Inr (claims, True)"
    using assms(1) by (simp_all add: accepts_own_tokens_def)
  show thesis by (rule that [of claims]) (use tok in \<open>simp_all add: ValidateJWT_def claims_def\<close>)
qed

text \<open>For a day the token printed by the tool is a token for the gateway (in the header) and for the feed (in the query).\<close>

lemma printed_token_opens_doors:
  assumes "accepts_own_tokens sign (geParse ge) t" "auth_cli sign env now fl = (0, token @ [CHR 0x0A])"
    and "auth_cli_secret fl env = geSecret ge" "t < numeric_date (now + day)"
    and "hrAuthorization r = ''Bearer '' @ token" "hrQuery r ''token'' = token"
  shows "has_token ge r" "query_token_valid (geParse ge) (geSecret ge) r"
proof -
  have gen: "GenerateJWT sign (geSecret ge) now (acUsername fl) (acRole fl) = Inr token"
    using assms(2,3) by (auto simp: auth_cli_def split: sum.splits)
  obtain claims where "ValidateJWT (geParse ge) (geSecret ge) token = Inr claims" "token \<noteq> []"
    by (rule own_token_valid [OF assms(1) gen assms(4)])
  then show "has_token ge r" "query_token_valid (geParse ge) (geSecret ge) r"
    using assms(5,6) by (simp_all add: has_token_def query_token_valid_def HasPrefix_def TrimPrefix_def)
qed

text \<open>The contract can be met: a library that signs one set of claims.\<close>

definition plain_sign :: "bytes \<Rightarrow> Claims \<Rightarrow> go_error + string" where
  "plain_sign key claims = (if key = bytes_of ''default-secret-change-me'' \<and> clUserID claims = ''admin'' \<and> clRole claims = ''admin''
       \<and> clExpiresAt claims = 86400 \<and> clIssuedAt claims = 0 then Inr ''tok'' else Inl (Err ''not supported''))"

definition plain_parse :: "string \<Rightarrow> (signing_method \<Rightarrow> go_error + bytes) \<Rightarrow> go_error + Claims \<times> bool" where
  "plain_parse token keyf =
     (if token = ''tok'' \<and> keyf SigningMethodHMAC = Inr (bytes_of ''default-secret-change-me'')
      then Inr (\<lparr>clUserID = ''admin'', clRole = ''admin'', clExpiresAt = 86400, clIssuedAt = 0\<rparr>, True)
      else Inl (Err ''bad token''))"

lemma plain_library: "accepts_own_tokens plain_sign plain_parse 100"
  by (auto simp: accepts_own_tokens_def plain_sign_def plain_parse_def split: if_splits)

lemma printed_token_example:
  "auth_cli plain_sign [] 0 default_auth_cli_flags = (0, ''tok'' @ [CHR 0x0A])
    \<and> (\<exists>claims. ValidateJWT plain_parse [] ''tok'' = Inr claims \<and> clRole claims = RoleAdmin)"
proof -
  have gen: "GenerateJWT plain_sign [] 0 ''admin'' ''admin'' = Inr ''tok''"
    by (simp add: GenerateJWT_def plain_sign_def getSecret_def numeric_date_def day_def)
  obtain claims where "ValidateJWT plain_parse [] ''tok'' = Inr claims" "clRole claims = ''admin''"
    by (rule own_token_valid [OF plain_library gen]) (simp add: numeric_date_def day_def)
  with gen show ?thesis by (simp add: auth_cli_def default_auth_cli_flags_def auth_cli_secret_def RoleAdmin_def)
qed

end
