(* ===== verification/Feed.thy ===== *)
theory Feed
  imports Token_Tools Broker_Main
begin

text \<open>
  The web servers of a broker process: \<^verbatim>\<open>startMetricsServer\<close> and the listener of \<^verbatim>\<open>startAdminServer\<close> in \<^verbatim>\<open>cmd/broker/main.go\<close>, and
  \<^verbatim>\<open>StartWebSocketServer\<close> in \<^verbatim>\<open>internal/monitoring/websocket.go\<close>. The state is the default multiplexer of the process and the
  ports in use on its host. The goroutine of the feed runs beside \<^verbatim>\<open>main\<close>: \<open>process_ends\<close> is the set of ways in which the process
  may go on.

  The lemmas: the Prometheus endpoint and the feed share the default multiplexer, so each is served on both ports; and of the three
  fixed ports only that of the feed matters: a second broker on the same host does not stay up, whatever its flags. The property puts
  the gateway and the feed together.
\<close>

section \<open>Multiplexer and ports\<close>

datatype endpoint = PromHandler | FeedHandler

record web =
  wbMux :: "(string \<times> endpoint) list"
  wbPorts :: "int list"

text \<open>\<^verbatim>\<open>http.Handle\<close> on the default multiplexer panics when the pattern is taken; a pattern without a final slash is an exact path.\<close>

definition http_Handle :: "string \<Rightarrow> endpoint \<Rightarrow> web \<Rightarrow> web option" where
  "http_Handle pattern h w =
     (if map_of (wbMux w) pattern = None then Some (w\<lparr>wbMux := (pattern, h) # wbMux w\<rparr>) else None)"

definition listenTCP :: "int \<Rightarrow> web \<Rightarrow> go_error + web" where
  "listenTCP port w =
     (if port \<in> set (wbPorts w) then Inl (Err ''bind: address already in use'') else Inr (w\<lparr>wbPorts := port # wbPorts w\<rparr>))"

text \<open>What a port with a \<^verbatim>\<open>nil\<close> handler answers; \<open>None\<close> is status 404.\<close>

definition default_serve :: "web \<Rightarrow> string \<Rightarrow> endpoint option" where
  "default_serve w path = map_of (wbMux w) path"

section \<open>The servers\<close>

definition startMetricsServer :: "web \<Rightarrow> web option" where
  "startMetricsServer w =
     Option.bind (http_Handle ''/metrics'' PromHandler w) (\<lambda>w.
       Some (case listenTCP 8080 w of Inl e \<Rightarrow> w | Inr w \<Rightarrow> w))"

text \<open>The exit status of the process, if the listener fails.\<close>

definition StartWebSocketServer :: "web \<Rightarrow> (int option \<times> web) option" where
  "StartWebSocketServer w =
     Option.bind (http_Handle ''/ws/metrics'' FeedHandler w) (\<lambda>w.
       Some (case listenTCP 8083 w of Inl e \<Rightarrow> (Some 1, w) | Inr w \<Rightarrow> (None, w)))"

text \<open>The health endpoint has a multiplexer of its own; the error of its listener is dropped.\<close>

definition listenAdmin :: "web \<Rightarrow> web" where
  "listenAdmin w = (case listenTCP 8081 w of Inl e \<Rightarrow> w | Inr w \<Rightarrow> w)"

definition broker_web :: "web \<Rightarrow> (int option \<times> web) option" where
  "broker_web w = Option.bind (startMetricsServer w) (\<lambda>w. map_option (\<lambda>(ex, w). (ex, listenAdmin w)) (StartWebSocketServer w))"

text \<open>\<^verbatim>\<open>main\<close> beside the goroutine of the feed: a failed listener ends the process, unless \<^verbatim>\<open>main\<close> has ended it before.\<close>

definition process_ends :: "web \<Rightarrow> process_state \<Rightarrow> process_state set" where
  "process_ends w p =
     (case broker_web w of
        None \<Rightarrow> {ProcessPanics}
      | Some (None, w') \<Rightarrow> {p}
      | Some (Some ex, w') \<Rightarrow> (case p of ProcessRuns s \<Rightarrow> {ProcessExits ex} | _ \<Rightarrow> {p, ProcessExits ex}))"

text \<open>What a request to one of the ports with the default multiplexer gets: the metrics, the feed, or status 404. The token library, the
  secret and the rest are those of the broker process.\<close>

datatype port_answer = PromMetrics | FeedAnswer feed_result | PageNotFound

definition port_serves ::
  "web \<Rightarrow> (string \<Rightarrow> (signing_method \<Rightarrow> go_error + bytes) \<Rightarrow> go_error + Claims \<times> bool) \<Rightarrow> string \<Rightarrow> go_error option
    \<Rightarrow> (MetricsCollector \<times> go_error option) list \<Rightarrow> http_request \<Rightarrow> port_answer" where
  "port_serves w jwtParse env upgrade ticks r =
     (case default_serve w (hrPath r) of
        None \<Rightarrow> PageNotFound
      | Some PromHandler \<Rightarrow> PromMetrics
      | Some FeedHandler \<Rightarrow> FeedAnswer (handleWebSocket jwtParse env upgrade ticks r))"

section \<open>Lemmas\<close>

text \<open>A process starts with an empty multiplexer.\<close>

definition fresh_process :: "int list \<Rightarrow> web" where
  "fresh_process ports = \<lparr>wbMux = [], wbPorts = ports\<rparr>"

lemmas web_defs = broker_web_def startMetricsServer_def StartWebSocketServer_def listenAdmin_def http_Handle_def listenTCP_def fresh_process_def

lemma broker_web_fresh:
  "broker_web (fresh_process ports) =
     Some (if 8083 \<in> set ports then Some 1 else None,
       \<lparr>wbMux = [(''/ws/metrics'', FeedHandler), (''/metrics'', PromHandler)], wbPorts = filter (\<lambda>p. p \<notin> set ports) [8081, 8083, 8080] @ ports\<rparr>)"
  by (simp add: web_defs)

lemma both_endpoints_on_both_ports:
  assumes "broker_web (fresh_process ports) = Some (ex, w)"
  shows "default_serve w ''/metrics'' = Some PromHandler" "default_serve w ''/ws/metrics'' = Some FeedHandler"
    "default_serve w path \<noteq> None \<Longrightarrow> path \<in> {''/metrics'', ''/ws/metrics''}" "{8080, 8081, 8083} \<subseteq> set (wbPorts w)"
  using assms unfolding broker_web_fresh by (auto simp: default_serve_def split: if_splits)

lemma second_broker_exits:
  assumes "broker_web (fresh_process ports) = Some (ex, w)"
  shows "ProcessRuns s \<notin> process_ends (fresh_process (wbPorts w)) p" "process_ends (fresh_process (wbPorts w)) (ProcessRuns s) = {ProcessExits 1}"
proof -
  have "8083 \<in> set (wbPorts w)" using both_endpoints_on_both_ports(4) [OF assms] by simp
  then show "ProcessRuns s \<notin> process_ends (fresh_process (wbPorts w)) p" "process_ends (fresh_process (wbPorts w)) (ProcessRuns s) = {ProcessExits 1}"
    by (auto simp: process_ends_def broker_web_fresh split: process_state.splits)
qed

text \<open>The other two ports may be taken.\<close>

lemma feed_port_decides: "8083 \<notin> set ports \<Longrightarrow> process_ends (fresh_process ports) p = {p}"
  by (simp add: process_ends_def broker_web_fresh)

section \<open>Properties\<close>

text \<open>\<^bold>\<open>C23\<close>: a request to the gateway with no valid token, neither in the header nor in the query, gets nothing from the broker. It is answered
  without a byte on the gateway's connection to the broker: with 401 when its path is not public, and, whatever the path, with an empty 200 when
  its method is OPTIONS. The paths below \<^verbatim>\<open>/ws/\<close> are public and sent on to port 8083 of the gateway's host; there a broker's
  feed answers the request with 401, and every other such path with 404.\<close>

theorem gateway_needs_token:
  assumes "\<not> has_token ge r" "\<not> query_token_valid jwtParse env r" "broker_web (fresh_process ports) = Some (None, web)"
  shows "\<exists>res. gateway ge w r c = (cors_headers, res, c)
    \<and> (hrMethod r = ''OPTIONS'' \<longrightarrow> res = empty_reply 200)
    \<and> (hrMethod r \<noteq> ''OPTIONS'' \<and> \<not> public_path (hrPath r) \<longrightarrow> res = http_error ''Unauthorized'' 401)
    \<and> (\<forall>host path hdrs. res = ProxyTo host path hdrs \<longrightarrow> host = ''localhost:8083'' \<and> HasPrefix path ''/ws/''
        \<and> port_serves web jwtParse env upgrade ticks (r\<lparr>hrPath := path\<rparr>)
          = (if path = ''/ws/metrics'' then FeedAnswer (FeedRefused (http_error ''Unauthorized'' 401)) else PageNotFound))"
proof -
  obtain res where res: "gateway ge w r c = (cors_headers, res, c)" "hrMethod r = ''OPTIONS'' \<Longrightarrow> res = empty_reply 200"
      "\<not> public_path (hrPath r) \<Longrightarrow> hrMethod r \<noteq> ''OPTIONS'' \<Longrightarrow> res = http_error ''Unauthorized'' 401"
      "\<And>host path hdrs. res = ProxyTo host path hdrs \<Longrightarrow> host = ''localhost:8083'' \<and> path = hrPath r \<and> HasPrefix path ''/ws/''"
    by (rule no_token_no_session [OF assms(1)]) blast
  have same: "r\<lparr>hrPath := hrPath r\<rparr> = r" by simp
  have refused: "handleWebSocket jwtParse env upgrade ticks r = FeedRefused (http_error ''Unauthorized'' 401)"
    using assms(2) by (simp add: feed_needs_token)
  have serves: "port_serves web jwtParse env upgrade ticks r
      = (if hrPath r = ''/ws/metrics'' then FeedAnswer (FeedRefused (http_error ''Unauthorized'' 401)) else PageNotFound)"
    if "HasPrefix (hrPath r) ''/ws/''"
  proof -
    have "hrPath r \<noteq> ''/metrics''" using that by (auto simp: HasPrefix_def)
    then show ?thesis
      using both_endpoints_on_both_ports(2,3) [OF assms(3)] refused
      by (cases "default_serve web (hrPath r)") (auto simp: port_serves_def)
  qed
  have "host = ''localhost:8083'' \<and> HasPrefix path ''/ws/''
        \<and> port_serves web jwtParse env upgrade ticks (r\<lparr>hrPath := path\<rparr>)
          = (if path = ''/ws/metrics'' then FeedAnswer (FeedRefused (http_error ''Unauthorized'' 401)) else PageNotFound)"
    if p: "res = ProxyTo host path hdrs" for host path hdrs
  proof -
    have "host = ''localhost:8083''" "path = hrPath r" "HasPrefix (hrPath r) ''/ws/''" using res(4) [OF p] by auto
    then show ?thesis using serves by (simp only: same simp_thms)
  qed
  then show ?thesis using res(1-3) by blast
qed

text \<open>A connection without a token and a broker whose feed has its port.\<close>

definition sample_ws :: http_request where
  "sample_ws = (sample_post ''Bearer no'')\<lparr>hrMethod := ''GET'', hrPath := ''/ws/metrics''\<rparr>"

theorem gateway_needs_token_witness:
  "\<exists>web res. broker_web (fresh_process []) = Some (None, web)
    \<and> gateway sample_gateway buffer_write sample_ws ([], Reader [] EOF) = (cors_headers, res, [], Reader [] EOF)
    \<and> gateway sample_gateway buffer_write (sample_post ''Bearer no'') ([], Reader [] EOF)
      = (cors_headers, http_error ''Unauthorized'' 401, [], Reader [] EOF)
    \<and> (\<exists>host path hdrs. res = ProxyTo host path hdrs \<and> port_serves web (geParse sample_gateway) [] None [] (sample_ws\<lparr>hrPath := path\<rparr>)
        = FeedAnswer (FeedRefused (http_error ''Unauthorized'' 401)))"
proof -
  have tok: "\<not> has_token sample_gateway sample_ws" using sample_tokens(1) by (simp add: has_token_def sample_ws_def)
  have q: "\<not> query_token_valid (geParse sample_gateway) [] sample_ws" "\<not> query_token_valid (geParse sample_gateway) [] (sample_post ''Bearer no'')"
    by (simp_all add: query_token_valid_def sample_ws_def sample_post_def)
  obtain web where web: "broker_web (fresh_process []) = Some (None, web)" by (simp add: broker_web_fresh)
  have "cleanPath ''/ws/metrics'' = ''/ws/metrics''" by code_simp
  then have g: "gateway sample_gateway buffer_write sample_ws ([], Reader [] EOF) = (cors_headers, proxyWebSocket sample_ws, [], Reader [] EOF)"
    by (simp add: gateway_def corsMiddleware_def authMiddleware_def public_path_def HasPrefix_def gatewayMux_def sample_ws_def Let_def)
  note ws = gateway_needs_token [OF tok q(1) web, where w = buffer_write and c = "([], Reader [] EOF)" and upgrade = None and ticks = "[]"]
  note post = gateway_needs_token [OF sample_tokens(1) q(2) web, where w = buffer_write and c = "([], Reader [] EOF)"]
  have p: "proxyWebSocket sample_ws = ProxyTo ''localhost:8083'' ''/ws/metrics'' [(''X-Forwarded-For'', []), (''X-Forwarded-Proto'', ''https'')]"
    by (simp add: proxyWebSocket_def sample_ws_def sample_post_def)
  have "gateway sample_gateway buffer_write (sample_post ''Bearer no'') ([], Reader [] EOF)
      = (cors_headers, http_error ''Unauthorized'' 401, [], Reader [] EOF)"
    using post by (auto simp: sample_post_def public_path_def HasPrefix_def HasSuffix_def)
  moreover have "port_serves web (geParse sample_gateway) [] None [] (sample_ws\<lparr>hrPath := ''/ws/metrics''\<rparr>)
      = FeedAnswer (FeedRefused (http_error ''Unauthorized'' 401))"
    using ws unfolding g p by simp
  ultimately show ?thesis using web g p by blast
qed

end
