(* ===== verification/Dlq_Replay.thy ===== *)
theory Dlq_Replay
  imports Client
begin

text \<open>
  The replay tool \<^verbatim>\<open>cmd/dlq-replay/main.go\<close>: it reads a dead letter topic and produces its records to the target topic over the
  same connection. The endless loop runs over the list of its rounds, each with whether a stop signal is pending. \<open>None\<close> is
  the panic when the answer to a produce request could not be read.

  On a connection with properly framed answers a round replays every record in order; the login, however, reads the token
  with the reader for plain answers and leaves the rest of it in the stream.
\<close>

section \<open>Operations\<close>

definition replay_line :: "Record \<Rightarrow> Response \<Rightarrow> string list" where
  "replay_line rec resp =
     (if rsStatus resp = StatusOk
      then [''Replayed message offset '' @ itoa (recOffset rec) @ '' from DLQ to target offset '' @ itoa (rsOffset resp)]
      else [])"

fun replayRecords :: "'s writer \<Rightarrow> string \<Rightarrow> Record list \<Rightarrow> int \<Rightarrow> 's conn \<Rightarrow> (string list \<times> int \<times> 's conn) option" where
  "replayRecords w target [] off c = Some ([], off, c)"
| "replayRecords w target (rec # recs) off c =
     (case receive (ReadResponse False) (send_ignoring w (produce_request target (recKey rec) (recValue rec)) c) of
        (Inl e, c) \<Rightarrow> None
      | (Inr pResp, c) \<Rightarrow> map_option (apfst ((@) (replay_line rec pResp))) (replayRecords w target recs (recOffset rec + 1) c))"

definition replayRound :: "'s writer \<Rightarrow> string \<Rightarrow> string \<Rightarrow> int \<Rightarrow> 's conn \<Rightarrow> (string list \<times> int \<times> 's conn) option" where
  "replayRound w source target off c =
     (case receive (ReadResponse True) (send_ignoring w (consume_request source off (1024 * 1024)) c) of
        (Inl e, c) \<Rightarrow> Some ([''Consume error: '' @ error_text e], off, c)
      | (Inr resp, c) \<Rightarrow>
          if rsStatus resp \<noteq> StatusOk then Some ([''Broker error: '' @ rsErrMsg resp], off, c)
          else replayRecords w target (records_of resp) off c)"

fun replayLoop :: "'s writer \<Rightarrow> string \<Rightarrow> string \<Rightarrow> bool list \<Rightarrow> int \<Rightarrow> 's conn \<Rightarrow> (string list \<times> int \<times> 's conn) option" where
  "replayLoop w source target [] off c = Some ([], off, c)"
| "replayLoop w source target (stop # stops) off c =
     (if stop then Some ([''Shutting down dlq-replay...''], off, c)
      else case replayRound w source target off c of
          None \<Rightarrow> None
        | Some (out, off, c) \<Rightarrow> map_option (apfst ((@) out)) (replayLoop w source target stops off c))"

definition replayLogin :: "'s writer \<Rightarrow> 's conn \<Rightarrow> 's conn" where
  "replayLogin w c = snd (receive (ReadResponse False) (send_ignoring w admin_login c))"

datatype replay_end = ReplayUsage | ReplayFatal string | ReplayPanic | ReplayStopped "string list" int

definition replay_main :: "string \<Rightarrow> string \<Rightarrow> call_fault \<Rightarrow> 's writer \<Rightarrow> bool list \<Rightarrow> 's conn \<Rightarrow> replay_end" where
  "replay_main source target dial w stops c =
     (if source = [] \<or> target = [] then ReplayUsage
      else case dial of
          Some e \<Rightarrow> ReplayFatal (''Failed to connect to broker: '' @ error_text e)
        | None \<Rightarrow>
            (case replayLoop w source target stops 0 (replayLogin w c) of
               None \<Rightarrow> ReplayPanic
             | Some (out, off, c) \<Rightarrow>
                 ReplayStopped ((''Replaying messages from '' @ source @ '' to '' @ target @ ''...'') # out) off))"

section \<open>A round\<close>

definition replay_frame :: "string \<Rightarrow> Record \<Rightarrow> bytes" where
  "replay_frame target rec = request_frame (produce_request target (recKey rec) (recValue rec))"

definition next_replay :: "int \<Rightarrow> Record list \<Rightarrow> int" where
  "next_replay off recs = (if recs = [] then off else recOffset (last recs) + 1)"

lemma ok_reply_dec:
  "in_int64 off \<Longrightarrow> ReadResponse False (Reader (response_frame (ok_response off) @ rest) e) = (Inr (ok_response off), Reader rest e)"
  using plain_response_dec [of StatusOk off rest e]
  by (simp add: ok_response_def plain_response_def StatusOk_def StatusErr_def)

lemma replayRecords_answered:
  assumes "length offs = length recs" "list_all in_int64 offs"
  shows "\<exists>out. replayRecords buffer_write target recs off (sent, Reader (concat (map (\<lambda>x. response_frame (ok_response x)) offs) @ rest) e)
    = Some (out, next_replay off recs, sent @ concat (map (replay_frame target) recs), Reader rest e) \<and> length out = length recs"
  using assms
proof (induction recs arbitrary: off offs sent)
  case Nil
  then show ?case by (simp add: next_replay_def)
next
  case (Cons rec recs)
  then obtain o1 os where o: "offs = o1 # os" "in_int64 o1" "length os = length recs" "list_all in_int64 os" by (cases offs) auto
  obtain out where IH: "replayRecords buffer_write target recs (recOffset rec + 1)
      (sent @ replay_frame target rec, Reader (concat (map (\<lambda>x. response_frame (ok_response x)) os) @ rest) e)
    = Some (out, next_replay (recOffset rec + 1) recs, (sent @ replay_frame target rec) @ concat (map (replay_frame target) recs), Reader rest e)"
    "length out = length recs"
    using Cons.IH [OF o(3,4)] by blast
  have "length (replay_line rec (ok_response o1)) = 1" by (simp add: replay_line_def ok_response_def new_response_def)
  moreover have "next_replay (recOffset rec + 1) recs = next_replay off (rec # recs)" by (simp add: next_replay_def)
  ultimately show ?case
    using IH ok_reply_dec [OF o(2)]
    by (intro exI [of _ "replay_line rec (ok_response o1) @ out"])
      (simp add: o(1) receive_def send_ignoring_def WriteRequest_buffer flip: replay_frame_def)
qed

section \<open>Properties\<close>

text \<open>On a connection whose answers are properly framed, a round of the replay sends one consume request at its offset and
  then one produce request to the target for each record it got, in order and unchanged, reads exactly the answers, reports every
  record and goes on behind the last one.\<close>

theorem replay_round_copies:
  assumes "in_int64 nxt" "list_all wf_record recs" "length recs < 4294967296" "length offs = length recs" "list_all in_int64 offs"
  shows "\<exists>out. replayRound buffer_write source target off (sent, Reader (response_frame (records_response StatusOk nxt recs)
        @ concat (map (\<lambda>x. response_frame (ok_response x)) offs) @ rest) e)
    = Some (out, if recs = [] then off else recOffset (last recs) + 1,
        sent @ request_frame (consume_request source off (1024 * 1024))
          @ concat (map (\<lambda>rec. request_frame (produce_request target (recKey rec) (recValue rec))) recs), Reader rest e)
    \<and> length out = length recs"
proof -
  let ?resp = "records_response StatusOk nxt recs"
  have "ReadResponse True (Reader (response_frame ?resp @ rest') e) = (Inr ?resp, Reader rest' e)" for rest'
    using assms(1-3) by (intro records_response_dec) (simp_all add: StatusOk_def StatusErr_def)
  moreover have "rsStatus ?resp = StatusOk" "records_of ?resp = recs"
    by (simp_all add: records_response_def new_response_def records_of_def)
  ultimately show ?thesis
    using replayRecords_answered [OF assms(4,5), of target off "sent @ request_frame (consume_request source off (1024 * 1024))" rest e]
    by (simp add: replayRound_def receive_def send_ignoring_def WriteRequest_buffer next_replay_def replay_frame_def [abs_def])
qed

theorem replay_round_copies_witness:
  "\<exists>out. replayRound buffer_write ''t-dlq'' ''t'' 0 ([], Reader (response_frame (records_response StatusOk 1
          [\<lparr>recTimestamp = 1, recOffset = 0, recKey = [1], recValue = [2]\<rparr>]) @ response_frame (ok_response 7)) EOF)
    = Some (out, 1, request_frame (consume_request ''t-dlq'' 0 (1024 * 1024)) @ request_frame (produce_request ''t'' [1] [2]), Reader [] EOF)
    \<and> length out = 1"
  using replay_round_copies [of 1 "[\<lparr>recTimestamp = 1, recOffset = 0, recKey = [1], recValue = [2]\<rparr>]" "[7]" "''t-dlq''" "''t''" 0 "[]" "[]" EOF]
  by (simp add: in_int64_def wf_record_def)

text \<open>After the login the stream still holds all but six bytes of the token.\<close>

lemma replayLogin_leaves_token:
  assumes "6 \<le> length token"
  shows "replayLogin buffer_write (sent, Reader (response_frame (token_reply token) @ rest) e)
    = (sent @ request_frame admin_login, Reader (bytes_of (drop 6 token) @ rest) e)"
proof -
  have "token_reply token = token_response StatusOk token" by (simp add: token_reply_def token_response_def)
  moreover have "token \<noteq> []" "StatusOk \<noteq> StatusErr" using assms by (auto simp: StatusOk_def StatusErr_def)
  ultimately show ?thesis
    using assms by (simp add: replayLogin_def receive_def send_ignoring_def WriteRequest_buffer response_defs response_shapes
        read_simps enc_str16_def binary_Read_int64_def)
qed

end
