(* ===== verification/Gateway_Consume.thy ===== *)
theory Gateway_Consume
  imports Gateway
begin

text \<open>
  Consuming through the gateway (\<^verbatim>\<open>cmd/api-gateway/main.go\<close>), put together with the broker: what a reader of the HTTP reply sees of
  a topic's log, and what it sees when the broker refuses. The keys and values of a reply are in base64; \<open>unbase64\<close> is what its reader
  does, and inverts it.
\<close>

section \<open>Base64\<close>

definition b64_alphabet :: string where
  "b64_alphabet = ''ABCDEFGHIJKLMNOPQRSTUVWXYZabcdefghijklmnopqrstuvwxyz0123456789+/''"

definition b64_val :: "char \<Rightarrow> nat" where
  "b64_val c = length (takeWhile (\<lambda>x. x \<noteq> c) b64_alphabet)"

fun unbase64 :: "string \<Rightarrow> bytes" where
  "unbase64 (p # q # r # t # cs) =
     (let x = b64_val p; y = b64_val q; z = b64_val r; w = b64_val t in
      if r = CHR ''='' then [word_of_nat (x * 4 + y div 16)]
      else if t = CHR ''='' then [word_of_nat (x * 4 + y div 16), word_of_nat (y mod 16 * 16 + z div 4)]
      else word_of_nat (x * 4 + y div 16) # word_of_nat (y mod 16 * 16 + z div 4) # word_of_nat (z mod 4 * 64 + w) # unbase64 cs)"
| "unbase64 cs = []"

lemma takeWhile_nth: "distinct xs \<Longrightarrow> i < length xs \<Longrightarrow> length (takeWhile (\<lambda>x. x \<noteq> xs ! i) xs) = i"
proof (induction xs arbitrary: i)
  case (Cons x xs)
  then show ?case by (cases i) auto
qed simp

lemma b64_val_char: "n < 64 \<Longrightarrow> b64_val (b64_char n) = n" "n < 64 \<Longrightarrow> b64_char n \<noteq> CHR ''=''"
proof -
  have d: "distinct b64_alphabet" "length b64_alphabet = 64" "CHR ''='' \<notin> set b64_alphabet" by code_simp+
  have nth: "b64_char n = b64_alphabet ! n" by (simp add: b64_char_def b64_alphabet_def)
  show "n < 64 \<Longrightarrow> b64_val (b64_char n) = n" using takeWhile_nth [OF d(1)] d(2) by (simp add: nth b64_val_def)
  show "n < 64 \<Longrightarrow> b64_char n \<noteq> CHR ''=''" using nth_mem [of n b64_alphabet] d(2,3) unfolding nth by metis
qed

lemma split_byte:
  fixes n m :: nat
  shows "m < 16 \<Longrightarrow> (n mod 4 * 16 + m) div 16 = n mod 4" "m < 16 \<Longrightarrow> (n * 16 + m) mod 16 = m"
    "m < 4 \<Longrightarrow> (n * 4 + m) div 4 = n" "m < 4 \<Longrightarrow> (n * 4 + m) mod 4 = m"
  by simp_all

lemma sextet_less:
  fixes n m :: nat
  shows "m < 16 \<Longrightarrow> n mod 4 * 16 + m < 64" "m < 4 \<Longrightarrow> n mod 16 * 4 + m < 64"
  using mod_less_divisor [of 4 n] mod_less_divisor [of 16 n] by linarith+

lemma byte_less: "unat (a :: byte) < 256"
  using unsigned_less [of a, where ?'a = nat] by simp

lemma unbase64_base64: "unbase64 (base64 bs) = bs"
proof (induction bs rule: base64.induct)
  case (2 a)
  show ?case using byte_less [of a] by (simp add: Let_def b64_val_char del: of_nat_add of_nat_mult)
next
  case (3 a b)
  show ?case using byte_less [of a] byte_less [of b] sextet_less split_byte [of "unat b div 16"] split_byte [of 0 "unat b mod 16"]
    by (simp add: Let_def b64_val_char less_mult_imp_div_less del: of_nat_add of_nat_mult)
next
  case (4 a b c bs)
  show ?case using 4 byte_less [of a] byte_less [of b] byte_less [of c] sextet_less split_byte [of "unat b div 16"] split_byte [of "unat c div 64" "unat b mod 16"]
    by (simp add: Let_def b64_val_char less_mult_imp_div_less del: of_nat_add of_nat_mult)
qed simp

section \<open>Consuming\<close>

lemma gateway_consume_wire: "wire_view (gateway_consume q) = gateway_consume q"
  by (simp add: wire_view_def gateway_consume_def new_request_def Let_def Req_defs)

lemma collect_fits:
  assumes "b + int (length (enc_msgs ms)) \<le> maxBytes"
  shows "collect maxBytes b off ms = records_from off ms"
  using assms
proof (induction off ms arbitrary: b rule: records_from.induct)
  case (2 off ts k v ms)
  have pos: "0 < int (length (record_bytes ts k v))" by (simp add: record_bytes_def)
  have "length (enc_msgs ((ts, k, v) # ms)) = length (record_bytes ts k v) + length (enc_msgs ms)" by simp
  then have "\<not> maxBytes \<le> b" using 2(2) pos by linarith
  then show ?case using 2(1) [of "b + int (length (record_bytes ts k v))"] 2(2) by simp
qed simp

lemma records_from_wf:
  assumes "list_all wf_msg ms" "0 \<le> off" "off + int (length ms) < 2 ^ 63"
  shows "list_all (wf_record \<circ> wireRecord) (records_from off ms)"
  using assms by (induction off ms rule: records_from.induct) (auto simp: wf_record_def wireRecord_def in_int64_def)

text \<open>The messages of a time window, as records on the wire; zero leaves a side of the window open.\<close>

definition window :: "int \<Rightarrow> int \<Rightarrow> LogRecord list \<Rightarrow> Record list" where
  "window st en rs = map wireRecord (filter (\<lambda>r. (0 < st \<longrightarrow> st \<le> lrTimestamp r) \<and> (0 < en \<longrightarrow> lrTimestamp r \<le> en)) rs)"

lemma window_length: "length (window st en rs) \<le> length rs"
  by (simp add: window_def)

definition messages_json :: "Record list \<Rightarrow> string" where
  "messages_json recs =
     (if recs = [] then ''{\"messages\": []}''
      else enc_object [(''messages'', ''['' @ join_with '','' (map enc_wire_record recs) @ '']'')] @ [CHR 0x0A])"

lemma messages_reply_json: "0 < mx \<Longrightarrow> messages_reply mx (records_response st off recs) = json_reply (messages_json (take (nat mx) recs))"
  by (auto simp: messages_reply_def messages_json_def records_of_def records_response_def new_response_def Let_def)

lemma query_max_pos: "0 < query_max q"
  by (auto simp: query_max_def split: option.split)

text \<open>The broker's answer to the gateway's request.\<close>

lemma consume_answer:
  assumes "isLeaderFor (q ''topic'') s" "holds s (q ''topic'') F P" "int (length (enc_msgs F)) \<le> 1024 * 1024"
    and "evLabel ev (q ''topic'')"
  obtains s' where "processRequest ev (gateway_consume q) RoleAdmin s
      = Some (records_response StatusOk (int (length F)) (window (query_int q ''start_time'') (query_int q ''end_time'') (records_from 0 F)), s')"
    "svTopics s' = svTopics s"
proof -
  let ?req = "gateway_consume q"
  have r: "rqTopic ?req = q ''topic''" "rqType ?req = ReqConsume" "rqOffset ?req = 0" "rqMaxBytes ?req = 1024 * 1024"
    "rqStartTime ?req = query_int q ''start_time''" "rqEndTime ?req = query_int q ''end_time''"
    by (simp_all add: gateway_consume_def new_request_def)
  obtain seg where seg: "map_of (svTopics s) (q ''topic'') = Some seg" "seg_rep seg F P" using assms(2) by (auto simp: holds_def)
  have "ReadRecords seg 0 (1024 * 1024) = ((records_from 0 F, int (length F)), None)"
    using ReadRecords_rep [OF seg(2), of 0 "1024 * 1024"] collect_fits [of 0 F "1024 * 1024" 0] assms(3) by (simp add: Let_def)
  moreover have "keepRecord ?req = (\<lambda>r. (0 < query_int q ''start_time'' \<longrightarrow> query_int q ''start_time'' \<le> lrTimestamp r)
      \<and> (0 < query_int q ''end_time'' \<longrightarrow> lrTimestamp r \<le> query_int q ''end_time''))"
    by (auto simp: keepRecord_def r fun_eq_iff)
  moreover have "processRequest ev ?req RoleAdmin s = handleConsumeRequest ev ?req seg s"
    using processRequest_open(2) [of ?req s seg RoleAdmin] assms(1) seg(1) r by (simp add: CanConsume_def)
  ultimately show thesis
    by (intro that [of "s\<lparr>svMetrics := the (RecordConsume (evLabel ev) (q ''topic'') (length F) (svMetrics s))\<rparr>"])
      (simp_all add: handleConsumeRequest_def r records_response_def window_def assms(4) RecordConsume_def Let_def)
qed

section \<open>Properties\<close>

text \<open>\<^bold>\<open>C10\<close>: a consume request with a valid token, through the gateway, over the wire and through the broker, is answered with
  the flushed messages of the topic in the requested window of time, in order and each with its offset, cut to the requested
  number; and it changes no log. (The gateway asks for a megabyte; this is for logs within that size.)\<close>

theorem gateway_consume_end_to_end:
  fixes q :: "string \<Rightarrow> string"
  assumes "hrMethod r \<noteq> ''OPTIONS''" "hrPath r = ''/consume''" "hrQuery r = q" "has_token ge r" "geDial ge = None"
    and "wf_request (gateway_consume q)" "\<not> svShutdown s"
    and "GenerateJWT sign secret now ''admin'' RoleAdmin = Inr token" "token \<noteq> []" "length token < 65536"
    and "isLeaderFor (q ''topic'') s" "holds s (q ''topic'') F P" "length (enc_msgs F) \<le> 1024 * 1024"
    and "evLabel (evs 0) (q ''topic'')"
  shows "\<exists>sent reply s'.
      gateway ge buffer_write r ([], Reader reply EOF)
      = (cors_headers, json_reply (messages_json (take (nat (query_max q))
           (window (query_int q ''start_time'') (query_int q ''end_time'') (records_from 0 F)))), sent, Reader [] EOF)
    \<and> handleConnection sign secret now evs buffer_write conn (Reader sent EOF) (s, []) = (Closed, s', reply)
    \<and> svTopics s' = svTopics s"
proof -
  let ?req = "gateway_consume q" and ?recs = "window (query_int q ''start_time'') (query_int q ''end_time'') (records_from 0 F)"
  let ?resp = "records_response StatusOk (int (length F)) ?recs"
  have size: "int (length (enc_msgs F)) \<le> 1024 * 1024" using assms(13) by linarith
  obtain s' where s': "processRequest (evs 0) ?req RoleAdmin s = Some (?resp, s')" "svTopics s' = svTopics s"
    by (rule consume_answer [where q = q, OF assms(11,12) size assms(14)])
  have F: "list_all wf_msg F" "length F \<le> 1024 * 1024"
    using assms(12,13) length_enc_msgs [of F] by (auto simp: holds_def seg_rep_def file_rep_def)
  have "list_all wf_record ?recs"
    using records_from_wf [OF F(1), of 0] F(2) by (auto simp: window_def list_all_iff)
  moreover have "length ?recs < 4294967296"
    using F(2) window_length [of "query_int q ''start_time''" "query_int q ''end_time''" "records_from 0 F"] by simp
  ultimately have dec: "ReadResponse True (Reader (response_frame ?resp) EOF) = (Inr ?resp, Reader [] EOF)"
    using records_response_dec [of StatusOk "int (length F)" ?recs "[]" EOF] F(2)
    by (simp add: StatusOk_def StatusErr_def in_int64_def)
  have "rqType ?req = ReqConsume" by (simp add: gateway_consume_def new_request_def)
  then have req: "session_request ?req" using assms(6) by (simp add: session_request_def gateway_consume_wire Req_defs)
  note ses = gateway_session [where evs = evs, OF assms(8,9,10) req assms(7) s'(1) dec]
  have clean: "cleanPath ''/consume'' = ''/consume''" by code_simp
  have mux: "gatewayMux ge buffer_write r c = handleConsume ge buffer_write r c" for c :: "bytes conn"
    using assms(2) by (cases "hrMethod r = ''CONNECT''") (simp_all add: gatewayMux_def Let_def clean)
  have "hrAuthorization r \<noteq> []" using assms(4) by (auto simp: has_token_def HasPrefix_def)
  then have "gateway ge buffer_write r ([], Reader (response_frame (token_reply token) @ response_frame ?resp) EOF)
      = (cors_headers, messages_reply (query_max q) ?resp, request_frame admin_login @ request_frame ?req, Reader [] EOF)"
    using assms(1-5) ses(2)
    by (simp add: gateway_def corsMiddleware_def authMiddleware_def mux handleConsume_def has_token_def split: sum.splits)
  then show ?thesis using ses(1) [of conn] s'(2) unfolding messages_reply_json [OF query_max_pos] by blast
qed

definition sample_query :: "string \<Rightarrow> string" where
  "sample_query = (\<lambda>_. [])(''topic'' := ''test-0'')"

definition sample_consume :: http_request where
  "sample_consume = (sample_post ''Bearer tok'')\<lparr>hrMethod := ''GET'', hrPath := ''/consume'', hrQuery := sample_query\<rparr>"

definition sample_flushed_server :: Server where
  "sample_flushed_server = sample_server\<lparr>svTopics := [(''test-0'', snd (flush no_faults sample_segment))]\<rparr>"

theorem gateway_consume_end_to_end_witness:
  "\<exists>sent reply s'. gateway sample_gateway buffer_write sample_consume ([], Reader reply EOF)
      = (cors_headers, json_reply (''{\"messages\":[{\"Timestamp\":5,\"Offset\":0,\"Key\":\"AQ==\",\"Value\":\"Ag==\"}]}'' @ [CHR 0x0A]), sent, Reader [] EOF)
    \<and> handleConnection (\<lambda>_ _. Inr ''tok'') [] 0 (\<lambda>_. sample_env) buffer_write 0 (Reader sent EOF) (sample_flushed_server, []) = (Closed, s', reply)"
proof -
  have r: "hrMethod sample_consume \<noteq> ''OPTIONS''" "hrPath sample_consume = ''/consume''" "hrQuery sample_consume = sample_query"
    "geDial sample_gateway = None" by (simp_all add: sample_consume_def sample_gateway_def)
  have tok: "has_token sample_gateway sample_consume"
    using sample_tokens(2) by (simp add: has_token_def sample_consume_def)
  have q: "sample_query ''topic'' = ''test-0''" "query_int sample_query ''start_time'' = 0" "query_int sample_query ''end_time'' = 0"
    "query_max sample_query = 100" by (simp_all add: sample_query_def query_int_def query_max_def)
  have wf: "wf_request (gateway_consume sample_query)"
    by (simp add: gateway_consume_def q wf_request_def new_request_def known_type_def Req_defs in_int32_def in_int64_def processed_ids_def)
  have sh: "\<not> svShutdown sample_flushed_server"
    by (simp add: sample_flushed_server_def sample_server_def NewServer_def NewOffsetStore_def)
  have lead: "isLeaderFor (sample_query ''topic'') sample_flushed_server"
    using sample_leads_topic by (simp add: q sample_flushed_server_def)
  have h: "holds sample_flushed_server (sample_query ''topic'') [(5, [1], [2])] []"
    using segment.commit_rep [OF sample_segment_rep] by (simp add: holds_def q sample_flushed_server_def)
  have size: "length (enc_msgs [(5, [1], [2])]) \<le> 1024 * 1024" by (simp add: record_bytes_def)
  have lab: "evLabel sample_env (sample_query ''topic'')" by (simp add: q sample_env_def calm_def sample_labels)
  have json: "messages_json (take (nat 100) (window 0 0 (records_from 0 [(5, [1], [2])])))
      = ''{\"messages\":[{\"Timestamp\":5,\"Offset\":0,\"Key\":\"AQ==\",\"Value\":\"Ag==\"}]}'' @ [CHR 0x0A]"
    by code_simp
  show ?thesis
    using gateway_consume_end_to_end [where sign = "\<lambda>_ _. Inr ''tok''" and secret = "[]" and now = 0 and token = "''tok''" and conn = 0 and evs = "\<lambda>_. sample_env",
      OF r(1-3) tok r(4) wf sh _ _ _ lead h size lab, unfolded q json] by (simp add: GenerateJWT_def) blast
qed

text \<open>An error of the broker, such as that it does not lead the partition, looks like an empty topic.\<close>

lemma gateway_consume_hides_errors:
  assumes "geDial ge = None" "receive (ReadResponse True) (send_ignoring w (gateway_consume (hrQuery r)) (broker_login w c)) = (Inr (error_response msg), c')"
  shows "handleConsume ge w r c = (json_reply ''{\"messages\": []}'', c')"
  using assms by (simp add: handleConsume_def messages_reply_def records_of_def error_response_def new_response_def)

end
