(* ===== verification/Failover.thy ===== *)
theory Failover
  imports Controller
begin

text \<open>
  What a round of \<^verbatim>\<open>checkFailover\<close> does, as a specification without iteration: \<open>failover_spec\<close> gives the new cache and the new
  file from the old ones, as maps from partitions to leaders. The code reads and writes the file once per partition and in the order
  in which Go happens to iterate over its map; \<open>checkFailover_refines\<close> shows that it implements the specification in every order. The
  other properties of failover are read off the specification.
\<close>

section \<open>Specification\<close>

text \<open>The partitions that the broker believes to be led by a dead one, and those of them that are so on file too.\<close>

definition suspects :: "int \<Rightarrow> int \<Rightarrow> (int \<times> int) list \<Rightarrow> (string \<rightharpoonup> int) \<Rightarrow> string set" where
  "suspects b now active cache = {k. \<exists>l. cache k = Some l \<and> l \<noteq> b \<and> \<not> alive now active l}"

definition orphans :: "int \<Rightarrow> (int \<times> int) list \<Rightarrow> string set \<Rightarrow> (string \<rightharpoonup> int) \<Rightarrow> string set" where
  "orphans now active K merged = {k \<in> K. \<forall>l. merged k = Some l \<longrightarrow> \<not> alive now active l}"

definition claim :: "int \<Rightarrow> string set \<Rightarrow> (string \<rightharpoonup> int) \<Rightarrow> string \<rightharpoonup> int" where
  "claim b D merged = (\<lambda>k. if k \<in> D then Some b else merged k)"

definition failover_spec ::
  "int \<Rightarrow> int \<Rightarrow> (int \<times> int) list \<Rightarrow> (string \<rightharpoonup> int) \<Rightarrow> (string \<rightharpoonup> int) \<Rightarrow> (string \<rightharpoonup> int) \<times> (string \<rightharpoonup> int)" where
  "failover_spec b now active cache file =
     (let K = suspects b now active cache; merged = cache ++ file; D = orphans now active K merged in
      if K = {} \<or> lowestActive now b active \<noteq> b then (cache, file)
      else (claim b D merged, if D = {} then file else claim b D merged))"

lemma failover_spec_keeps:
  assumes "failover_spec b now active cache file = (cache', file')" "file k = Some l"
  shows "file' k = Some l \<or> (file' k = Some b \<and> \<not> alive now active l \<and> lowestActive now b active = b)"
proof -
  have "(cache ++ file) k = Some l" using assms(2) by simp
  then show ?thesis using assms by (auto simp: failover_spec_def Let_def claim_def orphans_def split: if_splits)
qed

lemma failover_spec_claims:
  assumes "failover_spec b now active cache file = (cache', file')" "lowestActive now b active = b"
    and "cache k = Some l" "l \<noteq> b" "\<not> alive now active l" "file k = Some l0" "\<not> alive now active l0"
  shows "cache' k = Some b" "file' k = Some b"
proof -
  let ?K = "suspects b now active cache" and ?M = "cache ++ file"
  have "k \<in> ?K" using assms(3-5) by (auto simp: suspects_def)
  moreover have "?M k = Some l0" using assms(6) by simp
  ultimately have D: "k \<in> orphans now active ?K ?M" "?K \<noteq> {}" using assms(7) by (auto simp: orphans_def)
  then have "orphans now active ?K ?M \<noteq> {}" by blast
  then have "failover_spec b now active cache file = (claim b (orphans now active ?K ?M) ?M, claim b (orphans now active ?K ?M) ?M)"
    using assms(2) D(2) by (simp add: failover_spec_def Let_def)
  then show "cache' k = Some b" "file' k = Some b" using assms(1) D(1) by (auto simp: claim_def)
qed

section \<open>One takeover\<close>

lemma executeFailover_not_lowest:
  "lowestActive now (ctBrokerID c) active \<noteq> ctBrokerID c \<Longrightarrow> executeFailover opn flt now k active (c, d) = Some (c, d)"
  by (simp add: executeFailover_def)

lemma executeFailover_lowest:
  assumes wf: "wf_controller c" and f: "on_file (ctLeadersPath c) m d" and k: "ascii k"
    and low: "lowestActive now (ctBrokerID c) active = ctBrokerID c"
    and l: "(map_of (leaders c) ++ map_of m) k = Some l"
  obtains c' d' m' where
    "executeFailover None no_save_faults now k active (c, d) = Some (c', d')"
    "wf_controller c'" "on_file (ctLeadersPath c') m' d'"
    "ctBrokerID c' = ctBrokerID c" "ctLeadersPath c' = ctLeadersPath c" "ctActiveNodes c' = ctActiveNodes c"
    "map_of (leaders c') = (if alive now active l then map_of (leaders c) ++ map_of m
       else (map_of (leaders c) ++ map_of m)(k \<mapsto> ctBrokerID c))"
    "map_of m' = (if alive now active l then map_of m else map_of (leaders c'))"
proof -
  obtain c1 where c1: "loadLeaders None no_save_faults (c, d) = Some (c1, d)" "wf_controller c1"
      "ctBrokerID c1 = ctBrokerID c" "ctLeadersPath c1 = ctLeadersPath c" "ctActiveNodes c1 = ctActiveNodes c"
      "map_of (leaders c1) = map_of (leaders c) ++ map_of m"
    by (rule loadLeaders_file [OF wf f])
  have curr: "map_of (leaders c1) k = Some l" using l c1(6) by simp
  show thesis
  proof (cases "alive now active l")
    case True
    then have "executeFailover None no_save_faults now k active (c, d) = Some (c1, d)"
      using low c1(1) curr by (simp add: executeFailover_def)
    then show thesis by (rule that) (use c1 f True in simp_all)
  next
    case False
    have "in_int64 (ctBrokerID c1)" using c1(2) by (simp add: wf_controller_def)
    then obtain c2 where c2: "setLeader k (ctBrokerID c1) c1 = Some c2" "wf_controller c2" "ctBrokerID c2 = ctBrokerID c1"
        "ctLeadersPath c2 = ctLeadersPath c1" "ctActiveNodes c2 = ctActiveNodes c1"
        "map_of (leaders c2) = (map_of (leaders c1))(k \<mapsto> ctBrokerID c1)"
      by (rule setLeader_wf [OF c1(2) k])
    have "executeFailover None no_save_faults now k active (c, d) = Some (c2, saveLeaders no_save_faults c2 d)"
      using low False c1(1) c2(1) curr by (simp add: executeFailover_def)
    then show thesis by (rule that [OF _ _ saveLeaders_file]) (use c1 c2 False in simp_all)
  qed
qed

section \<open>The loop\<close>

definition failoverLoop ::
  "int \<Rightarrow> int \<Rightarrow> (int \<times> int) list \<Rightarrow> (string \<times> int) list \<Rightarrow> (Controller \<times> disk) option \<Rightarrow> (Controller \<times> disk) option" where
  "failoverLoop b now active ls acc =
     foldl (\<lambda>acc (k, l). if l = b then acc
       else if \<not> alive now active l then Option.bind acc (executeFailover None no_save_faults now k active) else acc) acc ls"

lemma checkFailover_loop:
  "checkFailover None no_save_faults now (c, d) = failoverLoop (ctBrokerID c) now (view now c) (leaders c) (Some (c, d))"
  by (simp add: checkFailover_def failoverLoop_def view_def Let_def)

lemma failoverLoop_Cons:
  "failoverLoop b now active ((k, l) # ls) acc = failoverLoop b now active ls
     (if l = b \<or> alive now active l then acc else Option.bind acc (executeFailover None no_save_faults now k active))"
  by (simp add: failoverLoop_def)

text \<open>The suspects of a list of cached leaders, as the loop meets them.\<close>

definition listed :: "int \<Rightarrow> int \<Rightarrow> (int \<times> int) list \<Rightarrow> (string \<times> int) list \<Rightarrow> string set" where
  "listed b now active ls = {k. \<exists>l. (k, l) \<in> set ls \<and> l \<noteq> b \<and> \<not> alive now active l}"

lemma listed_Cons:
  "listed b now active ((k, l) # ls) = (if l = b \<or> alive now active l then {} else {k}) \<union> listed b now active ls"
  by (auto simp: listed_def)

lemma listed_suspects: "distinct (map fst ls) \<Longrightarrow> listed b now active ls = suspects b now active (map_of ls)"
  by (auto simp: listed_def suspects_def)

lemma failoverLoop_not_lowest:
  "lowestActive now (ctBrokerID c) active \<noteq> ctBrokerID c \<Longrightarrow> failoverLoop (ctBrokerID c) now active ls (Some (c, d)) = Some (c, d)"
  by (induction ls) (auto simp: failoverLoop_Cons executeFailover_not_lowest, simp add: failoverLoop_def)

lemma failoverLoop_idle: "listed b now active ls = {} \<Longrightarrow> failoverLoop b now active ls acc = acc"
  by (induction ls) (auto simp: failoverLoop_Cons listed_Cons split: if_splits, simp add: failoverLoop_def)

lemma orphans_alive:
  "merged k = Some l \<Longrightarrow> alive now active l \<Longrightarrow> orphans now active (insert k K) merged = orphans now active K merged"
  by (auto simp: orphans_def)

lemma orphans_dead:
  "merged k = Some l \<Longrightarrow> \<not> alive now active l \<Longrightarrow> k \<in> orphans now active (insert k K) merged"
  by (simp add: orphans_def)

lemma claim_Cons:
  assumes "alive now active b" "k \<in> orphans now active (insert k K) merged"
  shows "claim b (orphans now active K (merged(k \<mapsto> b))) (merged(k \<mapsto> b)) = claim b (orphans now active (insert k K) merged) merged"
  using assms by (auto simp: claim_def orphans_def fun_eq_iff)

text \<open>One takeover and the rest of the loop: together they claim what the loop claims from the start.\<close>

lemma takeover_step:
  fixes M :: "string \<rightharpoonup> int"
  assumes "alive now active b" "M k = Some l0" "cache1 = (if alive now active l0 then M else M(k \<mapsto> b))"
    and "fl1 = (if alive now active l0 then fl else cache1)" and "M = cache ++ fl"
  shows "cache1 ++ fl1 = cache1"
    and "(if K = {} then cache1 else claim b (orphans now active K (cache1 ++ fl1)) (cache1 ++ fl1))
      = claim b (orphans now active (insert k K) M) M"
    and "(if orphans now active K (cache1 ++ fl1) = {} then fl1 else claim b (orphans now active K (cache1 ++ fl1)) (cache1 ++ fl1))
      = (if orphans now active (insert k K) M = {} then fl else claim b (orphans now active (insert k K) M) M)"
proof -
  have none: "claim b {} f = f" "orphans now active {} f = {}" for f by (simp_all add: claim_def orphans_def)
  show M1: "cache1 ++ fl1 = cache1" using assms(3-5) map_add_idem by metis
  have new: "claim b (orphans now active K cache1) cache1 = claim b (orphans now active (insert k K) M) M"
    using orphans_alive [of M k l0, OF assms(2)] claim_Cons [OF assms(1) orphans_dead [of M k l0, OF assms(2)]] assms(3) by (cases "alive now active l0") simp_all
  then show "(if K = {} then cache1 else claim b (orphans now active K (cache1 ++ fl1)) (cache1 ++ fl1))
      = claim b (orphans now active (insert k K) M) M"
    unfolding M1 by (cases "K = {}") (simp_all add: none)
  show "(if orphans now active K (cache1 ++ fl1) = {} then fl1 else claim b (orphans now active K (cache1 ++ fl1)) (cache1 ++ fl1))
      = (if orphans now active (insert k K) M = {} then fl else claim b (orphans now active (insert k K) M) M)"
  proof (cases "alive now active l0")
    case True
    then have "orphans now active (insert k K) M = orphans now active K cache1" "fl1 = fl"
      using orphans_alive [of M k l0, OF assms(2) True] assms(3,4) by simp_all
    then show ?thesis using new unfolding M1 by simp
  next
    case False
    then have "orphans now active (insert k K) M \<noteq> {}" "fl1 = cache1" using orphans_dead [of M k l0, OF assms(2) False] assms(4) by auto
    then show ?thesis using new unfolding M1 by (cases "orphans now active K cache1 = {}") (simp_all add: none)
  qed
qed

lemma failoverLoop_lowest:
  assumes "wf_controller c" "on_file (ctLeadersPath c) m d" "lowestActive now (ctBrokerID c) active = ctBrokerID c"
    and "alive now active (ctBrokerID c)"
    and "\<forall>(k, l) \<in> set ls. ascii k" "fst ` set ls \<subseteq> dom (map_of (leaders c) ++ map_of m)"
  shows "\<exists>c' d' m'. failoverLoop (ctBrokerID c) now active ls (Some (c, d)) = Some (c', d') \<and> wf_controller c'
    \<and> on_file (ctLeadersPath c') m' d' \<and> ctBrokerID c' = ctBrokerID c \<and> ctLeadersPath c' = ctLeadersPath c
    \<and> ctActiveNodes c' = ctActiveNodes c
    \<and> (let K = listed (ctBrokerID c) now active ls; merged = map_of (leaders c) ++ map_of m; D = orphans now active K merged in
        map_of (leaders c') = (if K = {} then map_of (leaders c) else claim (ctBrokerID c) D merged)
        \<and> map_of m' = (if D = {} then map_of m else claim (ctBrokerID c) D merged))"
  using assms
proof (induction ls arbitrary: c d m)
  case Nil
  then show ?case by (intro exI [of _ c] exI [of _ d] exI [of _ m]) (simp add: failoverLoop_def listed_def orphans_def)
next
  case (Cons x ls)
  obtain k l where x: "x = (k, l)" by (cases x)
  let ?b = "ctBrokerID c" and ?M = "map_of (leaders c) ++ map_of m"
  show ?case
  proof (cases "l = ?b \<or> alive now active l")
    case True
    then have "failoverLoop ?b now active (x # ls) (Some (c, d)) = failoverLoop ?b now active ls (Some (c, d))"
      "listed ?b now active (x # ls) = listed ?b now active ls" by (auto simp: x failoverLoop_Cons listed_Cons)
    then show ?thesis using Cons.IH [OF Cons.prems(1-4)] Cons.prems(5,6) by simp
  next
    case False
    have k: "ascii k" "k \<in> dom ?M" using Cons.prems(5,6) by (auto simp: x)
    from domD [OF this(2)] obtain l0 where l0: "?M k = Some l0" ..
    obtain c1 d1 m1 where c1: "executeFailover None no_save_faults now k active (c, d) = Some (c1, d1)"
        "wf_controller c1" "on_file (ctLeadersPath c1) m1 d1"
        and ids: "ctBrokerID c1 = ?b" "ctLeadersPath c1 = ctLeadersPath c" "ctActiveNodes c1 = ctActiveNodes c"
        and cache: "map_of (leaders c1) = (if alive now active l0 then ?M else ?M(k \<mapsto> ?b))"
        and fl: "map_of m1 = (if alive now active l0 then map_of m else map_of (leaders c1))"
      by (rule executeFailover_lowest [OF Cons.prems(1,2) k(1) Cons.prems(3) l0])
    let ?M1 = "map_of (leaders c1) ++ map_of m1" and ?K = "listed ?b now active ls"
    note step = takeover_step [where M = ?M, OF Cons.prems(4) l0 cache fl refl]
    have dom: "fst ` set ls \<subseteq> dom ?M1" using Cons.prems(6) step(1) cache by (auto simp: x)
    have asc: "\<forall>(k, l) \<in> set ls. ascii k" using Cons.prems(5) by simp
    have K: "listed ?b now active (x # ls) = insert k ?K" using False by (simp add: x listed_Cons)
    have loop: "failoverLoop ?b now active (x # ls) (Some (c, d)) = failoverLoop ?b now active ls (Some (c1, d1))"
      using False c1(1) by (simp add: x failoverLoop_Cons)
    have IH: "\<exists>c' d' m'. failoverLoop ?b now active ls (Some (c1, d1)) = Some (c', d') \<and> wf_controller c'
      \<and> on_file (ctLeadersPath c') m' d' \<and> ctBrokerID c' = ?b \<and> ctLeadersPath c' = ctLeadersPath c \<and> ctActiveNodes c' = ctActiveNodes c
      \<and> map_of (leaders c') = (if ?K = {} then map_of (leaders c1) else claim ?b (orphans now active ?K ?M1) ?M1)
      \<and> map_of m' = (if orphans now active ?K ?M1 = {} then map_of m1 else claim ?b (orphans now active ?K ?M1) ?M1)"
      using Cons.IH [OF c1(2,3) _ _ asc dom] Cons.prems(3,4) unfolding ids Let_def by blast
    show ?thesis unfolding loop K Let_def using IH unfolding step(2,3) by simp
  qed
qed

text \<open>The round as a whole; without suspects, or with a lower broker alive, nothing is read or written.\<close>

lemma checkFailover_spec:
  assumes "wf_controller c" "on_file (ctLeadersPath c) m d"
  obtains c' d' m' where "checkFailover None no_save_faults now (c, d) = Some (c', d')" "wf_controller c'"
    "on_file (ctLeadersPath c) m' d'" "ctBrokerID c' = ctBrokerID c" "ctLeadersPath c' = ctLeadersPath c"
    "ctActiveNodes c' = ctActiveNodes c"
    "failover_spec (ctBrokerID c) now (view now c) (map_of (leaders c)) (map_of m) = (map_of (leaders c'), map_of m')"
proof (cases "lowestActive now (ctBrokerID c) (view now c) = ctBrokerID c")
  case False
  then show thesis
    using assms by (intro that [of c d m]) (simp_all add: checkFailover_loop failoverLoop_not_lowest failover_spec_def Let_def)
next
  case low: True
  have wf: "distinct (map fst (leaders c))" "\<forall>(k, l) \<in> set (leaders c). ascii k"
    using assms(1) by (auto simp: wf_controller_def wf_map_def)
  have dom: "fst ` set (leaders c) \<subseteq> dom (map_of (leaders c) ++ map_of m)" by (simp add: dom_map_of_conv_image_fst)
  have none: "orphans now (view now c) {} f = {}" for f by (simp add: orphans_def)
  obtain c' d' m' where run: "checkFailover None no_save_faults now (c, d) = Some (c', d')" "wf_controller c'"
    "on_file (ctLeadersPath c') m' d'" "ctBrokerID c' = ctBrokerID c" "ctLeadersPath c' = ctLeadersPath c"
    "ctActiveNodes c' = ctActiveNodes c"
    and res: "let K = suspects (ctBrokerID c) now (view now c) (map_of (leaders c)); merged = map_of (leaders c) ++ map_of m;
          D = orphans now (view now c) K merged in
        map_of (leaders c') = (if K = {} then map_of (leaders c) else claim (ctBrokerID c) D merged)
        \<and> map_of m' = (if D = {} then map_of m else claim (ctBrokerID c) D merged)"
    using failoverLoop_lowest [OF assms low alive_self wf(2) dom]
    unfolding checkFailover_loop listed_suspects [OF wf(1)] by blast
  then show thesis
    using low by (intro that [of c' d' m']) (auto simp: failover_spec_def Let_def none)
qed

lemma checkFailover_idle:
  assumes "distinct (map fst (leaders c))" "\<forall>l \<in> ran (map_of (leaders c)). l = ctBrokerID c \<or> alive now (view now c) l"
  shows "checkFailover None no_save_faults now (c, d) = Some (c, d)"
proof -
  have "suspects (ctBrokerID c) now (view now c) (map_of (leaders c)) = {}" using assms(2) by (auto simp: suspects_def ran_def)
  then show ?thesis unfolding checkFailover_loop by (simp add: failoverLoop_idle listed_suspects [OF assms(1)])
qed

section \<open>Who is lowest\<close>

text \<open>\<^verbatim>\<open>lowestID\<close> is this broker exactly when no broker with a smaller id is seen alive.\<close>

lemma lowestActive_self:
  "lowestActive now b active = b \<longleftrightarrow> (\<forall>(i, t) \<in> set active. now - t \<le> lease \<longrightarrow> b \<le> i)"
proof -
  let ?f = "\<lambda>lowest (i, lastSeen). if now - lastSeen \<le> lease \<and> i < lowest then i else lowest"
  have le: "foldl ?f x active \<le> x" for x :: int and active :: "(int \<times> int) list"
  proof (induction active arbitrary: x)
    case (Cons y active)
    obtain i t where y: "y = (i, t)" by (cases y)
    have "foldl ?f i active \<le> i" "foldl ?f x active \<le> x" by (rule Cons.IH)+
    then show ?case by (simp add: y)
  qed simp
  have "foldl ?f b active = b \<longleftrightarrow> (\<forall>(i, t) \<in> set active. now - t \<le> lease \<longrightarrow> b \<le> i)"
  proof (induction active)
    case (Cons y active)
    obtain i t where y: "y = (i, t)" by (cases y)
    show ?case
    proof (cases "now - t \<le> lease \<and> i < b")
      case True
      have "foldl ?f i active < b" using le [of i active] True by linarith
      then show ?thesis using True by (auto simp: y)
    qed (use Cons y in auto)
  qed simp
  then show ?thesis by (simp only: lowestActive_def)
qed

section \<open>Properties\<close>

text \<open>\<^bold>\<open>C20\<close>: a round of \<^verbatim>\<open>checkFailover\<close> on a readable leaders file does not panic and implements its specification,
  whatever the order in which the cached partitions are visited: it does nothing when no cached leader is dead or a broker with a
  smaller id is alive; otherwise the cache becomes the file's contents merged into it, with this broker as the leader of every
  suspected partition whose leader on file is dead too, and this is what is written when there is such a partition.\<close>

theorem checkFailover_refines:
  assumes "wf_controller c" "on_file (ctLeadersPath c) m d"
  shows "\<exists>c' d' m'. checkFailover None no_save_faults now (c, d) = Some (c', d') \<and> wf_controller c' \<and> on_file (ctLeadersPath c) m' d'
    \<and> failover_spec (ctBrokerID c) now (view now c) (map_of (leaders c)) (map_of m) = (map_of (leaders c'), map_of m')"
  using checkFailover_spec [OF assms] by metis

text \<open>One round of \<^verbatim>\<open>checkFailover\<close> on a readable leaders file does not panic. On file, a partition
  whose leader is seen alive keeps it, every other partition keeps its leader or goes to this broker, and the latter
  only when no broker with a smaller id is seen alive; and then every partition whose leader is dead, in the cache
  and on file, is led by this broker afterwards, in both.\<close>

theorem failover_safe_and_live:
  assumes "wf_controller c" "on_file (ctLeadersPath c) m d"
  shows "\<exists>c' d' m'. checkFailover None no_save_faults now (c, d) = Some (c', d') \<and> on_file (ctLeadersPath c) m' d'
    \<and> (\<forall>k l. map_of m k = Some l \<and> alive now (view now c) l \<longrightarrow> map_of m' k = Some l)
    \<and> (\<forall>k l. map_of m k = Some l \<longrightarrow> map_of m' k = Some l
         \<or> (map_of m' k = Some (ctBrokerID c) \<and> (\<forall>(i, t) \<in> set (view now c). now - t \<le> lease \<longrightarrow> ctBrokerID c \<le> i)))
    \<and> (\<forall>k l l0. (\<forall>(i, t) \<in> set (view now c). now - t \<le> lease \<longrightarrow> ctBrokerID c \<le> i)
         \<and> (k, l) \<in> set (leaders c) \<and> l \<noteq> ctBrokerID c \<and> \<not> alive now (view now c) l
         \<and> map_of m k = Some l0 \<and> \<not> alive now (view now c) l0 \<longrightarrow>
         map_of m' k = Some (ctBrokerID c) \<and> map_of (leaders c') k = Some (ctBrokerID c))"
proof -
  obtain c' d' m' where run: "checkFailover None no_save_faults now (c, d) = Some (c', d')" "on_file (ctLeadersPath c) m' d'"
    and spec: "failover_spec (ctBrokerID c) now (view now c) (map_of (leaders c)) (map_of m) = (map_of (leaders c'), map_of m')"
    by (rule checkFailover_spec [OF assms])
  have dist: "distinct (map fst (leaders c))" using assms(1) by (simp add: wf_controller_def wf_map_def)
  note keep = failover_spec_keeps [OF spec] and claims = failover_spec_claims [OF spec]
  have led: "map_of m' k = Some (ctBrokerID c) \<and> map_of (leaders c') k = Some (ctBrokerID c)"
    if "lowestActive now (ctBrokerID c) (view now c) = ctBrokerID c" "(k, l) \<in> set (leaders c)" "l \<noteq> ctBrokerID c"
      "\<not> alive now (view now c) l" "map_of m k = Some l0" "\<not> alive now (view now c) l0" for k l l0
    using claims [OF that(1) _ that(3,4,5,6)] map_of_is_SomeI [OF dist that(2)] by simp
  show ?thesis
    using keep led unfolding lowestActive_self
    by (intro exI [of _ c'] exI [of _ d'] exI [of _ m'] conjI run) blast+
qed

definition sample_controller :: "int \<Rightarrow> (int \<times> int) list \<Rightarrow> Controller" where
  "sample_controller b active = \<lparr>ctBrokerID = b, ctLeadersPath = ''leaders.json'',
     ctLeaders = Some [(''test-0'', 0), (''test-1'', 1)], ctActiveNodes = active\<rparr>"

definition sample_disk :: disk where
  "sample_disk = saveLeaders no_save_faults (sample_controller 0 []) Map.empty"

lemma sample_wf: "in_int64 b \<Longrightarrow> wf_controller (sample_controller b active)"
  "on_file (ctLeadersPath (sample_controller b active)) [(''test-0'', 0), (''test-1'', 1)] sample_disk"
  by (simp_all add: sample_controller_def sample_disk_def wf_controller_def leaders_def wf_map_def ascii_def
      in_int64_def on_file_def saveLeaders_def no_save_faults_def)

lemma sample_low: "lowestActive (10 ^ 12) 1 (view (10 ^ 12) (sample_controller 1 [])) = 1"
  by (simp add: lowestActive_def sample_controller_def view_def)

lemma sample_dead: "\<not> alive (10 ^ 12) (view (10 ^ 12) (sample_controller 1 [])) 0"
  by (simp add: sample_controller_def view_def alive_def)

lemma sample_leads: "(''test-0'', 0) \<in> set (leaders (sample_controller 1 []))"
  by (simp add: sample_controller_def leaders_def)

lemma sample_ids: "ctBrokerID (sample_controller b active) = b" "ctLeadersPath (sample_controller b active) = ''leaders.json''"
  by (simp_all add: sample_controller_def)

theorem checkFailover_refines_witness:
  "\<exists>c' d' m'. checkFailover None no_save_faults (10 ^ 12) (sample_controller 1 [], sample_disk) = Some (c', d')
    \<and> wf_controller c' \<and> on_file ''leaders.json'' m' d' \<and> map_of (leaders c') ''test-0'' = Some 1 \<and> map_of m' ''test-0'' = Some 1"
proof -
  let ?c = "sample_controller 1 []"
  have 1: "in_int64 1" by (simp add: in_int64_def)
  from checkFailover_refines [OF sample_wf(1) [OF 1, of "[]"] sample_wf(2), of "10 ^ 12", unfolded sample_ids]
  obtain c' d' m' where r: "checkFailover None no_save_faults (10 ^ 12) (?c, sample_disk) = Some (c', d')" "wf_controller c'"
      "on_file ''leaders.json'' m' d'"
    and spec: "failover_spec 1 (10 ^ 12) (view (10 ^ 12) ?c) (map_of (leaders ?c)) (map_of [(''test-0'', 0), (''test-1'', 1)])
      = (map_of (leaders c'), map_of m')" by blast
  have "map_of (leaders c') ''test-0'' = Some 1" "map_of m' ''test-0'' = Some 1"
    by (rule failover_spec_claims [OF spec sample_low _ _ sample_dead _ sample_dead]; simp add: sample_controller_def leaders_def)+
  with r show ?thesis by blast
qed

theorem failover_safe_and_live_witness:
  "\<exists>c' d' m'. checkFailover None no_save_faults (10 ^ 12) (sample_controller 1 [], sample_disk) = Some (c', d')
    \<and> on_file ''leaders.json'' m' d' \<and> map_of m' ''test-0'' = Some 1 \<and> map_of m' ''test-1'' = Some 1"
proof -
  let ?c = "sample_controller 1 []" and ?m = "[(''test-0'', 0), (''test-1'', 1)] :: (string \<times> int) list"
  have 1: "in_int64 1" by (simp add: in_int64_def)
  have low: "\<forall>(i, t) \<in> set (view (10 ^ 12) ?c). 10 ^ 12 - t \<le> lease \<longrightarrow> 1 \<le> i"
    using sample_low unfolding lowestActive_self .
  have live: "alive (10 ^ 12) (view (10 ^ 12) ?c) 1" using alive_self [of _ ?c] by (simp add: sample_ids)
  from failover_safe_and_live [OF sample_wf(1) [OF 1, of "[]"] sample_wf(2), of "10 ^ 12", unfolded sample_ids]
  obtain c' d' m' where r: "checkFailover None no_save_faults (10 ^ 12) (?c, sample_disk) = Some (c', d')"
      "on_file ''leaders.json'' m' d'"
    and keep: "\<forall>k l. map_of ?m k = Some l \<and> alive (10 ^ 12) (view (10 ^ 12) ?c) l \<longrightarrow> map_of m' k = Some l"
    and led: "\<forall>k l l0. (\<forall>(i, t) \<in> set (view (10 ^ 12) ?c). 10 ^ 12 - t \<le> lease \<longrightarrow> 1 \<le> i)
         \<and> (k, l) \<in> set (leaders ?c) \<and> l \<noteq> 1 \<and> \<not> alive (10 ^ 12) (view (10 ^ 12) ?c) l
         \<and> map_of ?m k = Some l0 \<and> \<not> alive (10 ^ 12) (view (10 ^ 12) ?c) l0 \<longrightarrow>
         map_of m' k = Some 1 \<and> map_of (leaders c') k = Some 1"
    by blast
  have "map_of m' ''test-0'' = Some 1"
    using led [rule_format, of "''test-0''" 0 0] low sample_dead sample_leads by simp
  moreover have "map_of m' ''test-1'' = Some 1" using keep [rule_format, of "''test-1''" 1] live by simp
  ultimately show ?thesis using r by blast
qed

text \<open>\<^bold>\<open>C36\<close>: a broker never re-reads the file for partitions it believes to lead, so losing heartbeats in one
  direction makes two leaders: broker 1, which hears nothing, takes \<^verbatim>\<open>test-0\<close> over on file, and broker 0, which
  hears broker 1, keeps answering as its leader in every later round.\<close>

theorem two_leaders:
  "\<exists>c1 d1. checkFailover None no_save_faults (10 ^ 12) (sample_controller 1 [], sample_disk) = Some (c1, d1)
    \<and> GetLeader ''test'' 0 c1 = 1
    \<and> checkFailover None no_save_faults (10 ^ 12) (sample_controller 0 [(1, 10 ^ 12)], d1)
        = Some (sample_controller 0 [(1, 10 ^ 12)], d1)
    \<and> GetLeader ''test'' 0 (sample_controller 0 [(1, 10 ^ 12)]) = 0"
proof -
  let ?c = "sample_controller 1 []" and ?old = "sample_controller 0 [(1, 10 ^ 12)]"
  have 1: "in_int64 1" by (simp add: in_int64_def)
  have key: "partition_key ''test'' 0 = ''test-0''" by code_simp
  obtain c1 d1 m1 where run: "checkFailover None no_save_faults (10 ^ 12) (?c, sample_disk) = Some (c1, d1)"
    and spec: "failover_spec 1 (10 ^ 12) (view (10 ^ 12) ?c) (map_of (leaders ?c)) (map_of [(''test-0'', 0), (''test-1'', 1)])
      = (map_of (leaders c1), map_of m1)"
    by (rule checkFailover_spec [OF sample_wf(1) [OF 1, of "[]"] sample_wf(2), where now = "10 ^ 12", unfolded sample_ids])
  have "map_of (leaders c1) ''test-0'' = Some 1"
    by (rule failover_spec_claims(1) [OF spec sample_low _ _ sample_dead _ sample_dead]) (simp_all add: sample_controller_def leaders_def)
  moreover have "checkFailover None no_save_faults (10 ^ 12) (?old, d1) = Some (?old, d1)"
    by (simp add: checkFailover_def sample_controller_def leaders_def alive_def lease_def update_conv')
  moreover have "GetLeader ''test'' 0 ?old = 0"
    by (simp add: GetLeader_def key sample_controller_def leaders_def)
  ultimately show ?thesis using run by (simp add: GetLeader_def key)
qed

end
