(* ===== verification/Cluster.thy ===== *)
theory Cluster
  imports Failover Controller_Loop Step_Systems
begin

text \<open>
  Several brokers and the leaders file they share (\<^verbatim>\<open>internal/broker/controller.go\<close>, \<^verbatim>\<open>rebalancer.go\<close>), as a state machine. Time
  passes; a heartbeat arrives or is lost; a broker runs a failover round or a round of its rebalancer; a broker crashes or is
  started. The metadata directory is the shared \<^verbatim>\<open>/data/metadata\<close>, and the ids are the three for which the addresses of the heartbeats
  are written in the code. A round on the file is atomic, as if no two brokers used the file at the same moment (\<open>Cluster_Race\<close> has the finer steps), and the file
  system works.

  The lemmas show that every step is defined (no broker panics) and keeps \<open>cluster_ok\<close>: the file is readable and has both
  partitions, and the caches name only known brokers.
\<close>

section \<open>The cluster\<close>

record Cluster =
  clNow :: int
  clUp :: "int \<rightharpoonup> Controller"
  clDisk :: disk

definition shared_path :: string where
  "shared_path = ctLeadersPath (NewController True 0 [])"

definition broker_ids :: "int set" where
  "broker_ids = {0, 1, 2}"

definition keep_round :: "int \<Rightarrow> Cluster \<Rightarrow> Controller \<times> disk \<Rightarrow> Cluster" where
  "keep_round i s r = s\<lparr>clUp := (clUp s)(i \<mapsto> fst r), clDisk := snd r\<rparr>"

text \<open>The heartbeat of \<open>i\<close> to \<open>j\<close> arrives at the present time.\<close>

definition heartbeat_arrives :: "int \<Rightarrow> int \<Rightarrow> Cluster \<Rightarrow> Cluster" where
  "heartbeat_arrives i j s =
     (case (clUp s i, clUp s j) of
        (Some ci, Some cj) \<Rightarrow>
          (case map_of (sendHeartbeats ci) (''localhost:'' @ itoa (9095 + j)) of
             None \<Rightarrow> s
           | Some msg \<Rightarrow> s\<lparr>clUp := (clUp s)(j \<mapsto> heartbeat_read (Inr msg) (clNow s) cj)\<rparr>)
      | _ \<Rightarrow> s)"

definition failover_round :: "int \<Rightarrow> Cluster \<Rightarrow> Cluster option" where
  "failover_round i s =
     (case clUp s i of
        None \<Rightarrow> Some s
      | Some c \<Rightarrow> map_option (\<lambda>(go, msgs, r). keep_round i s r)
          (runLoop_event (FailoverTick None no_save_faults (clNow s)) (c, clDisk s)))"

definition rebalance_round :: "Rebalancer \<Rightarrow> int \<Rightarrow> int \<Rightarrow> Cluster \<Rightarrow> Cluster option" where
  "rebalance_round rb produced i s =
     (case clUp s i of
        None \<Rightarrow> Some s
      | Some c \<Rightarrow> map_option (keep_round i s) (checkLoad None no_save_faults produced rb (c, clDisk s)))"

definition crash :: "int \<Rightarrow> Cluster \<Rightarrow> Cluster" where
  "crash i s = s\<lparr>clUp := (clUp s)(i := None)\<rparr>"

definition start_broker :: "int \<Rightarrow> string \<Rightarrow> Cluster \<Rightarrow> Cluster option" where
  "start_broker i dir s =
     (if clUp s i \<noteq> None then Some s
      else map_option (keep_round i s) (ControllerStart None no_save_faults (NewController True i dir, clDisk s)))"

definition cluster_init :: "int \<Rightarrow> Cluster" where
  "cluster_init now = \<lparr>clNow = now, clUp = Map.empty, clDisk = Map.empty\<rparr>"

text \<open>Steps of a cluster whose members stay the same, and all steps.\<close>

inductive quiet_step :: "Cluster \<Rightarrow> Cluster \<Rightarrow> bool" where
  time: "quiet_step s (s\<lparr>clNow := clNow s + dt\<rparr>)" if "0 \<le> dt"
| heartbeat: "quiet_step s (heartbeat_arrives i j s)"
| failover: "quiet_step s s'" if "failover_round i s = Some s'"

inductive cluster_step :: "Cluster \<Rightarrow> Cluster \<Rightarrow> bool" where
  quiet: "cluster_step s s'" if "quiet_step s s'"
| rebalance: "cluster_step s s'" if "rebalance_round rb produced i s = Some s'"
| crash: "cluster_step s (crash i s)"
| start: "cluster_step s s'" if "i \<in> broker_ids" "start_broker i dir s = Some s'"

inductive_cases quiet_stepE: "quiet_step s s'"
inductive_cases cluster_stepE: "cluster_step s s'"

section \<open>What every broker and the file satisfy\<close>

definition partitions :: "string set" where
  "partitions = {''test-0'', ''test-1''}"

definition table :: "(string \<rightharpoonup> int) \<Rightarrow> bool" where
  "table f \<longleftrightarrow> dom f \<subseteq> partitions \<and> ran f \<subseteq> broker_ids"

definition file_ok :: "disk \<Rightarrow> bool" where
  "file_ok d \<longleftrightarrow> (\<exists>m. on_file shared_path m d \<and> table (map_of m) \<and> dom (map_of m) = partitions)"

definition member_ok :: "int \<Rightarrow> int \<Rightarrow> Controller \<Rightarrow> bool" where
  "member_ok now i c \<longleftrightarrow> wf_controller c \<and> ctBrokerID c = i \<and> i \<in> broker_ids \<and> ctLeadersPath c = shared_path \<and> table (map_of (leaders c))
     \<and> (\<forall>(j, t) \<in> set (ctActiveNodes c). j \<in> broker_ids \<and> t \<le> now)"

definition cluster_ok :: "Cluster \<Rightarrow> bool" where
  "cluster_ok s \<longleftrightarrow> (clDisk s shared_path = None \<and> clUp s = Map.empty \<or> file_ok (clDisk s)) \<and> (\<forall>i c. clUp s i = Some c \<longrightarrow> member_ok (clNow s) i c)"

lemma broker_ids_int64: "i \<in> broker_ids \<Longrightarrow> in_int64 i"
  by (auto simp: broker_ids_def in_int64_def)

lemma partitions_ascii: "k \<in> partitions \<Longrightarrow> ascii k"
  by (auto simp: partitions_def ascii_def)

lemma table_add: "table f \<Longrightarrow> table g \<Longrightarrow> table (f ++ g)"
  by (auto simp: table_def ran_def dom_def map_add_def split: option.splits)

lemma table_upd: "table f \<Longrightarrow> k \<in> partitions \<Longrightarrow> l \<in> broker_ids \<Longrightarrow> table (f(k \<mapsto> l))"
  by (auto simp: table_def ran_def)

lemma table_claim: "table f \<Longrightarrow> D \<subseteq> partitions \<Longrightarrow> b \<in> broker_ids \<Longrightarrow> table (claim b D f)"
  by (auto simp: table_def claim_def ran_def dom_def)

lemma dom_claim: "D \<subseteq> dom f \<Longrightarrow> dom (claim b D f) = dom f"
  by (auto simp: claim_def dom_def)

lemma table_spec:
  assumes "table cache" "table file" "dom file = partitions" "b \<in> broker_ids"
    and "failover_spec b now active cache file = (cache', file')"
  shows "table cache'" "table file'" "dom file' = partitions"
proof -
  let ?D = "orphans now active (suspects b now active cache) (cache ++ file)"
  have D: "?D \<subseteq> partitions" using assms(1) by (auto simp: orphans_def suspects_def table_def)
  have dom: "dom (cache ++ file) = partitions" using assms(1,3) by (auto simp: table_def)
  note table_claim [OF table_add [OF assms(1,2)] D assms(4)]
  moreover have "dom (claim b ?D (cache ++ file)) = partitions" using dom D by (simp add: dom_claim del: dom_map_add)
  ultimately show "table cache'" "table file'" "dom file' = partitions"
    using assms by (auto simp: failover_spec_def Let_def split: if_splits)
qed

section \<open>The leaders on file\<close>

definition disk_leaders :: "disk \<Rightarrow> string \<rightharpoonup> int" where
  "disk_leaders d =
     (case d shared_path of
        None \<Rightarrow> Map.empty
      | Some content \<Rightarrow> (case decode_leaders (string_of content) (Some []) of None \<Rightarrow> Map.empty | Some m \<Rightarrow> map_of m))"

abbreviation file_leader :: "Cluster \<Rightarrow> string \<rightharpoonup> int" where
  "file_leader s \<equiv> disk_leaders (clDisk s)"

lemma disk_leaders_on_file:
  assumes "on_file shared_path m d"
  shows "disk_leaders d = map_of m"
proof -
  have "wf_map []" by (simp add: wf_map_def)
  then obtain m' where "decode_leaders (leaders_json (Some m)) (Some []) = Some m'" "map_of m' = map_of m"
    using decode_leaders_json [of "[]" m] assms by (auto simp: on_file_def)
  then show ?thesis using assms by (simp add: disk_leaders_def on_file_def)
qed

section \<open>Rounds on the file\<close>

lemma failover_member:
  assumes "member_ok now i c" "file_ok d"
  obtains c' d' where "checkFailover None no_save_faults t (c, d) = Some (c', d')" "member_ok now i c'" "file_ok d'"
    "ctActiveNodes c' = ctActiveNodes c"
proof -
  have c: "wf_controller c" "ctBrokerID c = i" "i \<in> broker_ids" "ctLeadersPath c = shared_path" "table (map_of (leaders c))"
    using assms(1) by (simp_all add: member_ok_def)
  obtain m where m: "on_file (ctLeadersPath c) m d" "table (map_of m)" "dom (map_of m) = partitions"
    using assms(2) c(4) by (auto simp: file_ok_def)
  obtain c' d' m' where run: "checkFailover None no_save_faults t (c, d) = Some (c', d')" "wf_controller c'"
      "on_file (ctLeadersPath c) m' d'" "ctBrokerID c' = ctBrokerID c" "ctLeadersPath c' = ctLeadersPath c"
      "ctActiveNodes c' = ctActiveNodes c"
    and spec: "failover_spec (ctBrokerID c) t (view t c) (map_of (leaders c)) (map_of m) = (map_of (leaders c'), map_of m')"
    by (rule checkFailover_spec [OF c(1) m(1)])
  note tables = table_spec [OF c(5) m(2,3) c(3) spec [unfolded c(2)]]
  show thesis
  proof (rule that [OF run(1)])
    show "member_ok now i c'" using assms(1) run tables(1) by (simp add: member_ok_def)
    show "file_ok d'" using run(3) tables(2,3) c(4) by (auto simp: file_ok_def)
  qed (rule run(6))
qed

lemma load_member:
  assumes "member_ok now i c" "file_ok d"
  obtains c' where "loadLeaders None flt (c, d) = Some (c', d)" "member_ok now i c'" "ctActiveNodes c' = ctActiveNodes c"
proof -
  have c: "wf_controller c" "ctLeadersPath c = shared_path" "table (map_of (leaders c))" using assms(1) by (simp_all add: member_ok_def)
  obtain m where m: "on_file (ctLeadersPath c) m d" "table (map_of m)" using assms(2) c(2) by (auto simp: file_ok_def)
  obtain c' where c': "loadLeaders None flt (c, d) = Some (c', d)" "wf_controller c'" "ctBrokerID c' = ctBrokerID c"
      "ctLeadersPath c' = ctLeadersPath c" "ctActiveNodes c' = ctActiveNodes c" "map_of (leaders c') = map_of (leaders c) ++ map_of m"
    by (rule loadLeaders_file [OF c(1) m(1)])
  have "member_ok now i c'" using assms(1) c' table_add [OF c(3) m(2)] by (simp add: member_ok_def)
  with c' show thesis by (intro that)
qed

text \<open>Setting a leader and saving, for a cache that names both partitions afterwards.\<close>

lemma save_member:
  assumes "member_ok now i c" "k \<in> partitions" "l \<in> broker_ids" "partitions \<subseteq> insert k (dom (map_of (leaders c)))"
  obtains c' where "setLeader k l c = Some c'" "member_ok now i c'" "file_ok (saveLeaders no_save_faults c' d)"
    "ctActiveNodes c' = ctActiveNodes c" "map_of (leaders c') = (map_of (leaders c))(k \<mapsto> l)"
    "disk_leaders (saveLeaders no_save_faults c' d) = map_of (leaders c')"
proof -
  have c: "wf_controller c" "ctLeadersPath c = shared_path" "table (map_of (leaders c))" using assms(1) by (simp_all add: member_ok_def)
  obtain c' where c': "setLeader k l c = Some c'" "wf_controller c'" "ctBrokerID c' = ctBrokerID c"
      "ctLeadersPath c' = ctLeadersPath c" "ctActiveNodes c' = ctActiveNodes c" "map_of (leaders c') = (map_of (leaders c))(k \<mapsto> l)"
    by (rule setLeader_wf [OF c(1) partitions_ascii [OF assms(2)] broker_ids_int64 [OF assms(3)]])
  have t: "table (map_of (leaders c'))" using table_upd [OF c(3) assms(2,3)] c'(6) by simp
  have "dom (map_of (leaders c')) = partitions" using t assms(2,4) c'(6) by (auto simp: table_def)
  then have "file_ok (saveLeaders no_save_faults c' d)"
    using saveLeaders_file [OF c'(2), of d] t c(2) c'(4) by (auto simp: file_ok_def)
  moreover have "member_ok now i c'" using assms(1) c' t by (simp add: member_ok_def)
  moreover have "disk_leaders (saveLeaders no_save_faults c' d) = map_of (leaders c')"
    using saveLeaders_file [OF c'(2), of d] c(2) c'(4) by (simp add: disk_leaders_on_file)
  ultimately show thesis using c' by (intro that)
qed

lemma load_reads:
  assumes "loadLeaders None flt (c, d) = Some (c', d)" "wf_controller c" "ctLeadersPath c = shared_path" "file_ok d"
  shows "partitions \<subseteq> dom (map_of (leaders c'))" "k \<in> partitions \<Longrightarrow> map_of (leaders c') k = disk_leaders d k"
proof -
  obtain m where m: "on_file (ctLeadersPath c) m d" "dom (map_of m) = partitions" using assms(3,4) by (auto simp: file_ok_def)
  have "map_of (leaders c') = map_of (leaders c) ++ map_of m" using loadLeaders_file [OF assms(2) m(1), of flt] assms(1) by auto
  moreover have "disk_leaders d = map_of m" using m(1) assms(3) by (simp add: disk_leaders_on_file)
  ultimately show "partitions \<subseteq> dom (map_of (leaders c'))" "k \<in> partitions \<Longrightarrow> map_of (leaders c') k = disk_leaders d k"
    using m(2) by (auto simp: map_add_dom_app_simps)
qed

lemma move_member:
  assumes "member_ok now i c" "file_ok d"
  obtains c' d' where "checkLoad None no_save_faults produced rb (c, d) = Some (c', d')" "member_ok now i c'" "file_ok d'"
    "ctActiveNodes c' = ctActiveNodes c"
    "produced > rbThreshold rb \<Longrightarrow> map_of (leaders c') ''test-0'' = Some (go_mod (i + 1) 3)"
    "produced > rbThreshold rb \<Longrightarrow> disk_leaders d' ''test-0'' = Some (go_mod (i + 1) 3)"
proof (cases "produced > rbThreshold rb")
  case True
  have c: "wf_controller c" "ctBrokerID c = i" "i \<in> broker_ids" "ctLeadersPath c = shared_path" using assms(1) by (simp_all add: member_ok_def)
  have l: "go_mod (i + 1) 3 \<in> broker_ids" using c(3) by (auto simp: broker_ids_def go_mod_def)
  have k: "''test-0'' \<in> partitions" by (simp add: partitions_def)
  obtain c1 where c1: "loadLeaders None no_save_faults (c, d) = Some (c1, d)" "member_ok now i c1" "ctActiveNodes c1 = ctActiveNodes c"
    by (rule load_member [OF assms])
  show thesis
  proof (cases "map_of (leaders c1) ''test-0'' = Some (go_mod (i + 1) 3)")
    case True
    then show thesis
      using c1 assms(2) \<open>produced > rbThreshold rb\<close> load_reads(2) [OF c1(1) c(1,4) assms(2) k]
      by (intro that [of c1 d]) (simp_all add: checkLoad_def MovePartition_def c(2))
  next
    case False
    have "partitions \<subseteq> insert ''test-0'' (dom (map_of (leaders c1)))" using load_reads(1) [OF c1(1) c(1,4) assms(2)] by blast
    then obtain c2 where c2: "setLeader ''test-0'' (go_mod (i + 1) 3) c1 = Some c2" "member_ok now i c2"
        "file_ok (saveLeaders no_save_faults c2 d)" "ctActiveNodes c2 = ctActiveNodes c1"
        "map_of (leaders c2) = (map_of (leaders c1))(''test-0'' \<mapsto> go_mod (i + 1) 3)"
        "disk_leaders (saveLeaders no_save_faults c2 d) = map_of (leaders c2)"
      by (rule save_member [OF c1(2) k l])
    then show thesis
      using c1 False \<open>produced > rbThreshold rb\<close>
      by (intro that [of c2 "saveLeaders no_save_faults c2 d"]) (simp_all add: checkLoad_def MovePartition_def c(2))
  qed
next
  case False
  then show thesis using assms by (intro that [of c d]) (simp_all add: checkLoad_def)
qed

lemma new_member: "i \<in> broker_ids \<Longrightarrow> member_ok now i (NewController True i dir)"
  by (simp add: member_ok_def NewController_def Let_def shared_path_def wf_controller_def leaders_def wf_map_def table_def broker_ids_int64)

lemma start_member:
  assumes "i \<in> broker_ids" "d shared_path = None \<or> file_ok d"
  obtains c d' where "ControllerStart None no_save_faults (NewController True i dir, d) = Some (c, d')" "member_ok now i c" "file_ok d'"
    "ctActiveNodes c = []"
  using assms(2)
proof
  let ?n = "NewController True i dir"
  have path: "ctLeadersPath ?n = shared_path" and act: "ctActiveNodes ?n = []" by (simp_all add: NewController_def shared_path_def)
  assume "file_ok d"
  then obtain c where "loadLeaders None no_save_faults (?n, d) = Some (c, d)" "member_ok now i c" "ctActiveNodes c = ctActiveNodes ?n"
    by (rule load_member [OF new_member [OF assms(1)]])
  with \<open>file_ok d\<close> act show thesis by (intro that [of c d]) (simp_all add: ControllerStart_def)
next
  let ?n = "NewController True i dir"
  let ?c = "?n\<lparr>ctLeaders := Some [(''test-0'', 0), (''test-1'', 1)]\<rparr>"
  assume none: "d shared_path = None"
  have run: "ControllerStart None no_save_faults (?n, d) = Some (?c, saveLeaders no_save_faults ?c d)"
    using none by (simp add: ControllerStart_def loadLeaders_def NewController_def shared_path_def setLeader_def Let_def)
  have map: "map_of [(''test-0'', 0), (''test-1'', 1 :: int)] = [''test-0'' \<mapsto> 0, ''test-1'' \<mapsto> 1]" by (auto simp: fun_eq_iff)
  have t: "table (map_of (leaders ?c))" "dom (map_of (leaders ?c)) = partitions"
    unfolding leaders_upd map by (auto simp: table_def broker_ids_def partitions_def)
  have wf: "wf_controller ?c"
    using broker_ids_int64 [OF assms(1)] by (simp add: wf_controller_def wf_map_def ascii_def in_int64_def NewController_def Let_def leaders_def)
  then have "member_ok now i ?c"
    using assms(1) t(1) by (simp add: member_ok_def NewController_def Let_def shared_path_def)
  moreover have "file_ok (saveLeaders no_save_faults ?c d)"
    using saveLeaders_file [OF wf, of d] t by (auto simp: file_ok_def NewController_def shared_path_def)
  moreover have "ctActiveNodes ?c = []" by (simp add: NewController_def Let_def)
  ultimately show thesis using run by (intro that)
qed

section \<open>Steps of the cluster\<close>

lemma member_ok_later: "member_ok now i c \<Longrightarrow> now \<le> now' \<Longrightarrow> member_ok now' i c"
  by (force simp: member_ok_def)

lemma seen_member:
  assumes "member_ok now j c" "i \<in> broker_ids"
  shows "member_ok now j (c\<lparr>ctActiveNodes := AList.update i now (ctActiveNodes c)\<rparr>)"
  using assms set_update_subset [of i now "ctActiveNodes c"] by (auto simp: member_ok_def wf_controller_def leaders_def)

lemma heartbeat_message:
  assumes "member_ok now i ci" "j \<in> broker_ids"
  shows "map_of (sendHeartbeats ci) (''localhost:'' @ itoa (9095 + j)) = Some (itoa i)"
  using assms by (auto simp: member_ok_def sendHeartbeats_def broker_ids_def)

text \<open>A heartbeat, on the cluster: the receiver notes the sender.\<close>

lemma heartbeat_arrives_up:
  assumes "cluster_ok s"
  shows "heartbeat_arrives i j s =
    (case (clUp s i, clUp s j) of (Some ci, Some cj) \<Rightarrow>
       s\<lparr>clUp := (clUp s)(j \<mapsto> cj\<lparr>ctActiveNodes := AList.update i (clNow s) (ctActiveNodes cj)\<rparr>)\<rparr> | _ \<Rightarrow> s)"
proof -
  have "map_of (sendHeartbeats ci) (''localhost:'' @ itoa (9095 + j)) = Some (itoa i)" "in_int64 i"
    if "clUp s i = Some ci" "clUp s j = Some cj" for ci cj
    using assms that heartbeat_message [of "clNow s" i ci j] by (auto simp: cluster_ok_def member_ok_def broker_ids_int64)
  then show ?thesis by (auto simp: heartbeat_arrives_def heartbeat_seen simp del: heartbeat_read.simps split: option.splits)
qed

text \<open>What a quiet step does to the members: the same ones are up, and a peer that is seen anew is up now.\<close>

definition same_members :: "Cluster \<Rightarrow> Cluster \<Rightarrow> bool" where
  "same_members s s' \<longleftrightarrow> dom (clUp s') = dom (clUp s) \<and> clNow s \<le> clNow s'
     \<and> (\<forall>i c'. clUp s' i = Some c' \<longrightarrow> (\<exists>c. clUp s i = Some c
          \<and> (\<forall>j t. (j, t) \<in> set (ctActiveNodes c') \<longrightarrow> (j, t) \<in> set (ctActiveNodes c) \<or> j \<in> dom (clUp s))))"

lemma same_members_refl: "same_members s s"
  by (auto simp: same_members_def)

lemma same_membersD:
  assumes "same_members s s'" "clUp s' i = Some c'"
  obtains c where "clUp s i = Some c" "\<forall>j t. (j, t) \<in> set (ctActiveNodes c') \<longrightarrow> (j, t) \<in> set (ctActiveNodes c) \<or> j \<in> dom (clUp s)"
  using assms unfolding same_members_def by blast

lemma same_members_trans:
  assumes "same_members s s'" "same_members s' s''"
  shows "same_members s s''"
  unfolding same_members_def
proof (intro conjI allI impI)
  show "dom (clUp s'') = dom (clUp s)" "clNow s \<le> clNow s''" using assms by (auto simp: same_members_def)
  fix i c'' assume "clUp s'' i = Some c''"
  then obtain c' where c': "clUp s' i = Some c'"
      "\<forall>j t. (j, t) \<in> set (ctActiveNodes c'') \<longrightarrow> (j, t) \<in> set (ctActiveNodes c') \<or> j \<in> dom (clUp s')"
    by (rule same_membersD [OF assms(2)])
  then obtain c where c: "clUp s i = Some c"
      "\<forall>j t. (j, t) \<in> set (ctActiveNodes c') \<longrightarrow> (j, t) \<in> set (ctActiveNodes c) \<or> j \<in> dom (clUp s)"
    using same_membersD [OF assms(1)] by blast
  have "dom (clUp s') = dom (clUp s)" using assms(1) by (simp add: same_members_def)
  with c'(2) c(2) have "\<forall>j t. (j, t) \<in> set (ctActiveNodes c'') \<longrightarrow> (j, t) \<in> set (ctActiveNodes c) \<or> j \<in> dom (clUp s)" by blast
  with c(1) show "\<exists>c. clUp s i = Some c \<and> (\<forall>j t. (j, t) \<in> set (ctActiveNodes c'') \<longrightarrow> (j, t) \<in> set (ctActiveNodes c) \<or> j \<in> dom (clUp s))"
    by blast
qed

lemma keep_round_ok:
  assumes "cluster_ok s" "member_ok (clNow s) i c'" "file_ok d'"
  shows "cluster_ok (keep_round i s (c', d'))"
  using assms by (simp add: cluster_ok_def keep_round_def)

lemma up_ok:
  assumes "cluster_ok s" "clUp s i = Some c"
  shows "member_ok (clNow s) i c" "file_ok (clDisk s)"
  using assms by (auto simp: cluster_ok_def)

lemma failover_round_ok:
  assumes "cluster_ok s"
  obtains s' where "failover_round i s = Some s'" "cluster_ok s'" "same_members s s'" "clNow s' = clNow s"
proof (cases "clUp s i")
  case None
  then show thesis using assms by (intro that [of s]) (simp_all add: failover_round_def same_members_refl)
next
  case (Some c)
  obtain c' d' where run: "checkFailover None no_save_faults (clNow s) (c, clDisk s) = Some (c', d')" "member_ok (clNow s) i c'"
      "file_ok d'" "ctActiveNodes c' = ctActiveNodes c"
    by (rule failover_member [OF up_ok [OF assms Some]])
  show thesis
  proof (rule that)
    show "failover_round i s = Some (keep_round i s (c', d'))" using run(1) by (simp add: failover_round_def Some)
    show "same_members s (keep_round i s (c', d'))" using Some run(4) by (auto simp: same_members_def keep_round_def)
  qed (use keep_round_ok [OF assms run(2,3)] in \<open>simp_all add: keep_round_def\<close>)
qed

lemma rebalance_round_ok:
  assumes "cluster_ok s"
  obtains s' where "rebalance_round rb produced i s = Some s'" "cluster_ok s'"
proof (cases "clUp s i")
  case None
  then show thesis using assms by (intro that [of s]) (simp_all add: rebalance_round_def)
next
  case (Some c)
  obtain c' d' where run: "checkLoad None no_save_faults produced rb (c, clDisk s) = Some (c', d')" "member_ok (clNow s) i c'" "file_ok d'"
    by (rule move_member [OF up_ok [OF assms Some]])
  then show thesis using keep_round_ok [OF assms run(2,3)] by (intro that) (simp_all add: rebalance_round_def Some)
qed

lemma start_broker_ok:
  assumes "cluster_ok s" "i \<in> broker_ids"
  obtains s' where "start_broker i dir s = Some s'" "cluster_ok s'"
proof (cases "clUp s i")
  case None
  have "clDisk s shared_path = None \<or> file_ok (clDisk s)" using assms(1) by (auto simp: cluster_ok_def)
  then obtain c d' where run: "ControllerStart None no_save_faults (NewController True i dir, clDisk s) = Some (c, d')"
      "member_ok (clNow s) i c" "file_ok d'"
    by (rule start_member [OF assms(2)])
  then show thesis using keep_round_ok [OF assms(1) run(2,3)] by (intro that) (simp_all add: start_broker_def None)
next
  case (Some c)
  then show thesis using assms(1) by (intro that [of s]) (simp_all add: start_broker_def)
qed

lemma quiet_step_ok:
  assumes "quiet_step s s'" "cluster_ok s"
  shows "cluster_ok s'" "same_members s s'"
proof -
  from assms have "cluster_ok s' \<and> same_members s s'"
  proof (induction rule: quiet_step.induct)
    case (time dt s)
    then have "member_ok (clNow s + dt) i c" if "member_ok (clNow s) i c" for i c using member_ok_later [OF that] by simp
    with time show ?case by (auto simp: cluster_ok_def same_members_def)
  next
    case (heartbeat s i j)
    have ids: "i \<in> broker_ids" if "clUp s i = Some c" for c using up_ok(1) [OF heartbeat that] by (simp add: member_ok_def)
    show ?case
      unfolding heartbeat_arrives_up [OF heartbeat]
      using heartbeat ids seen_member set_update_subset [of i "clNow s"]
      by (fastforce simp: cluster_ok_def same_members_def split: option.splits if_splits)
  next
    case (failover i s s')
    then show ?case using failover_round_ok [OF failover(2), of i] by (metis option.inject)
  qed
  then show "cluster_ok s'" "same_members s s'" by simp_all
qed

lemma cluster_step_ok:
  assumes "cluster_step s s'" "cluster_ok s"
  shows "cluster_ok s'"
  using assms
proof (induction rule: cluster_step.induct)
  case (rebalance rb produced i s s')
  then show ?case using rebalance_round_ok [OF rebalance(2)] by (metis option.inject)
next
  case (start i s dir s')
  then show ?case using start_broker_ok [OF start(3,1)] by (metis option.inject)
next
  case (crash s i)
  then show ?case by (auto simp: cluster_ok_def crash_def)
qed (rule quiet_step_ok)

interpretation runs: guarded_steps cluster_step cluster_ok
  by unfold_locales (rule cluster_step_ok)

interpretation quiet: keeping_steps quiet_step cluster_ok same_members
  by unfold_locales (blast intro: quiet_step_ok same_members_refl same_members_trans)+

lemma cluster_reachable_ok: "cluster_step\<^sup>*\<^sup>* (cluster_init now) s \<Longrightarrow> cluster_ok s"
  by (erule runs.run_safe) (simp add: cluster_ok_def cluster_init_def)

end
