(* ===== verification/Cluster_Failover.thy ===== *)
theory Cluster_Failover
  imports Cluster
begin

text \<open>
  Leadership in the cluster. \<open>abs_cluster\<close> forgets the representation of the file and of the caches; failover rounds and starts of
  brokers refine operations on maps (\<open>failover_refines\<close>, \<open>start_refines\<close>), on which runs are easily followed.

  The properties: in every run the file names a leader for both partitions of \<^verbatim>\<open>test\<close> and no broker panics; a leader that
  stays away is replaced; a partition that the rebalancer moves has no leader from then on; and a broker whose cache is out of date can
  keep a partition without a leader.
\<close>

section \<open>The cluster without its representation\<close>

text \<open>What the failover protocol is about: the time, the cached leaders and last heartbeats of every broker that is up, and the
  leaders on file.\<close>

record abstract_cluster =
  acNow :: int
  acUp :: "int \<rightharpoonup> (string \<rightharpoonup> int) \<times> (int \<times> int) list"
  acFile :: "string \<rightharpoonup> int"

definition abs_cluster :: "Cluster \<Rightarrow> abstract_cluster" where
  "abs_cluster s = \<lparr>acNow = clNow s, acUp = (\<lambda>i. map_option (\<lambda>c. (map_of (leaders c), ctActiveNodes c)) (clUp s i)), acFile = file_leader s\<rparr>"

definition abs_failover :: "int \<Rightarrow> abstract_cluster \<Rightarrow> abstract_cluster" where
  "abs_failover i a =
     (case acUp a i of
        None \<Rightarrow> a
      | Some (cache, act) \<Rightarrow>
          (case failover_spec i (acNow a) (AList.update i (acNow a) act) cache (acFile a) of
             (cache, onFile) \<Rightarrow> a\<lparr>acUp := (acUp a)(i \<mapsto> (cache, act)), acFile := onFile\<rparr>))"

definition abs_start :: "int \<Rightarrow> abstract_cluster \<Rightarrow> abstract_cluster" where
  "abs_start i a =
     (if acUp a i \<noteq> None then a
      else let onFile = (if acFile a = Map.empty then [''test-0'' \<mapsto> 0, ''test-1'' \<mapsto> 1] else acFile a)
        in a\<lparr>acUp := (acUp a)(i \<mapsto> (onFile, [])), acFile := onFile\<rparr>)"

lemma file_ok_leader:
  assumes "file_ok (clDisk s)"
  shows "dom (file_leader s) = partitions" "table (file_leader s)"
proof -
  obtain m where "on_file shared_path m (clDisk s)" "table (map_of m)" "dom (map_of m) = partitions" using assms by (auto simp: file_ok_def)
  then show "dom (file_leader s) = partitions" "table (file_leader s)" using disk_leaders_on_file by metis+
qed

lemma abs_keep_round:
  assumes "on_file shared_path m d"
  shows "abs_cluster (keep_round i s (c, d)) =
    (abs_cluster s)\<lparr>acUp := (acUp (abs_cluster s))(i \<mapsto> (map_of (leaders c), ctActiveNodes c)), acFile := map_of m\<rparr>"
proof -
  have "file_leader (keep_round i s (c, d)) = map_of m" using assms by (intro disk_leaders_on_file) (simp add: keep_round_def)
  then show ?thesis by (auto simp: abs_cluster_def keep_round_def)
qed

lemma failover_refines:
  assumes "cluster_ok s"
  obtains s' where "failover_round i s = Some s'" "abs_cluster s' = abs_failover i (abs_cluster s)"
proof (cases "clUp s i")
  case None
  then show thesis by (intro that [of s]) (simp_all add: failover_round_def abs_failover_def abs_cluster_def)
next
  case (Some c)
  note ok = up_ok [OF assms Some]
  have c: "wf_controller c" "ctBrokerID c = i" "ctLeadersPath c = shared_path" using ok(1) by (simp_all add: member_ok_def)
  obtain m where m: "on_file shared_path m (clDisk s)" using ok(2) by (auto simp: file_ok_def)
  then have f: "file_leader s = map_of m" by (rule disk_leaders_on_file)
  obtain c' d' m' where run: "checkFailover None no_save_faults (clNow s) (c, clDisk s) = Some (c', d')"
      "on_file shared_path m' d'" "ctActiveNodes c' = ctActiveNodes c"
    and spec: "failover_spec i (clNow s) (view (clNow s) c) (map_of (leaders c)) (map_of m) = (map_of (leaders c'), map_of m')"
    by (rule checkFailover_spec [OF c(1) m [folded c(3)], unfolded c(2,3)])
  show thesis
  proof (rule that)
    show "failover_round i s = Some (keep_round i s (c', d'))" using run(1) by (simp add: failover_round_def Some)
    have up: "acUp (abs_cluster s) i = Some (map_of (leaders c), ctActiveNodes c)" "acFile (abs_cluster s) = map_of m"
        "acNow (abs_cluster s) = clNow s" by (simp_all add: abs_cluster_def Some f)
    show "abs_cluster (keep_round i s (c', d')) = abs_failover i (abs_cluster s)"
      unfolding abs_keep_round [OF run(2)] abs_failover_def up using spec run(3) by (simp add: view_def c(2))
  qed
qed

lemma start_refines:
  assumes "cluster_ok s" "i \<in> broker_ids"
  obtains s' where "start_broker i dir s = Some s'" "abs_cluster s' = abs_start i (abs_cluster s)"
proof (cases "clUp s i")
  case (Some c)
  then show thesis by (intro that [of s]) (simp_all add: start_broker_def abs_start_def abs_cluster_def)
next
  case None
  let ?n = "NewController True i dir"
  have n: "leaders ?n = []" "ctActiveNodes ?n = []" "ctLeadersPath ?n = shared_path" "wf_controller ?n"
    using new_member [OF assms(2), of 0 dir] by (simp_all add: member_ok_def) (simp_all add: NewController_def leaders_def)
  have a: "acUp (abs_cluster s) i = None" "acFile (abs_cluster s) = file_leader s" by (simp_all add: abs_cluster_def None)
  show thesis
  proof (cases "clDisk s shared_path = None")
    case True
    define c where "c = ?n\<lparr>ctLeaders := Some [(''test-0'', 0), (''test-1'', 1)]\<rparr>"
    have run: "ControllerStart None no_save_faults (?n, clDisk s) = Some (c, saveLeaders no_save_faults c (clDisk s))"
      using True by (simp add: c_def ControllerStart_def loadLeaders_def NewController_def shared_path_def setLeader_def Let_def)
    have c: "wf_controller c" "ctLeadersPath c = shared_path" "leaders c = [(''test-0'', 0), (''test-1'', 1)]" "ctActiveNodes c = []"
      using n by (simp_all add: c_def wf_controller_def wf_map_def ascii_def in_int64_def)
    have map: "map_of (leaders c) = [''test-0'' \<mapsto> 0, ''test-1'' \<mapsto> 1]" by (auto simp: c(3) fun_eq_iff)
    have none: "file_leader s = Map.empty" using True by (simp add: disk_leaders_def)
    show thesis
    proof (rule that)
      show "start_broker i dir s = Some (keep_round i s (c, saveLeaders no_save_faults c (clDisk s)))"
        using run by (simp add: start_broker_def None)
      show "abs_cluster (keep_round i s (c, saveLeaders no_save_faults c (clDisk s))) = abs_start i (abs_cluster s)"
        unfolding abs_keep_round [OF saveLeaders_file [OF c(1), unfolded c(2)]] abs_start_def a none map using c(4) by (simp add: Let_def)
    qed
  next
    case False
    then have ok: "file_ok (clDisk s)" using assms(1) by (auto simp: cluster_ok_def)
    then obtain m where m: "on_file shared_path m (clDisk s)" by (auto simp: file_ok_def)
    have f: "file_leader s = map_of m" by (rule disk_leaders_on_file [OF m])
    have "dom (map_of m) \<noteq> {}" using file_ok_leader(1) [OF ok] unfolding f partitions_def by simp
    then have ne: "map_of m \<noteq> Map.empty" by force
    obtain c where c: "loadLeaders None no_save_faults (?n, clDisk s) = Some (c, clDisk s)" "ctActiveNodes c = []"
        "map_of (leaders c) = map_of m"
      by (rule loadLeaders_file [OF n(4) m [folded n(3)]]) (simp add: n)
    show thesis
    proof (rule that)
      show "start_broker i dir s = Some (keep_round i s (c, clDisk s))" using c(1) by (simp add: start_broker_def None ControllerStart_def)
      show "abs_cluster (keep_round i s (c, clDisk s)) = abs_start i (abs_cluster s)"
        unfolding abs_keep_round [OF m] abs_start_def a f using c(2,3) ne by (simp add: Let_def)
    qed
  qed
qed

section \<open>A healthy cluster\<close>

text \<open>A broker is up to date with its peers when the last heartbeat of every other broker that is up is within the lease. In a healthy
  run the members stay, and failover rounds are run by brokers that are up to date.\<close>

definition hears_all :: "int \<Rightarrow> Cluster \<Rightarrow> bool" where
  "hears_all i s \<longleftrightarrow> (\<forall>c j. clUp s i = Some c \<and> j \<in> dom (clUp s) \<and> j \<noteq> i \<longrightarrow> alive (clNow s) (ctActiveNodes c) j)"

inductive healthy_step :: "Cluster \<Rightarrow> Cluster \<Rightarrow> bool" where
  time: "healthy_step s (s\<lparr>clNow := clNow s + dt\<rparr>)" if "0 \<le> dt"
| heartbeat: "healthy_step s (heartbeat_arrives i j s)"
| failover: "healthy_step s s'" if "hears_all i s" "failover_round i s = Some s'"

text \<open>Who leads what, on file and in every cache.\<close>

definition leadership :: "Cluster \<Rightarrow> (string \<rightharpoonup> int) \<times> (int \<rightharpoonup> string \<rightharpoonup> int)" where
  "leadership s = (file_leader s, \<lambda>i. map_option (\<lambda>c. map_of (leaders c)) (clUp s i))"

text \<open>Every broker believes that the leaders are up, or is not the lowest.\<close>

definition steady :: "Cluster \<Rightarrow> bool" where
  "steady s \<longleftrightarrow> (\<forall>i c. clUp s i = Some c \<longrightarrow> ran (map_of (leaders c)) \<subseteq> dom (clUp s) \<or> (\<exists>j \<in> dom (clUp s). j < i))"

lemma healthy_quiet: "healthy_step s s' \<Longrightarrow> quiet_step s s'"
  by (induction rule: healthy_step.induct) (auto intro: quiet_step.intros)

lemma leadership_abs: "leadership s = (acFile (abs_cluster s), \<lambda>i. map_option fst (acUp (abs_cluster s) i))"
  by (auto simp: leadership_def abs_cluster_def option.map_comp comp_def)

lemma leadership_cache:
  "leadership s' = leadership s \<Longrightarrow> map_option (\<lambda>c. map_of (leaders c)) (clUp s' i) = map_option (\<lambda>c. map_of (leaders c)) (clUp s i)"
  by (simp add: leadership_def fun_eq_iff)

lemma leadership_dom:
  assumes "leadership s' = leadership s"
  shows "dom (clUp s') = dom (clUp s)"
proof -
  have "(clUp s' i = None) = (clUp s i = None)" for i using arg_cong [OF leadership_cache [OF assms], of "\<lambda>x. x = None" i] by simp
  then show ?thesis by (simp add: dom_def)
qed

lemma leadership_up:
  assumes "leadership s' = leadership s" "clUp s' i = Some c'"
  obtains c where "clUp s i = Some c" "map_of (leaders c) = map_of (leaders c')"
  using leadership_cache [OF assms(1), of i] assms(2) that by (cases "clUp s i") auto

lemma leadership_steady:
  assumes "leadership s' = leadership s" "steady s"
  shows "steady s'"
  unfolding steady_def
proof (intro allI impI)
  fix i c' assume "clUp s' i = Some c'"
  then obtain c where c: "clUp s i = Some c" "map_of (leaders c) = map_of (leaders c')" by (rule leadership_up [OF assms(1)])
  then show "ran (map_of (leaders c')) \<subseteq> dom (clUp s') \<or> (\<exists>j \<in> dom (clUp s'). j < i)"
    using assms(2) unfolding leadership_dom [OF assms(1)] steady_def by metis
qed

lemma steady_failover:
  assumes "cluster_ok s" "steady s" "hears_all i s" "failover_round i s = Some s'"
  shows "leadership s' = leadership s"
proof (cases "clUp s i")
  case None
  then show ?thesis using assms(4) by (simp add: failover_round_def)
next
  case (Some c)
  let ?view = "AList.update i (clNow s) (ctActiveNodes c)"
  have heard: "j = i \<or> alive (clNow s) ?view j" if "j \<in> dom (clUp s)" for j
    using assms(3) that Some by (auto simp: hears_all_def alive_def update_conv')
  have idle: "failover_spec i (clNow s) ?view (map_of (leaders c)) (file_leader s) = (map_of (leaders c), file_leader s)"
  proof (cases "ran (map_of (leaders c)) \<subseteq> dom (clUp s)")
    case True
    then have "suspects i (clNow s) ?view (map_of (leaders c)) = {}" using heard by (fastforce simp: suspects_def ran_def)
    then show ?thesis by (simp add: failover_spec_def)
  next
    case False
    then obtain j where j: "j \<in> dom (clUp s)" "j < i" using assms(2) Some unfolding steady_def by blast
    then obtain t where "(j, t) \<in> set ?view" "clNow s - t \<le> lease"
      using heard [OF j(1)] by (auto simp: alive_def dest: map_of_SomeD split: option.splits)
    then have "lowestActive (clNow s) i ?view \<noteq> i" using j(2) unfolding lowestActive_self by force
    then show ?thesis by (simp add: failover_spec_def)
  qed
  obtain s'' where "failover_round i s = Some s''" "abs_cluster s'' = abs_failover i (abs_cluster s)" by (rule failover_refines [OF assms(1)])
  then have "abs_cluster s' = (abs_cluster s)\<lparr>acUp := (acUp (abs_cluster s))(i \<mapsto> (map_of (leaders c), ctActiveNodes c)), acFile := file_leader s\<rparr>"
    using assms(4) idle Some by (simp add: abs_failover_def abs_cluster_def)
  then show ?thesis unfolding leadership_abs by (auto simp: abs_cluster_def Some)
qed

lemma healthy_step_leadership:
  assumes "healthy_step s s'" "cluster_ok s" "steady s"
  shows "leadership s' = leadership s"
  using assms
proof (induction rule: healthy_step.induct)
  case (heartbeat s i j)
  then show ?case
    unfolding heartbeat_arrives_up [OF heartbeat(1)]
    by (auto simp: leadership_def disk_leaders_def leaders_def split: option.splits)
next
  case (failover i s s')
  then show ?case by (intro steady_failover)
qed (simp add: leadership_def disk_leaders_def)

interpretation healthy: constant_steps healthy_step "\<lambda>s. cluster_ok s \<and> steady s" leadership
proof unfold_locales
  fix s s' assume step: "healthy_step s s'" and safe: "cluster_ok s \<and> steady s"
  show "leadership s' = leadership s" using healthy_step_leadership [OF step] safe by simp
  then show "cluster_ok s' \<and> steady s'" using leadership_steady quiet_step_ok(1) [OF healthy_quiet [OF step]] safe by blast
qed

section \<open>After the lease\<close>

text \<open>Once the lease is over, the lowest broker that is up has heard lately only of brokers that are up, and of none that is lower.\<close>

lemma after_lease:
  assumes "cluster_ok s" "same_members s s'" "clNow s + lease < clNow s'" "clUp s' b = Some c" "\<forall>j \<in> dom (clUp s'). b \<le> j"
  shows "lowestActive (clNow s') b (AList.update b (clNow s') (ctActiveNodes c)) = b"
    and "j \<notin> dom (clUp s') \<Longrightarrow> \<not> alive (clNow s') (AList.update b (clNow s') (ctActiveNodes c)) j"
proof -
  let ?view = "AList.update b (clNow s') (ctActiveNodes c)"
  have dom: "dom (clUp s') = dom (clUp s)" using assms(2) by (simp add: same_members_def)
  obtain c0 where c0: "clUp s b = Some c0"
      "\<forall>j t. (j, t) \<in> set (ctActiveNodes c) \<longrightarrow> (j, t) \<in> set (ctActiveNodes c0) \<or> j \<in> dom (clUp s)"
    by (rule same_membersD [OF assms(2,4)])
  have heard: "t \<le> clNow s \<or> j \<in> dom (clUp s')" if "(j, t) \<in> set (ctActiveNodes c)" for j t
  proof -
    have "(j, t) \<in> set (ctActiveNodes c0) \<or> j \<in> dom (clUp s')" using c0(2) that dom by blast
    then show ?thesis using up_ok(1) [OF assms(1) c0(1)] by (auto simp: member_ok_def)
  qed
  have seen: "j \<in> dom (clUp s')" if "(j, t) \<in> set ?view" "clNow s' - t \<le> lease" for j t
    using that heard [of j t] set_update_subset [of b "clNow s'" "ctActiveNodes c"] assms(3,4) by auto
  show "lowestActive (clNow s') b ?view = b" unfolding lowestActive_self using seen assms(5) by auto
  show "j \<notin> dom (clUp s') \<Longrightarrow> \<not> alive (clNow s') ?view j"
    using seen [of j] by (auto simp: alive_def dest: map_of_SomeD split: option.splits)
qed

section \<open>Sample runs\<close>

text \<open>What can be reached from an empty directory, without the representation.\<close>

definition reaches :: "abstract_cluster \<Rightarrow> bool" where
  "reaches a \<longleftrightarrow> (\<exists>s. cluster_step\<^sup>*\<^sup>* (cluster_init 0) s \<and> abs_cluster s = a)"

definition two :: "int \<Rightarrow> int \<Rightarrow> string \<rightharpoonup> int" where
  "two x y = [''test-0'' \<mapsto> x, ''test-1'' \<mapsto> y]"

lemma reaches_step:
  assumes "reaches a" "\<And>s. cluster_ok s \<Longrightarrow> abs_cluster s = a \<Longrightarrow> \<exists>s'. cluster_step s s' \<and> abs_cluster s' = a'"
  shows "reaches a'"
proof -
  obtain s where s: "cluster_step\<^sup>*\<^sup>* (cluster_init 0) s" "abs_cluster s = a" using assms(1) by (auto simp: reaches_def)
  obtain s' where "cluster_step s s'" "abs_cluster s' = a'" using assms(2) [OF cluster_reachable_ok [OF s(1)] s(2)] by blast
  then show ?thesis using rtranclp.rtrancl_into_rtrancl [OF s(1)] by (auto simp: reaches_def)
qed

lemma reaches_init: "reaches \<lparr>acNow = 0, acUp = Map.empty, acFile = Map.empty\<rparr>"
  by (auto simp: reaches_def abs_cluster_def cluster_init_def disk_leaders_def intro!: exI [of _ "cluster_init 0"])

lemma reaches_start: "reaches a \<Longrightarrow> i \<in> broker_ids \<Longrightarrow> reaches (abs_start i a)"
  using start_refines [of _ i "''d''"] by (elim reaches_step) (metis cluster_step.start)

lemma reaches_failover: "reaches a \<Longrightarrow> reaches (abs_failover i a)"
  using failover_refines [of _ i] by (elim reaches_step) (metis cluster_step.quiet quiet_step.failover)

lemma reaches_crash: "reaches a \<Longrightarrow> reaches (a\<lparr>acUp := (acUp a)(i := None)\<rparr>)"
  by (elim reaches_step, intro exI conjI, rule cluster_step.crash [of _ i]) (auto simp: abs_cluster_def crash_def fun_eq_iff)

lemma reaches_time: "reaches a \<Longrightarrow> 0 \<le> dt \<Longrightarrow> reaches (a\<lparr>acNow := acNow a + dt\<rparr>)"
  by (elim reaches_step, intro exI conjI, rule cluster_step.quiet, rule quiet_step.time) (auto simp: abs_cluster_def)

lemma abs_up: "clUp s i = Some c \<Longrightarrow> acUp (abs_cluster s) i = Some (map_of (leaders c), ctActiveNodes c)"
  by (simp add: abs_cluster_def)

lemma abs_dom: "abs_cluster s = a \<Longrightarrow> dom (clUp s) = dom (acUp a)"
  by (auto simp: abs_cluster_def dom_def)

text \<open>A broker that has heard nobody takes everything over.\<close>

lemma takeover_all:
  assumes "acUp a i = Some (two x y, [])" "acFile a = two x y" "x \<noteq> i" "y \<noteq> i"
  shows "abs_failover i a = a\<lparr>acUp := (acUp a)(i \<mapsto> (two i i, [])), acFile := two i i\<rparr>"
proof -
  let ?v = "[(i, acNow a)]"
  have dead: "\<not> alive (acNow a) ?v j" if "j \<noteq> i" for j using that by (simp add: alive_def)
  have low: "lowestActive (acNow a) i ?v = i" by (simp add: lowestActive_def)
  have idem: "two x y ++ two x y = two x y" by (rule map_add_idem)
  have K: "suspects i (acNow a) ?v (two x y) = {''test-0'', ''test-1''}"
    using assms(3,4) dead by (auto simp: suspects_def two_def split: if_splits)
  have D: "orphans (acNow a) ?v {''test-0'', ''test-1''} (two x y) = {''test-0'', ''test-1''}"
    using assms(3,4) dead by (auto simp: orphans_def two_def)
  have "claim i {''test-0'', ''test-1''} (two x y) = two i i" by (auto simp: claim_def two_def fun_eq_iff)
  then have "failover_spec i (acNow a) ?v (two x y) (two x y) = (two i i, two i i)"
    by (simp add: failover_spec_def idem K D low)
  then show ?thesis using assms(1,2) by (simp add: abs_failover_def)
qed

lemma first_start: "reaches \<lparr>acNow = 0, acUp = [i \<mapsto> (two 0 1, [])], acFile = two 0 1\<rparr>" if "i \<in> broker_ids"
  using reaches_start [OF reaches_init that] by (simp add: abs_start_def two_def Let_def)

section \<open>Properties\<close>

text \<open>\<^bold>\<open>C18\<close>: in every run of the cluster from an empty directory, whatever crashes, restarts, lost heartbeats, failovers and
  rebalancing there are, no broker panics; as soon as a broker is up the file names exactly one of the three brokers as the
  leader of each partition of \<^verbatim>\<open>test\<close>, and every broker knows at most those. The partitions of all other topics are led by the broker
  \<^verbatim>\<open>partition % 2\<close> for ever, whether it is up or not.\<close>

theorem cluster_keeps_leaders:
  assumes "cluster_step\<^sup>*\<^sup>* (cluster_init now) s"
  shows "(\<forall>i. failover_round i s \<noteq> None) \<and> (\<forall>rb produced i. rebalance_round rb produced i s \<noteq> None)
    \<and> (\<forall>i dir. i \<in> broker_ids \<longrightarrow> start_broker i dir s \<noteq> None)
    \<and> (\<forall>i c. clUp s i = Some c \<longrightarrow> dom (file_leader s) = {''test-0'', ''test-1''} \<and> ran (file_leader s) \<subseteq> {0, 1, 2}
        \<and> ran (map_of (leaders c)) \<subseteq> {0, 1, 2}
        \<and> (\<forall>topic part. partition_key topic part \<notin> {''test-0'', ''test-1''} \<longrightarrow> GetLeader topic part c = go_mod part 2))"
proof (intro conjI allI impI)
  have ok: "cluster_ok s" by (rule cluster_reachable_ok [OF assms])
  show "failover_round i s \<noteq> None" "rebalance_round rb produced i s \<noteq> None" for rb produced i
    using failover_round_ok [OF ok] rebalance_round_ok [OF ok] by (metis option.distinct(1))+
  show "start_broker i dir s \<noteq> None" if "i \<in> broker_ids" for i dir
    using start_broker_ok [OF ok that] by (metis option.distinct(1))
  fix i c assume up: "clUp s i = Some c"
  note c = up_ok [OF ok up] and f = file_ok_leader [OF up_ok(2) [OF ok up]]
  show "dom (file_leader s) = {''test-0'', ''test-1''}" using f(1) by (simp add: partitions_def)
  show "ran (file_leader s) \<subseteq> {0, 1, 2}" "ran (map_of (leaders c)) \<subseteq> {0, 1, 2}"
    using f(2) c(1) by (simp_all add: table_def member_ok_def broker_ids_def)
  fix topic part assume "partition_key topic part \<notin> {''test-0'', ''test-1''}"
  then have "map_of (leaders c) (partition_key topic part) = None"
    using c(1) by (auto simp: member_ok_def table_def partitions_def)
  then show "GetLeader topic part c = go_mod part 2" by (simp add: GetLeader_def)
qed

theorem cluster_keeps_leaders_witness:
  "\<exists>s c. cluster_step\<^sup>*\<^sup>* (cluster_init 0) s \<and> clUp s 1 = Some c \<and> dom (file_leader s) = {''test-0'', ''test-1''}
    \<and> GetLeader ''other'' 3 c = 1 \<and> failover_round 1 s \<noteq> None"
proof -
  obtain s where s: "cluster_step\<^sup>*\<^sup>* (cluster_init 0) s" "abs_cluster s = \<lparr>acNow = 0, acUp = [1 \<mapsto> (two 0 1, [])], acFile = two 0 1\<rparr>"
    using first_start [of 1] by (auto simp: reaches_def broker_ids_def)
  have "dom (clUp s) = {1}" using abs_dom [OF s(2)] by simp
  then obtain c where c: "clUp s 1 = Some c" by blast
  have key: "partition_key ''other'' 3 \<notin> {''test-0'', ''test-1''}" "go_mod 3 2 = 1" by code_simp+
  note inv = cluster_keeps_leaders [OF s(1)]
  have fo: "failover_round 1 s \<noteq> None" by (rule spec [OF conjunct1 [OF inv]])
  note led = inv [THEN conjunct2, THEN conjunct2, THEN conjunct2, THEN spec, THEN spec, THEN mp, OF c]
  have "GetLeader ''other'' 3 c = 1"
    using led [THEN conjunct2, THEN conjunct2, THEN conjunct2, THEN spec, THEN spec, THEN mp, OF key(1)] unfolding key(2) .
  with s(1) c led [THEN conjunct1] fo show ?thesis by blast
qed

text \<open>\<^bold>\<open>C6\<close>: a leader that stays away is replaced. Let some brokers be down, and let the others run on by themselves, with any
  failover rounds and any heartbeats between them, until the lease of ten seconds is over. Then the next round of the lowest broker that
  is up leaves every partition of which it knows the leader on file with a leader that is up; and it leads the partition
  itself, on file and in its own eyes, when the leader was down.\<close>

theorem dead_leader_is_replaced:
  assumes "cluster_step\<^sup>*\<^sup>* (cluster_init t0) s" "quiet_step\<^sup>*\<^sup>* s s'" "clNow s + lease < clNow s'"
    and "clUp s' b = Some c" "\<forall>j \<in> dom (clUp s'). b \<le> j"
    and "file_leader s' k = Some l" "map_of (leaders c) k = Some l"
  shows "\<exists>s'' c'' l''. failover_round b s' = Some s'' \<and> file_leader s'' k = Some l'' \<and> l'' \<in> dom (clUp s'')
    \<and> clUp s'' b = Some c'' \<and> (l \<notin> dom (clUp s') \<longrightarrow> l'' = b \<and> map_of (leaders c'') k = Some b)"
proof -
  have ok: "cluster_ok s" by (rule cluster_reachable_ok [OF assms(1)])
  have ok': "cluster_ok s'" and same: "same_members s s'" by (rule quiet.run_safe quiet.run_kept, fact, fact)+
  let ?view = "AList.update b (clNow s') (ctActiveNodes c)"
  note low = after_lease(1) [OF ok same assms(3-5)] and dead = after_lease(2) [OF ok same assms(3-5)]
  obtain s'' where s'': "failover_round b s' = Some s''" "abs_cluster s'' = abs_failover b (abs_cluster s')"
    by (rule failover_refines [OF ok'])
  obtain cache' fl' where spec: "failover_spec b (clNow s') ?view (map_of (leaders c)) (file_leader s') = (cache', fl')" by fastforce
  have "abs_cluster s'' = (abs_cluster s')\<lparr>acUp := (acUp (abs_cluster s'))(b \<mapsto> (cache', ctActiveNodes c)), acFile := fl'\<rparr>"
    using s''(2) spec assms(4) by (simp add: abs_failover_def abs_cluster_def)
  then have file'': "file_leader s'' = fl'" and up'': "map_option (\<lambda>c. (map_of (leaders c), ctActiveNodes c)) \<circ> clUp s''
      = (map_option (\<lambda>c. (map_of (leaders c), ctActiveNodes c)) \<circ> clUp s')(b \<mapsto> (cache', ctActiveNodes c))"
    by (simp_all add: abs_cluster_def comp_def)
  from fun_cong [OF up'', of b] obtain c'' where c'': "clUp s'' b = Some c''" "map_of (leaders c'') = cache'" by auto
  have dom'': "dom (clUp s'') = dom (clUp s')"
    using s''(1) ok' failover_round_ok [of s' b] by (metis same_members_def option.inject)
  show ?thesis
  proof (cases "l \<in> dom (clUp s')")
    case True
    then have "fl' k = Some l \<or> fl' k = Some b" using failover_spec_keeps [OF spec assms(6)] by auto
    then obtain l'' where "fl' k = Some l''" "l'' \<in> dom (clUp s')" using True assms(4) by auto
    then show ?thesis using True s''(1) file'' c''(1) dom'' by auto
  next
    case False
    then have "l \<noteq> b" using assms(4) by auto
    then have "cache' k = Some b" "fl' k = Some b"
      using failover_spec_claims [OF spec low assms(7) _ dead [OF False] assms(6) dead [OF False]] by simp_all
    then show ?thesis using s''(1) file'' c'' dom'' assms(4) by auto
  qed
qed

theorem dead_leader_is_replaced_witness:
  "\<exists>s s' s''. cluster_step\<^sup>*\<^sup>* (cluster_init 0) s \<and> quiet_step\<^sup>*\<^sup>* s s' \<and> file_leader s' ''test-0'' = Some 0 \<and> 0 \<notin> dom (clUp s')
    \<and> failover_round 1 s' = Some s'' \<and> file_leader s'' ''test-0'' = Some 1"
proof -
  obtain s where s: "cluster_step\<^sup>*\<^sup>* (cluster_init 0) s" "abs_cluster s = \<lparr>acNow = 0, acUp = [1 \<mapsto> (two 0 1, [])], acFile = two 0 1\<rparr>"
    using first_start [of 1] by (auto simp: reaches_def broker_ids_def)
  have "dom (clUp s) = {1}" using abs_dom [OF s(2)] by simp
  then obtain c where c: "clUp s 1 = Some c" by blast
  define s' where "s' = s\<lparr>clNow := clNow s + (lease + 1)\<rparr>"
  have q: "quiet_step\<^sup>*\<^sup>* s s'" unfolding s'_def by (rule r_into_rtranclp, rule quiet_step.time) (simp add: lease_def)
  have up: "clUp s' 1 = Some c" "dom (clUp s') = {1}" "clNow s + lease < clNow s'"
    using c abs_dom [OF s(2)] by (auto simp: s'_def)
  have f: "file_leader s' = two 0 1" "map_of (leaders c) = two 0 1"
    using s(2) abs_up [OF c] by (simp_all add: s'_def) (simp add: abs_cluster_def)
  have "file_leader s' ''test-0'' = Some 0" "map_of (leaders c) ''test-0'' = Some 0" by (simp_all add: f two_def)
  moreover have "\<forall>j \<in> dom (clUp s'). 1 \<le> j" "0 \<notin> dom (clUp s')" unfolding up(2) by simp_all
  ultimately show ?thesis using dead_leader_is_replaced [OF s(1) q up(3,1), of "''test-0''" 0] s(1) q by blast
qed

text \<open>\<^bold>\<open>C37\<close>: the rebalancer takes a partition away and gives it to nobody. In a cluster whose caches agree with the file,
  let the leader of \<^verbatim>\<open>test-0\<close> find its counter over the threshold. On file the partition then belongs to the next
  broker; but this one has no reason to read the file, so as long as the cluster is healthy, no broker answers as the leader.\<close>

theorem rebalanced_partition_has_no_leader:
  assumes "cluster_step\<^sup>*\<^sup>* (cluster_init t0) s" "dom (clUp s) = {0, 1, 2}"
    and "\<forall>i c. clUp s i = Some c \<longrightarrow> map_of (leaders c) = file_leader s" "file_leader s ''test-0'' = Some b"
    and "rbThreshold rb < produced" "rebalance_round rb produced b s = Some s1" "healthy_step\<^sup>*\<^sup>* s1 s2"
  shows "file_leader s2 ''test-0'' = Some ((b + 1) mod 3) \<and> (b + 1) mod 3 \<in> dom (clUp s2)
    \<and> (\<forall>i c. clUp s2 i = Some c \<longrightarrow> GetLeader ''test'' 0 c \<noteq> i)"
proof -
  have ok: "cluster_ok s" by (rule cluster_reachable_ok [OF assms(1)])
  have some: "\<exists>c. clUp s 0 = Some c" using assms(2) by blast
  then have "file_ok (clDisk s)" using up_ok(2) [OF ok] by blast
  then have b: "b \<in> {0, 1, 2}" using file_ok_leader(2) [of s] assms(4) by (auto simp: table_def broker_ids_def ran_def)
  then obtain c where c: "clUp s b = Some c" using assms(2) by blast
  have next_b: "go_mod (b + 1) 3 = (b + 1) mod 3" "(b + 1) mod 3 \<noteq> b" "(b + 1) mod 3 \<in> {0, 1, 2}" using b by (auto simp: go_mod_def)
  obtain c' d' where m: "checkLoad None no_save_faults produced rb (c, clDisk s) = Some (c', d')" "member_ok (clNow s) b c'"
      "file_ok d'"
    and t: "map_of (leaders c') ''test-0'' = Some (go_mod (b + 1) 3)" "disk_leaders d' ''test-0'' = Some (go_mod (b + 1) 3)"
    using move_member [OF up_ok [OF ok c], of produced rb] assms(5) by metis
  have s1: "s1 = keep_round b s (c', d')" using assms(6) m(1) by (simp add: rebalance_round_def c)
  then have ok1: "cluster_ok s1" using keep_round_ok [OF ok m(2,3)] by simp
  have dom1: "dom (clUp s1) = {0, 1, 2}" using assms(2) b by (auto simp: s1 keep_round_def)
  have "steady s1"
    using up_ok(1) [OF ok1] by (auto simp: steady_def dom1 member_ok_def table_def broker_ids_def)
  then have lead: "leadership s2 = leadership s1" using healthy.run_kept [OF assms(7)] ok1 by simp
  have key: "partition_key ''test'' 0 = ''test-0''" by code_simp
  have none: "GetLeader ''test'' 0 c2 \<noteq> i" if h: "clUp s2 i = Some c2" for i c2
  proof -
    obtain c1 where c1: "clUp s1 i = Some c1" "map_of (leaders c1) = map_of (leaders c2)" by (rule leadership_up [OF lead h])
    show ?thesis
    proof (cases "i = b")
      case True
      then show ?thesis using c1 t(1) next_b by (simp add: s1 keep_round_def GetLeader_def key)
    next
      case False
      then have "map_of (leaders c2) ''test-0'' = Some b" using c1 assms(3,4) by (simp add: s1 keep_round_def)
      then show ?thesis using False by (simp add: GetLeader_def key)
    qed
  qed
  have "file_leader s2 = file_leader s1" using lead by (simp add: leadership_def)
  then have "file_leader s2 ''test-0'' = Some ((b + 1) mod 3)" using t(2) next_b(1) by (simp add: s1 keep_round_def)
  moreover have "(b + 1) mod 3 \<in> dom (clUp s2)" using leadership_dom [OF lead] dom1 next_b(3) by simp
  ultimately show ?thesis using none by blast
qed

theorem rebalanced_partition_has_no_leader_witness:
  "\<exists>s s1. cluster_step\<^sup>*\<^sup>* (cluster_init 0) s \<and> rebalance_round (NewRebalancer 0 10000) 10001 0 s = Some s1
    \<and> file_leader s1 ''test-0'' = Some 1 \<and> (\<forall>i c. clUp s1 i = Some c \<longrightarrow> GetLeader ''test'' 0 c \<noteq> i)"
proof -
  have ids: "0 \<in> broker_ids" "1 \<in> broker_ids" "2 \<in> broker_ids" by (simp_all add: broker_ids_def)
  have "two 0 1 \<noteq> Map.empty" by (simp add: two_def)
  with reaches_start [OF reaches_start [OF first_start [OF ids(1)] ids(2)] ids(3)]
  have "reaches \<lparr>acNow = 0, acUp = [0 \<mapsto> (two 0 1, []), 1 \<mapsto> (two 0 1, []), 2 \<mapsto> (two 0 1, [])], acFile = two 0 1\<rparr>"
    by (simp add: abs_start_def Let_def)
  then obtain s where s: "cluster_step\<^sup>*\<^sup>* (cluster_init 0) s" "abs_cluster s =
      \<lparr>acNow = 0, acUp = [0 \<mapsto> (two 0 1, []), 1 \<mapsto> (two 0 1, []), 2 \<mapsto> (two 0 1, [])], acFile = two 0 1\<rparr>"
    by (auto simp: reaches_def)
  have f: "file_leader s = two 0 1" using s(2) by (simp add: abs_cluster_def)
  have dom: "dom (clUp s) = {0, 1, 2}" using abs_dom [OF s(2)] by auto
  have caches: "\<forall>i c. clUp s i = Some c \<longrightarrow> map_of (leaders c) = file_leader s"
  proof (intro allI impI)
    fix i c assume "clUp s i = Some c"
    from abs_up [OF this] show "map_of (leaders c) = file_leader s" unfolding s(2) f by (simp split: if_splits)
  qed
  obtain s1 where s1: "rebalance_round (NewRebalancer 0 10000) 10001 0 s = Some s1"
    by (rule rebalance_round_ok [OF cluster_reachable_ok [OF s(1)]])
  have "rbThreshold (NewRebalancer 0 10000) < 10001" "file_leader s ''test-0'' = Some 0" by (simp_all add: NewRebalancer_def f two_def)
  from rebalanced_partition_has_no_leader [OF s(1) dom caches this(2,1) s1 rtranclp.rtrancl_refl] s(1) s1 show ?thesis by auto
qed

text \<open>\<^bold>\<open>C38\<close>: why the lowest broker has to know the leader on file. Broker 2 leads both partitions and goes away, broker 0
  takes over while broker 1, which is not the lowest, does not read the file; broker 2 comes back and broker 0 goes away. Now broker 1
  is the lowest and believes that broker 2 leads, broker 2 knows that broker 0 led but is not the lowest: in a healthy
  cluster nobody ever takes over, and nobody answers as the leader.\<close>

theorem stale_cache_blocks_failover:
  "\<exists>s. cluster_step\<^sup>*\<^sup>* (cluster_init 0) s \<and> dom (clUp s) = {1, 2} \<and>
     (\<forall>s'. healthy_step\<^sup>*\<^sup>* s s' \<longrightarrow> dom (clUp s') = {1, 2} \<and> file_leader s' ''test-0'' = Some 0
        \<and> (\<forall>i c. clUp s' i = Some c \<longrightarrow> GetLeader ''test'' 0 c \<noteq> i))"
proof -
  let ?t = "lease + 1"
  have t: "0 \<le> ?t" by (simp add: lease_def)
  have ids: "0 \<in> broker_ids" "1 \<in> broker_ids" "2 \<in> broker_ids" by (simp_all add: broker_ids_def)
  have ne: "two x y \<noteq> Map.empty" for x y by (simp add: two_def)
  have "reaches \<lparr>acNow = ?t, acUp = [2 \<mapsto> (two 0 1, [])], acFile = two 0 1\<rparr>"
    using reaches_time [OF first_start [OF ids(3)] t] by simp
  from reaches_failover [OF this, of 2] have "reaches \<lparr>acNow = ?t, acUp = [2 \<mapsto> (two 2 2, [])], acFile = two 2 2\<rparr>"
    by (simp add: takeover_all)
  from reaches_start [OF reaches_start [OF this ids(1)] ids(2)]
  have "reaches \<lparr>acNow = ?t, acUp = [2 \<mapsto> (two 2 2, []), 0 \<mapsto> (two 2 2, []), 1 \<mapsto> (two 2 2, [])], acFile = two 2 2\<rparr>"
    by (simp add: abs_start_def ne Let_def)
  from reaches_time [OF reaches_crash [OF this, of 2] t]
  have "reaches \<lparr>acNow = ?t + ?t, acUp = [0 \<mapsto> (two 2 2, []), 1 \<mapsto> (two 2 2, [])], acFile = two 2 2\<rparr>"
    by (simp add: fun_upd_twist)
  from reaches_failover [OF this, of 0]
  have "reaches \<lparr>acNow = ?t + ?t, acUp = [0 \<mapsto> (two 0 0, []), 1 \<mapsto> (two 2 2, [])], acFile = two 0 0\<rparr>"
    by (simp add: takeover_all fun_upd_twist)
  from reaches_crash [OF reaches_start [OF this ids(3)], of 0]
  have "reaches \<lparr>acNow = ?t + ?t, acUp = [1 \<mapsto> (two 2 2, []), 2 \<mapsto> (two 0 0, [])], acFile = two 0 0\<rparr>"
    by (simp add: abs_start_def ne Let_def fun_upd_twist)
  then obtain s where s: "cluster_step\<^sup>*\<^sup>* (cluster_init 0) s"
      "abs_cluster s = \<lparr>acNow = ?t + ?t, acUp = [1 \<mapsto> (two 2 2, []), 2 \<mapsto> (two 0 0, [])], acFile = two 0 0\<rparr>"
    by (auto simp: reaches_def)
  have dom: "dom (clUp s) = {1, 2}" using abs_dom [OF s(2)] by auto
  have c1: "map_of (leaders c) = two 2 2" if "clUp s 1 = Some c" for c using abs_up [OF that] s(2) by simp
  have c2: "map_of (leaders c) = two 0 0" if "clUp s 2 = Some c" for c using abs_up [OF that] s(2) by simp
  have up: "i = 1 \<or> i = 2" if "clUp s i = Some c" for i c using that dom by blast
  have "ran (two 2 2) \<subseteq> {1, 2}" by (auto simp: two_def ran_def split: if_splits)
  then have steady: "steady s" using c1 up by (fastforce simp: steady_def dom)
  have "dom (clUp s') = {1, 2} \<and> file_leader s' ''test-0'' = Some 0 \<and> (\<forall>i c. clUp s' i = Some c \<longrightarrow> GetLeader ''test'' 0 c \<noteq> i)"
    if h: "healthy_step\<^sup>*\<^sup>* s s'" for s'
  proof (intro conjI allI impI)
    have lead: "leadership s' = leadership s" using healthy.run_kept [OF h] cluster_reachable_ok [OF s(1)] steady by simp
    show "dom (clUp s') = {1, 2}" using leadership_dom [OF lead] dom by simp
    have "file_leader s' = two 0 0" using lead s(2) by (auto simp: leadership_abs) (simp add: abs_cluster_def)
    then show "file_leader s' ''test-0'' = Some 0" by (simp add: two_def)
    fix i c' assume "clUp s' i = Some c'"
    then obtain c where c: "clUp s i = Some c" "map_of (leaders c) = map_of (leaders c')" by (rule leadership_up [OF lead])
    have key: "partition_key ''test'' 0 = ''test-0''" by code_simp
    have "map_of (leaders c') = (if i = 1 then two 2 2 else two 0 0)" using up [OF c(1)] c(1) c1 c2 unfolding c(2) [symmetric] by auto
    then show "GetLeader ''test'' 0 c' \<noteq> i" using up [OF c(1)] by (auto simp: GetLeader_def two_def key)
  qed
  with s(1) dom show ?thesis by blast
qed

theorem stale_cache_blocks_failover_witness:
  "\<exists>s c. cluster_step\<^sup>*\<^sup>* (cluster_init 0) s \<and> clUp s 1 = Some c \<and> 0 \<notin> dom (clUp s) \<and> file_leader s ''test-0'' = Some 0
     \<and> GetLeader ''test'' 0 c \<noteq> 1"
proof -
  obtain s where run: "cluster_step\<^sup>*\<^sup>* (cluster_init 0) s"
    and stuck: "\<forall>s'. healthy_step\<^sup>*\<^sup>* s s' \<longrightarrow> dom (clUp s') = {1, 2} \<and> file_leader s' ''test-0'' = Some 0
        \<and> (\<forall>i c. clUp s' i = Some c \<longrightarrow> GetLeader ''test'' 0 c \<noteq> i)"
    using stale_cache_blocks_failover by (elim exE conjE)
  have here: "dom (clUp s) = {1, 2} \<and> file_leader s ''test-0'' = Some 0 \<and> (\<forall>i c. clUp s i = Some c \<longrightarrow> GetLeader ''test'' 0 c \<noteq> i)"
    by (rule stuck [THEN spec, THEN mp, OF rtranclp.rtrancl_refl])
  then have up: "1 \<in> dom (clUp s)" "0 \<notin> dom (clUp s)" by simp_all
  then obtain c where "clUp s 1 = Some c" by blast
  then show ?thesis using run here up by blast
qed

end
