(* ===== verification/Cluster_Race.thy ===== *)
theory Cluster_Race
  imports Cluster_Failover
begin

text \<open>
  The cluster at a finer grain. In \<open>Cluster\<close> a round on the leaders file is one step; but the lock that
  \<^verbatim>\<open>executeFailover\<close> and \<^verbatim>\<open>MovePartition\<close> hold is that of one process, and another broker may use the file between the load, the
  truncation in \<^verbatim>\<open>saveLeaders\<close> and the write. Here these are three steps (\<open>executeFailover_phases\<close>, \<open>MovePartition_phases\<close> and
  \<open>saveLeaders_phases\<close> say that in a row they are the functions of \<open>Controller\<close>), a failover round tries its partitions one by one, and
  \<open>race_step\<close> interleaves the brokers.

  The properties: every interleaving keeps complete caches and, but for the moment of a write, a complete file; a takeover can be overwritten by the rebalancer of
  another broker, after which two brokers lead. Both leave out a broker that is started, or killed, at the very moment between the truncation and the
  write; \<open>empty_file_disables_failover\<close> is what happens then.
\<close>

section \<open>The phases of the code\<close>

text \<open>\<^verbatim>\<open>saveLeaders\<close>: the file is opened and truncated, and then the encoder writes once, at the beginning.\<close>

definition truncateLeaders :: "Controller \<Rightarrow> disk \<Rightarrow> disk" where
  "truncateLeaders c d = d(ctLeadersPath c \<mapsto> [])"

definition writeLeaders :: "Controller \<Rightarrow> disk \<Rightarrow> disk" where
  "writeLeaders c d =
     (let out = bytes_of (leaders_json (ctLeaders c)) in d(ctLeadersPath c \<mapsto> out @ (case d (ctLeadersPath c) of None \<Rightarrow> [] | Some old \<Rightarrow> drop (length out) old)))"

text \<open>The decisions after the load. The result is the new cache, if it is to be saved.\<close>

definition claimLoaded :: "int \<Rightarrow> string \<Rightarrow> (int \<times> int) list \<Rightarrow> Controller \<Rightarrow> Controller option option" where
  "claimLoaded now partitionKey active c =
     (let curr = (case map_of (leaders c) partitionKey of Some l \<Rightarrow> l | None \<Rightarrow> 0) in
      if \<not> alive now active curr then map_option Some (setLeader partitionKey (ctBrokerID c) c) else Some None)"

definition moveLoaded :: "string \<Rightarrow> int \<Rightarrow> Controller \<Rightarrow> Controller option option" where
  "moveLoaded partitionKey newLeaderID c =
     (if map_of (leaders c) partitionKey = Some newLeaderID then Some None
      else map_option Some (setLeader partitionKey newLeaderID c))"

definition saved :: "Controller \<times> disk \<Rightarrow> Controller option \<Rightarrow> Controller \<times> disk" where
  "saved s r = (case r of None \<Rightarrow> s | Some c \<Rightarrow> (c, writeLeaders c (truncateLeaders c (snd s))))"

lemma saveLeaders_phases: "saveLeaders no_save_faults c d = writeLeaders c (truncateLeaders c d)"
  by (simp add: saveLeaders_def writeLeaders_def truncateLeaders_def no_save_faults_def Let_def)

lemma executeFailover_phases:
  "executeFailover None no_save_faults now partitionKey active (c, d) =
     (if lowestActive now (ctBrokerID c) active \<noteq> ctBrokerID c then Some (c, d)
      else Option.bind (loadLeaders None no_save_faults (c, d)) (\<lambda>(c, d).
        map_option (saved (c, d)) (claimLoaded now partitionKey active c)))"
  by (auto simp: executeFailover_def claimLoaded_def saved_def saveLeaders_phases Let_def comp_def map_option_case
      split: option.splits bind_splits)

lemma MovePartition_phases:
  "MovePartition None no_save_faults partitionKey newLeaderID s =
     Option.bind (loadLeaders None no_save_faults s) (\<lambda>(c, d). map_option (saved (c, d)) (moveLoaded partitionKey newLeaderID c))"
  by (auto simp: MovePartition_def moveLoaded_def saved_def saveLeaders_phases split: option.splits bind_splits)

section \<open>The steps\<close>

datatype call = Claim string "(int \<times> int) list" | Move string int

text \<open>Where the holder of the lock of a broker is: it has loaded the file, or it has truncated it.\<close>

datatype place = Loaded call | Writing

text \<open>A failover round has its copies of the leaders, of which some are still to be looked at, and of the heartbeats.\<close>

record Race =
  rcCluster :: Cluster
  rcLock :: "int \<rightharpoonup> place"
  rcRound :: "int \<rightharpoonup> (string \<times> int) list \<times> (int \<times> int) list"

definition race_init :: "int \<Rightarrow> Race" where
  "race_init now = \<lparr>rcCluster = cluster_init now, rcLock = Map.empty, rcRound = Map.empty\<rparr>"

definition race_load :: "int \<Rightarrow> call \<Rightarrow> Controller \<Rightarrow> Race \<Rightarrow> Race option" where
  "race_load i call c s =
     map_option (\<lambda>r. s\<lparr>rcCluster := keep_round i (rcCluster s) r, rcLock := (rcLock s)(i \<mapsto> Loaded call)\<rparr>)
       (loadLeaders None no_save_faults (c, clDisk (rcCluster s)))"

definition race_decide :: "int \<Rightarrow> call \<Rightarrow> Controller \<Rightarrow> Race \<Rightarrow> Race option" where
  "race_decide i call c s =
     map_option (\<lambda>r. case r of
         None \<Rightarrow> s\<lparr>rcLock := (rcLock s)(i := None)\<rparr>
       | Some c' \<Rightarrow> s\<lparr>rcCluster := keep_round i (rcCluster s) (c', truncateLeaders c' (clDisk (rcCluster s))),
            rcLock := (rcLock s)(i \<mapsto> Writing)\<rparr>)
       (case call of
          Claim partitionKey active \<Rightarrow> claimLoaded (clNow (rcCluster s)) partitionKey active c
        | Move partitionKey newLeaderID \<Rightarrow> moveLoaded partitionKey newLeaderID c)"

definition race_write :: "int \<Rightarrow> Controller \<Rightarrow> Race \<Rightarrow> Race" where
  "race_write i c s = s\<lparr>rcCluster := keep_round i (rcCluster s) (c, writeLeaders c (clDisk (rcCluster s))), rcLock := (rcLock s)(i := None)\<rparr>"

text \<open>The start of a broker: without a file it goes on to write the first one.\<close>

definition race_start :: "int \<Rightarrow> string \<Rightarrow> Race \<Rightarrow> Race option" where
  "race_start i dir s =
     (let c = NewController True i dir; d = clDisk (rcCluster s) in
      case d (ctLeadersPath c) of
        None \<Rightarrow>
          Option.bind (setLeader ''test-0'' 0 c) (\<lambda>c. Option.bind (setLeader ''test-1'' 1 c) (\<lambda>c.
            Some (s\<lparr>rcCluster := keep_round i (rcCluster s) (c, truncateLeaders c d), rcLock := (rcLock s)(i \<mapsto> Writing)\<rparr>)))
      | Some _ \<Rightarrow> map_option (\<lambda>r. s\<lparr>rcCluster := keep_round i (rcCluster s) r\<rparr>) (loadLeaders None no_save_faults (c, d)))"

definition race_crash :: "int \<Rightarrow> Race \<Rightarrow> Race" where
  "race_crash i s = s\<lparr>rcCluster := crash i (rcCluster s), rcLock := (rcLock s)(i := None), rcRound := (rcRound s)(i := None)\<rparr>"

text \<open>\<open>suspected\<close> are the tests of \<^verbatim>\<open>checkFailover\<close> and of \<^verbatim>\<open>executeFailover\<close> before the lock.\<close>

definition suspected :: "int \<Rightarrow> int \<Rightarrow> (int \<times> int) list \<Rightarrow> int \<Rightarrow> bool" where
  "suspected now brokerID active leaderID \<longleftrightarrow>
     leaderID \<noteq> brokerID \<and> \<not> alive now active leaderID \<and> lowestActive now brokerID active = brokerID"

inductive race_step :: "Race \<Rightarrow> Race \<Rightarrow> bool" where
  time: "race_step s (s\<lparr>rcCluster := (rcCluster s)\<lparr>clNow := clNow (rcCluster s) + dt\<rparr>\<rparr>)" if "0 \<le> dt"
| heartbeat: "race_step s (s\<lparr>rcCluster := heartbeat_arrives i j (rcCluster s)\<rparr>)" if "rcLock s j = None"
| round: "race_step s (s\<lparr>rcRound := (rcRound s)(i \<mapsto> (leaders c, view (clNow (rcCluster s)) c))\<rparr>)"
    if "clUp (rcCluster s) i = Some c" "rcLock s i = None" "rcRound s i = None"
| skip: "race_step s (s\<lparr>rcRound := (rcRound s)(i \<mapsto> (ks, active))\<rparr>)"
    if "rcRound s i = Some ((k, l) # ks, active)" "\<not> suspected (clNow (rcCluster s)) i active l"
| claim: "race_step s s'"
    if "rcRound s i = Some ((k, l) # ks, active)" "suspected (clNow (rcCluster s)) i active l" "clUp (rcCluster s) i = Some c"
      "rcLock s i = None" "race_load i (Claim k active) c (s\<lparr>rcRound := (rcRound s)(i \<mapsto> (ks, active))\<rparr>) = Some s'"
| finish: "race_step s (s\<lparr>rcRound := (rcRound s)(i := None)\<rparr>)" if "rcRound s i = Some ([], active)" "rcLock s i = None"
| move: "race_step s s'"
    if "clUp (rcCluster s) i = Some c" "rcLock s i = None" "produced > rbThreshold (rb :: Rebalancer)"
      "race_load i (Move ''test-0'' (go_mod (ctBrokerID c + 1) 3)) c s = Some s'"
| decide: "race_step s s'"
    if "clUp (rcCluster s) i = Some c" "rcLock s i = Some (Loaded call)" "race_decide i call c s = Some s'"
| written: "race_step s (race_write i c s)" if "clUp (rcCluster s) i = Some c" "rcLock s i = Some Writing"
| crash: "race_step s (race_crash i s)" if "rcLock s i \<noteq> Some Writing"
| start: "race_step s s'"
    if "i \<in> broker_ids" "clUp (rcCluster s) i = None" "clDisk (rcCluster s) shared_path \<noteq> Some []" "race_start i dir s = Some s'"

section \<open>What every interleaving keeps\<close>

definition full :: "Controller \<Rightarrow> bool" where
  "full c \<longleftrightarrow> dom (map_of (leaders c)) = partitions"

fun call_ok :: "call \<Rightarrow> bool" where
  "call_ok (Claim k active) \<longleftrightarrow> k \<in> partitions"
| "call_ok (Move k l) \<longleftrightarrow> k \<in> partitions \<and> l \<in> broker_ids"

definition shared_file :: "Race \<Rightarrow> bool" where
  "shared_file s \<longleftrightarrow> file_ok (clDisk (rcCluster s))
     \<or> clDisk (rcCluster s) shared_path = Some [] \<and> (\<exists>i. rcLock s i = Some Writing)
     \<or> clDisk (rcCluster s) shared_path = None \<and> clUp (rcCluster s) = Map.empty"

definition race_ok :: "Race \<Rightarrow> bool" where
  "race_ok s \<longleftrightarrow> shared_file s
     \<and> (\<forall>i c. clUp (rcCluster s) i = Some c \<longrightarrow> member_ok (clNow (rcCluster s)) i c \<and> full c)
     \<and> (\<forall>i p. rcLock s i = Some p \<longrightarrow> i \<in> dom (clUp (rcCluster s)) \<and> (\<forall>call. p = Loaded call \<longrightarrow> call_ok call))
     \<and> (\<forall>i ks active. rcRound s i = Some (ks, active) \<longrightarrow> fst ` set ks \<subseteq> partitions)"

text \<open>The file has the same length whoever leads, so that a write on top of another leaves nothing of it.\<close>

lemma full_table:
  assumes "wf_map m" "table (map_of m)" "dom (map_of m) = partitions"
  obtains a b where "m = [(''test-0'', a), (''test-1'', b)] \<or> m = [(''test-1'', b), (''test-0'', a)]" "a \<in> broker_ids" "b \<in> broker_ids"
proof -
  have d: "distinct (map fst m)" "set (map fst m) = {''test-0'', ''test-1''}"
    using assms(1,3) by (auto simp: wf_map_def dom_map_of_conv_image_fst partitions_def)
  then have "length m = 2" using distinct_card [OF d(1)] by simp
  then obtain x y where m: "m = [x, y]" by (auto simp: numeral_2_eq_2 length_Suc_conv)
  have "n \<in> broker_ids" if "(k, n) \<in> set m" for k n
    using map_of_is_SomeI [OF d(1) that] assms(2) by (auto simp: table_def ran_def)
  then have "snd x \<in> broker_ids" "snd y \<in> broker_ids" using m by (cases x; cases y; auto)+
  moreover have "fst x = ''test-0'' \<and> fst y = ''test-1'' \<or> fst x = ''test-1'' \<and> fst y = ''test-0''" using d m by (auto simp: doubleton_eq_iff)
  ultimately show thesis using that [of "snd x" "snd y"] that [of "snd y" "snd x"] m by (cases x; cases y) auto
qed

lemma leaders_json_length:
  assumes "wf_map m" "table (map_of m)" "dom (map_of m) = partitions"
  shows "length (leaders_json (Some m)) = 24"
proof -
  obtain a b where m: "m = [(''test-0'', a), (''test-1'', b)] \<or> m = [(''test-1'', b), (''test-0'', a)]" "a \<in> broker_ids" "b \<in> broker_ids"
    by (rule full_table [OF assms])
  have "length (itoa 0) = 1" "length (itoa 1) = 1" "length (itoa 2) = 1" by code_simp+
  then have "length (itoa a) = 1" "length (itoa b) = 1" using m(2,3) unfolding broker_ids_def by blast+
  moreover have "length (quote ''test-0'') = 8" "length (quote ''test-1'') = 8" by code_simp+
  ultimately show ?thesis using m(1) by (auto simp: leaders_json_def enc_object_def)
qed

lemma full_file: "member_ok now i c \<Longrightarrow> full c \<Longrightarrow> on_file shared_path (leaders c) d \<Longrightarrow> file_ok d"
  by (auto simp: file_ok_def member_ok_def full_def)

lemma write_race:
  assumes "member_ok now i c" "full c" "file_ok d \<or> d shared_path = Some []"
  shows "file_ok (writeLeaders c d)"
proof -
  have c: "wf_controller c" "ctLeadersPath c = shared_path" "table (map_of (leaders c))" using assms(1) by (simp_all add: member_ok_def)
  then have wf: "wf_map (leaders c)" "ctLeaders c = Some (leaders c)" by (simp_all add: wf_controller_def)
  let ?out = "bytes_of (leaders_json (Some (leaders c)))"
  have len: "length ?out = 24" using leaders_json_length [OF wf(1) c(3)] assms(2) by (simp add: full_def)
  obtain old where old: "d shared_path = Some old" "length old = 24 \<or> old = []"
    using assms(3) leaders_json_length by (auto simp: file_ok_def on_file_def)
  then have "drop (length ?out) old = []" using len by auto
  then have "writeLeaders c d = d(shared_path \<mapsto> ?out)" using old(1) by (simp add: writeLeaders_def c(2) wf(2) Let_def)
  then have "on_file shared_path (leaders c) (writeLeaders c d)" using wf(1) by (simp add: on_file_def)
  then show ?thesis by (rule full_file [OF assms(1,2)])
qed

lemma load_race:
  assumes "member_ok now i c" "full c" "file_ok d \<or> d shared_path = Some []"
  obtains c' where "loadLeaders None flt (c, d) = Some (c', d)" "member_ok now i c'" "full c'"
  using assms(3)
proof
  assume f: "file_ok d"
  have c: "wf_controller c" "ctLeadersPath c = shared_path" using assms(1) by (simp_all add: member_ok_def)
  obtain c' where c': "loadLeaders None flt (c, d) = Some (c', d)" "member_ok now i c'" by (rule load_member [OF assms(1) f])
  have "full c'" using load_reads(1) [OF c'(1) c f] c'(2) by (auto simp: full_def member_ok_def table_def)
  with c' show thesis by (rule that)
next
  assume "d shared_path = Some []"
  moreover have "json_first [] = None" by code_simp
  ultimately have "loadLeaders None flt (c, d) = Some (c, d)"
    using assms(1) by (simp add: loadLeaders_def member_ok_def decode_leaders_def string_of_def)
  then show thesis using assms(1,2) by (rule that)
qed

lemma set_race:
  assumes "member_ok now i c" "full c" "k \<in> partitions" "l \<in> broker_ids"
  obtains c' where "setLeader k l c = Some c'" "member_ok now i c'" "full c'"
proof -
  have "partitions \<subseteq> insert k (dom (map_of (leaders c)))" using assms(2) by (auto simp: full_def)
  then obtain c' where "setLeader k l c = Some c'" "member_ok now i c'" "map_of (leaders c') = (map_of (leaders c))(k \<mapsto> l)"
    using save_member [OF assms(1,3,4)] by metis
  moreover from this(3) have "full c'" using assms(2,3) by (auto simp: full_def)
  ultimately show thesis by (intro that)
qed

lemma member_path: "member_ok now i c \<Longrightarrow> ctLeadersPath c = shared_path"
  by (simp add: member_ok_def)

lemma race_up:
  assumes "race_ok s" "clUp (rcCluster s) i = Some c"
  shows "member_ok (clNow (rcCluster s)) i c" "full c"
    "file_ok (clDisk (rcCluster s)) \<or> clDisk (rcCluster s) shared_path = Some []"
  using assms by (auto simp: race_ok_def shared_file_def)

text \<open>A step of one broker that changes its cache, its place and perhaps the file.\<close>

lemma race_ok_upd:
  assumes "race_ok s" "member_ok (clNow (rcCluster s)) i c" "full c" "\<And>call. p = Some (Loaded call) \<Longrightarrow> call_ok call"
    and "shared_file (s\<lparr>rcCluster := keep_round i (rcCluster s) (c, d), rcLock := (rcLock s)(i := p)\<rparr>)"
  shows "race_ok (s\<lparr>rcCluster := keep_round i (rcCluster s) (c, d), rcLock := (rcLock s)(i := p)\<rparr>)"
  using assms by (auto simp: race_ok_def keep_round_def)

lemma load_keeps_file:
  assumes "race_ok s" "clUp (rcCluster s) i = Some c0" "rcLock s i \<noteq> Some Writing" "p \<noteq> Some Writing"
  shows "shared_file (s\<lparr>rcCluster := keep_round i (rcCluster s) (c, clDisk (rcCluster s)), rcLock := (rcLock s)(i := p)\<rparr>)"
proof (cases "file_ok (clDisk (rcCluster s))")
  case False
  then obtain j where "clDisk (rcCluster s) shared_path = Some []" "rcLock s j = Some Writing"
    using assms(1,2) by (auto simp: race_ok_def shared_file_def)
  then show ?thesis using assms(3) by (auto simp: shared_file_def keep_round_def)
qed (simp add: shared_file_def keep_round_def)

lemma race_load_ok:
  assumes "race_ok s" "clUp (rcCluster s) i = Some c" "rcLock s i = None" "call_ok call"
  obtains s' where "race_load i call c s = Some s'" "race_ok s'"
proof -
  note up = race_up [OF assms(1,2)]
  obtain c' where c': "loadLeaders None no_save_faults (c, clDisk (rcCluster s)) = Some (c', clDisk (rcCluster s))"
      "member_ok (clNow (rcCluster s)) i c'" "full c'"
    by (rule load_race [OF up])
  have "race_ok (s\<lparr>rcCluster := keep_round i (rcCluster s) (c', clDisk (rcCluster s)), rcLock := (rcLock s)(i := Some (Loaded call))\<rparr>)"
    by (rule race_ok_upd [OF assms(1) c'(2,3) _ load_keeps_file [OF assms(1,2)]]) (use assms(3,4) in simp_all)
  then show thesis using that c'(1) by (simp add: race_load_def)
qed

lemma race_decide_ok:
  assumes "race_ok s" "clUp (rcCluster s) i = Some c" "rcLock s i = Some (Loaded call)"
  obtains s' where "race_decide i call c s = Some s'" "race_ok s'"
proof -
  note up = race_up [OF assms(1,2)]
  have id: "ctBrokerID c = i" "i \<in> broker_ids" using up(1) by (simp_all add: member_ok_def)
  have "call_ok call" using assms(1,3) by (auto simp: race_ok_def)
  then obtain k l where kl: "k \<in> partitions" "l \<in> broker_ids"
      "(case call of Claim k active \<Rightarrow> claimLoaded (clNow (rcCluster s)) k active c | Move k l \<Rightarrow> moveLoaded k l c)
         \<in> {Some None, map_option Some (setLeader k l c)}"
    using id by (cases call) (auto simp: claimLoaded_def moveLoaded_def Let_def)
  obtain c' where c': "setLeader k l c = Some c'" "member_ok (clNow (rcCluster s)) i c'" "full c'" by (rule set_race [OF up(1,2) kl(1,2)])
  have "race_ok (s\<lparr>rcCluster := keep_round i (rcCluster s) (c, clDisk (rcCluster s)), rcLock := (rcLock s)(i := None)\<rparr>)"
    by (rule race_ok_upd [OF assms(1) up(1,2) _ load_keeps_file [OF assms(1,2)]]) (use assms(3) in simp_all)
  moreover have "keep_round i (rcCluster s) (c, clDisk (rcCluster s)) = rcCluster s"
    using assms(2) by (simp add: keep_round_def fun_upd_idem)
  ultimately have release: "race_ok (s\<lparr>rcLock := (rcLock s)(i := None)\<rparr>)" by simp
  have "race_ok (s\<lparr>rcCluster := keep_round i (rcCluster s) (c', truncateLeaders c' (clDisk (rcCluster s))), rcLock := (rcLock s)(i \<mapsto> Writing)\<rparr>)"
    by (rule race_ok_upd [OF assms(1) c'(2,3)])
      (auto simp: shared_file_def keep_round_def truncateLeaders_def member_path [OF c'(2)])
  then show thesis using that kl(3) release c'(1) by (auto simp: race_decide_def)
qed

lemma race_write_ok:
  assumes "race_ok s" "clUp (rcCluster s) i = Some c"
  shows "race_ok (race_write i c s)"
  unfolding race_write_def using write_race [OF race_up [OF assms]]
  by (intro race_ok_upd [OF assms(1) race_up(1,2) [OF assms]]) (simp_all add: shared_file_def keep_round_def)

lemma new_full:
  assumes "i \<in> broker_ids" "file_ok d"
  obtains c where "loadLeaders None no_save_faults (NewController True i dir, d) = Some (c, d)" "member_ok now i c" "full c"
proof -
  let ?n = "NewController True i dir"
  note n = new_member [OF assms(1), of now dir]
  have w: "wf_controller ?n" "ctLeadersPath ?n = shared_path" using n by (simp_all add: member_ok_def)
  obtain c where c: "loadLeaders None no_save_faults (?n, d) = Some (c, d)" "member_ok now i c" by (rule load_member [OF n assms(2)])
  have "full c" using load_reads(1) [OF c(1) w assms(2)] c(2) by (auto simp: full_def member_ok_def table_def)
  with c show thesis by (rule that)
qed

lemma first_full:
  assumes "i \<in> broker_ids"
  obtains c0 c where "setLeader ''test-0'' 0 (NewController True i dir) = Some c0" "setLeader ''test-1'' 1 c0 = Some c" "member_ok now i c" "full c"
proof -
  note n = new_member [OF assms, of now dir]
  have k: "''test-0'' \<in> partitions" "''test-1'' \<in> partitions" "0 \<in> broker_ids" "1 \<in> broker_ids" by (simp_all add: partitions_def broker_ids_def)
  obtain c0 where c0: "setLeader ''test-0'' 0 (NewController True i dir) = Some c0"
    by (simp add: setLeader_def NewController_def Let_def)
  then have l0: "leaders c0 = [(''test-0'', 0)]" "member_ok now i c0"
    using n by (auto simp: setLeader_def NewController_def Let_def member_ok_def wf_controller_def wf_map_def ascii_def in_int64_def leaders_def
        table_def partitions_def broker_ids_def)
  then have "partitions \<subseteq> insert ''test-1'' (dom (map_of (leaders c0)))" by (auto simp: partitions_def)
  then obtain c where c: "setLeader ''test-1'' 1 c0 = Some c" "member_ok now i c" "map_of (leaders c) = (map_of (leaders c0))(''test-1'' \<mapsto> 1)"
    using save_member [OF l0(2) k(2,4)] by metis
  from c(3) have "full c" using l0(1) by (auto simp: full_def partitions_def)
  with c0 c(1,2) show thesis by (rule that)
qed

lemma race_start_ok:
  assumes "race_ok s" "i \<in> broker_ids" "clUp (rcCluster s) i = None" "clDisk (rcCluster s) shared_path \<noteq> Some []"
  obtains s' where "race_start i dir s = Some s'" "race_ok s'"
proof (cases "clDisk (rcCluster s) shared_path")
  case None
  obtain c0 c where c: "setLeader ''test-0'' 0 (NewController True i dir) = Some c0" "setLeader ''test-1'' 1 c0 = Some c"
      "member_ok (clNow (rcCluster s)) i c" "full c"
    by (rule first_full [OF assms(2)])
  have "race_ok (s\<lparr>rcCluster := keep_round i (rcCluster s) (c, truncateLeaders c (clDisk (rcCluster s))), rcLock := (rcLock s)(i \<mapsto> Writing)\<rparr>)"
    by (rule race_ok_upd [OF assms(1) c(3,4)])
      (auto simp: shared_file_def keep_round_def truncateLeaders_def member_path [OF c(3)])
  then show thesis using that c(1,2) None member_path [OF new_member [OF assms(2), of 0 dir]] by (simp add: race_start_def Let_def)
next
  case (Some bs)
  then have f: "file_ok (clDisk (rcCluster s))" using assms(1,4) by (auto simp: race_ok_def shared_file_def)
  obtain c where c: "loadLeaders None no_save_faults (NewController True i dir, clDisk (rcCluster s)) = Some (c, clDisk (rcCluster s))"
      "member_ok (clNow (rcCluster s)) i c" "full c"
    by (rule new_full [OF assms(2) f])
  have "rcLock s i = None" using assms(1,3) by (cases "rcLock s i") (auto simp: race_ok_def)
  then have "(rcLock s)(i := None) = rcLock s" by auto
  moreover have "race_ok (s\<lparr>rcCluster := keep_round i (rcCluster s) (c, clDisk (rcCluster s)), rcLock := (rcLock s)(i := None)\<rparr>)"
    by (rule race_ok_upd [OF assms(1) c(2,3)]) (use f in \<open>simp_all add: shared_file_def keep_round_def\<close>)
  ultimately have "race_ok (s\<lparr>rcCluster := keep_round i (rcCluster s) (c, clDisk (rcCluster s))\<rparr>)" by simp
  then show thesis using that c(1) Some member_path [OF new_member [OF assms(2), of 0 dir]] by (simp add: race_start_def Let_def)
qed

lemma race_crash_ok:
  assumes "race_ok s" "rcLock s i \<noteq> Some Writing"
  shows "race_ok (race_crash i s)"
proof -
  have "shared_file (race_crash i s)"
    using assms by (auto simp: race_ok_def shared_file_def race_crash_def crash_def)
  then show ?thesis using assms(1) by (auto simp: race_ok_def race_crash_def crash_def)
qed

lemma race_heartbeat_ok:
  assumes "race_ok s"
  shows "race_ok (s\<lparr>rcCluster := heartbeat_arrives i j (rcCluster s)\<rparr>)"
proof (cases "clUp (rcCluster s) i = None \<or> clUp (rcCluster s) j = None")
  case True
  then have "heartbeat_arrives i j (rcCluster s) = rcCluster s" by (auto simp: heartbeat_arrives_def split: option.splits)
  then show ?thesis using assms by simp
next
  case False
  then obtain ci cj where up: "clUp (rcCluster s) i = Some ci" "clUp (rcCluster s) j = Some cj" by auto
  note mi = race_up(1) [OF assms up(1)] and mj = race_up(1,2) [OF assms up(2)]
  have ids: "i \<in> broker_ids" "j \<in> broker_ids" using mi mj(1) by (simp_all add: member_ok_def)
  let ?c = "cj\<lparr>ctActiveNodes := AList.update i (clNow (rcCluster s)) (ctActiveNodes cj)\<rparr>"
  have "heartbeat_arrives i j (rcCluster s) = (rcCluster s)\<lparr>clUp := (clUp (rcCluster s))(j \<mapsto> ?c)\<rparr>"
    using heartbeat_message [OF mi ids(2)] up broker_ids_int64 [OF ids(1)]
    by (simp add: heartbeat_arrives_def heartbeat_seen del: heartbeat_read.simps)
  then have "s\<lparr>rcCluster := heartbeat_arrives i j (rcCluster s)\<rparr>
      = s\<lparr>rcCluster := keep_round j (rcCluster s) (?c, clDisk (rcCluster s)), rcLock := (rcLock s)(j := rcLock s j)\<rparr>"
    by (simp add: keep_round_def fun_upd_idem)
  also have "race_ok \<dots>"
  proof (rule race_ok_upd [OF assms seen_member [OF mj(1) ids(1)]])
    show "full ?c" using mj(2) by (simp add: full_def leaders_def)
    show "shared_file (s\<lparr>rcCluster := keep_round j (rcCluster s) (?c, clDisk (rcCluster s)), rcLock := (rcLock s)(j := rcLock s j)\<rparr>)"
      using assms up(2) by (auto simp: race_ok_def shared_file_def keep_round_def fun_upd_idem)
  qed (use assms in \<open>auto simp: race_ok_def\<close>)
  finally show ?thesis .
qed

lemma race_round_ok:
  "race_ok s \<Longrightarrow> (\<And>ks active. r = Some (ks, active) \<Longrightarrow> fst ` set ks \<subseteq> partitions) \<Longrightarrow> race_ok (s\<lparr>rcRound := (rcRound s)(i := r)\<rparr>)"
  by (auto simp: race_ok_def shared_file_def)

lemma race_step_ok: "race_step s s' \<Longrightarrow> race_ok s \<Longrightarrow> race_ok s'"
proof (induction rule: race_step.induct)
  case (time dt s)
  then have "member_ok (clNow (rcCluster s) + dt) i c" if "member_ok (clNow (rcCluster s)) i c" for i c using member_ok_later [OF that] by simp
  with time show ?case by (auto simp: race_ok_def shared_file_def)
next
  case (heartbeat s j i)
  then show ?case by (intro race_heartbeat_ok)
next
  case (round s i c)
  have "fst ` set (leaders c) \<subseteq> partitions"
    using race_up(2) [OF round(4,1)] by (simp add: full_def dom_map_of_conv_image_fst)
  with round show ?case by (intro race_round_ok) auto
next
  case (skip s i k l ks active)
  then have "fst ` set ((k, l) # ks) \<subseteq> partitions" unfolding race_ok_def by blast
  with skip show ?case by (intro race_round_ok) auto
next
  case (claim s i k l ks active c s')
  let ?s = "s\<lparr>rcRound := (rcRound s)(i \<mapsto> (ks, active))\<rparr>"
  have k: "fst ` set ((k, l) # ks) \<subseteq> partitions" using claim(1,6) unfolding race_ok_def by blast
  then have "race_ok ?s" using claim(6) by (intro race_round_ok) auto
  then show ?case using race_load_ok [of ?s i c "Claim k active"] claim(3-5) k by auto
next
  case (finish s i active)
  then show ?case by (intro race_round_ok) auto
next
  case (move s i c produced rb s')
  have "ctBrokerID c = i" "i \<in> broker_ids" using race_up(1) [OF move(5,1)] by (simp_all add: member_ok_def)
  then have "call_ok (Move ''test-0'' (go_mod (ctBrokerID c + 1) 3))" by (auto simp: partitions_def broker_ids_def go_mod_def)
  then obtain s'' where "race_load i (Move ''test-0'' (go_mod (ctBrokerID c + 1) 3)) c s = Some s''" "race_ok s''"
    by (rule race_load_ok [OF move(5,1,2)])
  then show ?case using move(4) by simp
next
  case (decide s i c call s')
  then show ?case using race_decide_ok [OF decide(4,1,2)] by auto
next
  case (written s i c)
  then show ?case by (intro race_write_ok)
next
  case (crash s i)
  then show ?case by (intro race_crash_ok)
next
  case (start i s dir s')
  then show ?case using race_start_ok [OF start(5,1-3), of dir] by auto
qed

interpretation race: guarded_steps race_step race_ok
  by unfold_locales (rule race_step_ok)

lemma race_init_ok: "race_ok (race_init now)"
  by (simp add: race_ok_def shared_file_def race_init_def cluster_init_def)

section \<open>An empty file\<close>

text \<open>A broker that is started while the file is empty, because another one is at its write or was killed there, has an empty cache. It never takes a
  partition over, whoever is dead, and the file stays empty.\<close>

lemma empty_file_disables_failover:
  assumes "clDisk s shared_path = Some []" "clUp s i = None"
  obtains s' c where "start_broker i dir s = Some s'" "clUp s' i = Some c" "leaders c = []" "clDisk s' = clDisk s"
    "\<And>dt. failover_round i (s'\<lparr>clNow := clNow s' + dt\<rparr>) = Some (s'\<lparr>clNow := clNow s' + dt\<rparr>)"
proof -
  let ?n = "NewController True i dir"
  have n: "ctLeadersPath ?n = shared_path" "leaders ?n = []" "ctLeaders ?n = Some []"
    by (simp_all add: NewController_def shared_path_def leaders_def)
  have "json_first [] = None" by code_simp
  then have load: "ControllerStart None no_save_faults (?n, clDisk s) = Some (?n, clDisk s)"
    using assms(1) n by (simp add: ControllerStart_def loadLeaders_def decode_leaders_def string_of_def)
  show thesis
  proof (rule that)
    show "start_broker i dir s = Some (keep_round i s (?n, clDisk s))" using assms(2) load by (simp add: start_broker_def)
    show "failover_round i ((keep_round i s (?n, clDisk s))\<lparr>clNow := clNow (keep_round i s (?n, clDisk s)) + dt\<rparr>)
        = Some ((keep_round i s (?n, clDisk s))\<lparr>clNow := clNow (keep_round i s (?n, clDisk s)) + dt\<rparr>)" for dt
      using n(2) by (simp add: failover_round_def keep_round_def checkFailover_def fun_upd_idem)
    show "leaders ?n = []" by (rule n(2))
  qed (simp_all add: keep_round_def)
qed

section \<open>A concrete cluster\<close>

text \<open>A broker and a file with the leaders \<open>a\<close> and \<open>b\<close>.\<close>

definition ctl :: "int \<Rightarrow> int \<Rightarrow> int \<Rightarrow> (int \<times> int) list \<Rightarrow> Controller" where
  "ctl i a b act = \<lparr>ctBrokerID = i, ctLeadersPath = shared_path, ctLeaders = Some [(''test-0'', a), (''test-1'', b)], ctActiveNodes = act\<rparr>"

definition led_by :: "int \<Rightarrow> int \<Rightarrow> disk" where
  "led_by a b = [shared_path \<mapsto> bytes_of (leaders_json (Some [(''test-0'', a), (''test-1'', b)]))]"

lemma ctl_simps [simp]:
  "leaders (ctl i a b act) = [(''test-0'', a), (''test-1'', b)]" "ctBrokerID (ctl i a b act) = i" "ctActiveNodes (ctl i a b act) = act"
  "setLeader ''test-0'' l (ctl i a b act) = Some (ctl i l b act)" "setLeader ''test-1'' l (ctl i a b act) = Some (ctl i a l act)"
  "truncateLeaders (ctl i a b act) (led_by x y) = [shared_path \<mapsto> []]"
  "writeLeaders (ctl i a b act) [shared_path \<mapsto> []] = led_by a b"
  by (simp_all add: ctl_def leaders_def setLeader_def truncateLeaders_def writeLeaders_def led_by_def Let_def)

lemma decode_two:
  assumes "in_int64 a" "in_int64 b"
  shows "decode_leaders (leaders_json (Some [(''test-0'', a), (''test-1'', b)])) (Some m)
    = Some (AList.update ''test-1'' b (AList.update ''test-0'' a m))"
proof -
  have "json_first (leaders_json (Some [(''test-0'', a), (''test-1'', b)])) = Some (JObj [(''test-0'', JNum (itoa a)), (''test-1'', JNum (itoa b))])"
    using json_first_ints [of "[(''test-0'', a), (''test-1'', b)]" "[CHR 0x0A]"] by (simp add: leaders_json_def ascii_def)
  then show ?thesis using assms by (simp add: decode_leaders_def decode_member_def)
qed

lemma load_ctl:
  assumes "a \<in> broker_ids" "b \<in> broker_ids"
  shows "loadLeaders None flt (ctl i x y act, led_by a b) = Some (ctl i a b act, led_by a b)"
    and "loadLeaders None flt (NewController True i dir, led_by a b) = Some (ctl i a b [], led_by a b)"
  using assms by (simp_all add: loadLeaders_def ctl_def led_by_def decode_two broker_ids_int64 NewController_def shared_path_def)

definition rs :: "int \<Rightarrow> (int \<rightharpoonup> Controller) \<Rightarrow> disk \<Rightarrow> (int \<rightharpoonup> place) \<Rightarrow> (int \<rightharpoonup> (string \<times> int) list \<times> (int \<times> int) list) \<Rightarrow> Race" where
  "rs now up d lock rounds = \<lparr>rcCluster = \<lparr>clNow = now, clUp = up, clDisk = d\<rparr>, rcLock = lock, rcRound = rounds\<rparr>"

lemma led_by_nonempty: "led_by a b shared_path \<noteq> Some []"
  by (simp add: led_by_def leaders_json_def bytes_of_def)

lemma rs_start:
  assumes "i \<in> broker_ids" "up i = None"
  shows "race_step (rs now up Map.empty lock rounds) (rs now (up(i \<mapsto> ctl i 0 1 [])) [shared_path \<mapsto> []] (lock(i \<mapsto> Writing)) rounds)"
    and "a \<in> broker_ids \<Longrightarrow> b \<in> broker_ids \<Longrightarrow> race_step (rs now up (led_by a b) lock rounds) (rs now (up(i \<mapsto> ctl i a b [])) (led_by a b) lock rounds)"
proof -
  have path: "ctLeadersPath (NewController True i []) = shared_path" by (simp add: NewController_def shared_path_def)
  have "race_start i [] (rs now up Map.empty lock rounds)
      = Some (rs now (up(i \<mapsto> ctl i 0 1 [])) [shared_path \<mapsto> []] (lock(i \<mapsto> Writing)) rounds)"
    by (simp add: race_start_def rs_def NewController_def setLeader_def keep_round_def truncateLeaders_def ctl_def shared_path_def Let_def)
  then show "race_step (rs now up Map.empty lock rounds) (rs now (up(i \<mapsto> ctl i 0 1 [])) [shared_path \<mapsto> []] (lock(i \<mapsto> Writing)) rounds)"
    using assms by (intro race_step.start [of i _ "[]"]) (simp_all add: rs_def)
  assume ab: "a \<in> broker_ids" "b \<in> broker_ids"
  have "race_start i [] (rs now up (led_by a b) lock rounds) = Some (rs now (up(i \<mapsto> ctl i a b [])) (led_by a b) lock rounds)"
    using load_ctl(2) [OF ab] by (simp add: race_start_def rs_def path Let_def) (simp add: led_by_def keep_round_def)
  then show "race_step (rs now up (led_by a b) lock rounds) (rs now (up(i \<mapsto> ctl i a b [])) (led_by a b) lock rounds)"
    using assms led_by_nonempty by (intro race_step.start [of i _ "[]"]) (simp_all add: rs_def)
qed

lemma rs_write:
  assumes "up i = Some (ctl i a b act)" "lock i = Some Writing"
  shows "race_step (rs now up [shared_path \<mapsto> []] lock rounds) (rs now up (led_by a b) (lock(i := None)) rounds)"
  using race_step.written [of "rs now up [shared_path \<mapsto> []] lock rounds" i "ctl i a b act"] assms
  by (simp add: rs_def race_write_def keep_round_def fun_upd_idem)

lemma rs_move:
  assumes "up i = Some (ctl i x y act)" "lock i = None" "a \<in> broker_ids" "b \<in> broker_ids"
  shows "race_step (rs now up (led_by a b) lock rounds)
    (rs now (up(i \<mapsto> ctl i a b act)) (led_by a b) (lock(i \<mapsto> Loaded (Move ''test-0'' (go_mod (i + 1) 3)))) rounds)"
  using race_step.move [of "rs now up (led_by a b) lock rounds" i "ctl i x y act" "NewRebalancer 1 0" 1] load_ctl(1) [OF assms(3,4)] assms(1,2)
  by (simp add: rs_def race_load_def keep_round_def NewRebalancer_def)

lemma rs_moved:
  assumes "up i = Some (ctl i a b act)" "lock i = Some (Loaded (Move ''test-0'' l))" "a \<noteq> l"
  shows "race_step (rs now up (led_by x y) lock rounds) (rs now (up(i \<mapsto> ctl i l b act)) [shared_path \<mapsto> []] (lock(i \<mapsto> Writing)) rounds)"
  using race_step.decide [of "rs now up (led_by x y) lock rounds" i "ctl i a b act" "Move ''test-0'' l"] assms
  by (simp add: rs_def race_decide_def moveLoaded_def keep_round_def)

lemma rs_claim:
  assumes "up i = Some (ctl i x y act)" "lock i = None" "a \<in> broker_ids" "b \<in> broker_ids"
    and "rounds i = Some ((k, l) # ks, active)" "suspected now i active l"
  shows "race_step (rs now up (led_by a b) lock rounds)
    (rs now (up(i \<mapsto> ctl i a b act)) (led_by a b) (lock(i \<mapsto> Loaded (Claim k active))) (rounds(i \<mapsto> (ks, active))))"
  using race_step.claim [of "rs now up (led_by a b) lock rounds" i k l ks active "ctl i x y act"] load_ctl(1) [OF assms(3,4)] assms
  by (simp add: rs_def race_load_def keep_round_def)

lemma rs_claimed:
  assumes "up i = Some (ctl i a b act)" "lock i = Some (Loaded (Claim ''test-1'' active))" "\<not> alive now active b"
  shows "race_step (rs now up (led_by x y) lock rounds) (rs now (up(i \<mapsto> ctl i a i act)) [shared_path \<mapsto> []] (lock(i \<mapsto> Writing)) rounds)"
  using race_step.decide [of "rs now up (led_by x y) lock rounds" i "ctl i a b act" "Claim ''test-1'' active"] assms
  by (simp add: rs_def race_decide_def claimLoaded_def keep_round_def)

lemma rs_others:
  "0 \<le> dt \<Longrightarrow> race_step (rs now up d lock rounds) (rs (now + dt) up d lock rounds)"
  "lock i \<noteq> Some Writing \<Longrightarrow> race_step (rs now up d lock rounds) (rs now (up(i := None)) d (lock(i := None)) (rounds(i := None)))"
  "up i = Some c \<Longrightarrow> lock i = None \<Longrightarrow> rounds i = None \<Longrightarrow>
     race_step (rs now up d lock rounds) (rs now up d lock (rounds(i \<mapsto> (leaders c, view now c))))"
  "rounds i = Some ((k, l) # ks, active) \<Longrightarrow> \<not> suspected now i active l \<Longrightarrow>
     race_step (rs now up d lock rounds) (rs now up d lock (rounds(i \<mapsto> (ks, active))))"
  using race_step.time [of dt "rs now up d lock rounds"] race_step.crash [of "rs now up d lock rounds" i]
    race_step.round [of "rs now up d lock rounds" i c] race_step.skip [of "rs now up d lock rounds" i k l ks active]
  by (simp_all add: rs_def race_crash_def crash_def)

lemma rs_heartbeat:
  assumes "up i = Some (ctl i x y acti)" "up j = Some (ctl j a b act)" "lock j = None" "i \<in> broker_ids" "j \<in> broker_ids"
  shows "race_step (rs now up d lock rounds) (rs now (up(j \<mapsto> ctl j a b (AList.update i now act))) d lock rounds)"
proof -
  have "map_of (sendHeartbeats (ctl i x y acti)) (''localhost:'' @ itoa (9095 + j)) = Some (itoa i)"
    using assms(5) by (auto simp: sendHeartbeats_def broker_ids_def)
  then have "heartbeat_arrives i j \<lparr>clNow = now, clUp = up, clDisk = d\<rparr>
      = \<lparr>clNow = now, clUp = up(j \<mapsto> ctl j a b (AList.update i now act)), clDisk = d\<rparr>"
    using assms(1,2) broker_ids_int64 [OF assms(4)] by (simp add: heartbeat_arrives_def heartbeat_seen ctl_def del: heartbeat_read.simps)
  then show ?thesis using race_step.heartbeat [of "rs now up d lock rounds" j i] assms(3) by (simp add: rs_def)
qed

lemma led_by_leaders:
  assumes "a \<in> broker_ids" "b \<in> broker_ids"
  shows "disk_leaders (led_by a b) = two a b"
proof -
  have "on_file shared_path [(''test-0'', a), (''test-1'', b)] (led_by a b)"
    using assms by (simp add: on_file_def led_by_def wf_map_def ascii_def broker_ids_int64)
  then show ?thesis by (subst disk_leaders_on_file) (auto simp: two_def fun_eq_iff)
qed

text \<open>Broker 1 has given \<^verbatim>\<open>test-0\<close> to broker 2 and is gone; the others have started, the lease is over, and broker 0 has heard broker 2.\<close>

lemma before_the_race:
  fixes t :: int
  defines "t \<equiv> lease + 1"
  obtains up lock rounds where "race_step\<^sup>*\<^sup>* (race_init 0) (rs t up (led_by 2 1) lock rounds)"
    "up 0 = Some (ctl 0 2 1 [(2, t)])" "up 1 = None" "up 2 = Some (ctl 2 2 1 [])" "lock = Map.empty" "rounds = Map.empty"
proof -
  have ids: "0 \<in> broker_ids" "1 \<in> broker_ids" "2 \<in> broker_ids" by (simp_all add: broker_ids_def)
  have next2: "go_mod (1 + 1) 3 = 2" by code_simp
  have init: "race_init 0 = rs 0 Map.empty Map.empty Map.empty Map.empty" by (simp add: race_init_def rs_def cluster_init_def)
  let ?run = "\<lambda>up d lock. race_step\<^sup>*\<^sup>* (race_init 0) (rs 0 up d lock Map.empty)"
  note then_step = rtranclp.rtrancl_into_rtrancl [of race_step]
  have "?run Map.empty Map.empty Map.empty" unfolding init by simp
  from then_step [OF this rs_start(1) [OF ids(2)]] have "?run [1 \<mapsto> ctl 1 0 1 []] [shared_path \<mapsto> []] [1 \<mapsto> Writing]" by simp
  from then_step [OF this rs_write [of _ 1 0 1 "[]"]] have "?run [1 \<mapsto> ctl 1 0 1 []] (led_by 0 1) Map.empty" by simp
  from then_step [OF this rs_move [of _ 1 0 1 "[]"]] have "?run [1 \<mapsto> ctl 1 0 1 []] (led_by 0 1) [1 \<mapsto> Loaded (Move ''test-0'' 2)]"
    using ids next2 by simp
  from then_step [OF this rs_moved [of _ 1 0 1 "[]" _ 2]] have "?run [1 \<mapsto> ctl 1 2 1 []] [shared_path \<mapsto> []] [1 \<mapsto> Writing]" by simp
  from then_step [OF this rs_write [of _ 1 2 1 "[]"]] have "?run [1 \<mapsto> ctl 1 2 1 []] (led_by 2 1) Map.empty" by simp
  from then_step [OF this rs_others(2) [of _ 1]] have "?run Map.empty (led_by 2 1) Map.empty" by simp
  from then_step [OF this rs_start(2) [OF ids(1)]] have "?run [0 \<mapsto> ctl 0 2 1 []] (led_by 2 1) Map.empty" using ids by simp
  from then_step [OF this rs_start(2) [OF ids(3)]] have "?run [0 \<mapsto> ctl 0 2 1 [], 2 \<mapsto> ctl 2 2 1 []] (led_by 2 1) Map.empty" using ids by simp
  from then_step [OF this rs_others(1) [of t]]
  have "race_step\<^sup>*\<^sup>* (race_init 0) (rs t [0 \<mapsto> ctl 0 2 1 [], 2 \<mapsto> ctl 2 2 1 []] (led_by 2 1) Map.empty Map.empty)"
    by (simp add: t_def lease_def)
  from then_step [OF this rs_heartbeat [of _ 2 2 1 "[]" 0 2 1 "[]"]]
  have "race_step\<^sup>*\<^sup>* (race_init 0) (rs t [0 \<mapsto> ctl 0 2 1 [(2, t)], 2 \<mapsto> ctl 2 2 1 []] (led_by 2 1) Map.empty Map.empty)"
    using ids by (simp add: fun_upd_twist)
  then show thesis by (rule that) simp_all
qed

text \<open>Broker 2 reads the file for a move, and then broker 0 takes \<^verbatim>\<open>test-1\<close> over.\<close>

lemma during_the_race:
  fixes t :: int
  defines "t \<equiv> lease + 1"
  obtains up rounds where "race_step\<^sup>*\<^sup>* (race_init 0) (rs t up (led_by 2 0) [2 \<mapsto> Loaded (Move ''test-0'' 0)] rounds)"
    "up 0 = Some (ctl 0 2 0 [(2, t)])" "up 1 = None" "up 2 = Some (ctl 2 2 1 [])"
proof -
  have ids: "0 \<in> broker_ids" "1 \<in> broker_ids" "2 \<in> broker_ids" by (simp_all add: broker_ids_def)
  have next0: "go_mod (2 + 1) 3 = 0" by code_simp
  let ?act = "[(2, t), (0, t)]"
  obtain up lock rounds where run: "race_step\<^sup>*\<^sup>* (race_init 0) (rs t up (led_by 2 1) lock rounds)"
    and up: "up 0 = Some (ctl 0 2 1 [(2, t)])" "up 1 = None" "up 2 = Some (ctl 2 2 1 [])" and free: "lock = Map.empty" "rounds = Map.empty"
    unfolding t_def by (rule before_the_race)
  note then_step = rtranclp.rtrancl_into_rtrancl [of race_step]
  have sus: "\<not> suspected t 0 ?act 2" "suspected t 0 ?act 1" "\<not> alive t ?act 1"
    by (simp_all add: suspected_def alive_def lowestActive_def t_def lease_def)
  let ?run = "\<lambda>up d lock rounds. race_step\<^sup>*\<^sup>* (race_init 0) (rs t up d lock rounds)"
  from then_step [OF run rs_others(3) [of _ 0]]
  have "?run up (led_by 2 1) Map.empty [0 \<mapsto> ([(''test-0'', 2), (''test-1'', 1)], ?act)]" using up free by (simp add: view_def)
  from then_step [OF this rs_others(4) [of _ 0]] have "?run up (led_by 2 1) Map.empty [0 \<mapsto> ([(''test-1'', 1)], ?act)]" using sus(1) by simp
  from then_step [OF this rs_claim [of up 0 2 1 "[(2, t)]" _ 2 1]]
  have "?run up (led_by 2 1) [0 \<mapsto> Loaded (Claim ''test-1'' ?act)] [0 \<mapsto> ([], ?act)]" using ids sus(2) up(1) by (simp add: fun_upd_idem)
  from then_step [OF this rs_move [of up 2 2 1 "[]" _ 2 1]]
  have "?run up (led_by 2 1) [0 \<mapsto> Loaded (Claim ''test-1'' ?act), 2 \<mapsto> Loaded (Move ''test-0'' 0)] [0 \<mapsto> ([], ?act)]"
    using ids up(3) next0 by (simp add: fun_upd_idem)
  from then_step [OF this rs_claimed [of up 0 2 1 "[(2, t)]"]]
  have "?run (up(0 \<mapsto> ctl 0 2 0 [(2, t)])) [shared_path \<mapsto> []] [0 \<mapsto> Writing, 2 \<mapsto> Loaded (Move ''test-0'' 0)] [0 \<mapsto> ([], ?act)]"
    using sus(3) up(1) by (simp add: fun_upd_twist)
  from then_step [OF this rs_write [of _ 0 2 0 "[(2, t)]"]]
  have "?run (up(0 \<mapsto> ctl 0 2 0 [(2, t)])) (led_by 2 0) [2 \<mapsto> Loaded (Move ''test-0'' 0)] [0 \<mapsto> ([], ?act)]" by (simp add: fun_upd_twist)
  then show thesis by (rule that) (use up in \<open>simp_all add: t_def\<close>)
qed

section \<open>Properties\<close>

text \<open>\<^bold>\<open>C19\<close>: what interleaving cannot break. However the rounds of the brokers are interleaved on the leaders file, with any time,
  heartbeats, crashes and starts (but none between truncation and write), every broker that is up knows one of the three brokers as the leader of each partition
  of \<^verbatim>\<open>test\<close>, the file names such leaders whenever no broker is at its write, and no decision panics.\<close>

theorem interleaved_rounds_keep_leaders:
  assumes "race_step\<^sup>*\<^sup>* (race_init now) s"
  shows "(\<forall>i c. clUp (rcCluster s) i = Some c \<longrightarrow> dom (map_of (leaders c)) = {''test-0'', ''test-1''} \<and> ran (map_of (leaders c)) \<subseteq> {0, 1, 2})
    \<and> (clUp (rcCluster s) \<noteq> Map.empty \<and> (\<forall>i. rcLock s i \<noteq> Some Writing)
        \<longrightarrow> dom (file_leader (rcCluster s)) = {''test-0'', ''test-1''} \<and> ran (file_leader (rcCluster s)) \<subseteq> {0, 1, 2})
    \<and> (\<forall>i c call. clUp (rcCluster s) i = Some c \<and> rcLock s i = Some (Loaded call) \<longrightarrow> race_decide i call c s \<noteq> None)"
proof (intro conjI allI impI)
  have ok: "race_ok s" by (rule race.run_safe [OF assms race_init_ok])
  show "dom (map_of (leaders c)) = {''test-0'', ''test-1''}" "ran (map_of (leaders c)) \<subseteq> {0, 1, 2}"
    if h: "clUp (rcCluster s) i = Some c" for i c
    using race_up(1,2) [OF ok h] by (simp_all add: full_def partitions_def member_ok_def table_def broker_ids_def)
  show "race_decide i call c s \<noteq> None" if h: "clUp (rcCluster s) i = Some c \<and> rcLock s i = Some (Loaded call)" for i c call
    using race_decide_ok [OF ok conjunct1 [OF h] conjunct2 [OF h]] by (metis option.distinct(1))
  assume "clUp (rcCluster s) \<noteq> Map.empty \<and> (\<forall>i. rcLock s i \<noteq> Some Writing)"
  then have "file_ok (clDisk (rcCluster s))" using ok by (auto simp: race_ok_def shared_file_def)
  from file_ok_leader [OF this] show "dom (file_leader (rcCluster s)) = {''test-0'', ''test-1''}" "ran (file_leader (rcCluster s)) \<subseteq> {0, 1, 2}"
    by (simp_all add: partitions_def table_def broker_ids_def)
qed

theorem interleaved_rounds_keep_leaders_witness:
  "\<exists>s. race_step\<^sup>*\<^sup>* (race_init 0) s \<and> clUp (rcCluster s) 0 \<noteq> None \<and> dom (file_leader (rcCluster s)) = {''test-0'', ''test-1''}"
proof -
  obtain up lock rounds where run: "race_step\<^sup>*\<^sup>* (race_init 0) (rs (lease + 1) up (led_by 2 1) lock rounds)"
    and s: "up 0 = Some (ctl 0 2 1 [(2, lease + 1)])" "lock = Map.empty"
    by (rule before_the_race)
  let ?s = "rs (lease + 1) up (led_by 2 1) lock rounds"
  have up: "clUp (rcCluster ?s) 0 \<noteq> None" "\<forall>i. rcLock ?s i \<noteq> Some Writing" using s by (simp_all add: rs_def)
  then have "clUp (rcCluster ?s) \<noteq> Map.empty" by force
  with interleaved_rounds_keep_leaders [OF run] up(2) have "dom (file_leader (rcCluster ?s)) = {''test-0'', ''test-1''}" by blast
  with run up(1) show ?thesis by blast
qed

text \<open>\<^bold>\<open>C39\<close>: a takeover can be lost. There is a run in which broker 1, the leader of \<^verbatim>\<open>test-1\<close>, is down and broker 0 has taken the
  partition over, on file; two steps later, while broker 1 is still down, the file names it as the leader again, since the rebalancer of broker 2
  had read the file before the takeover and writes its table back. When broker 1 is started next, it and broker 0 both answer as the leader.\<close>

theorem takeover_is_overwritten:
  "\<exists>s s' s'' c0 c1. race_step\<^sup>*\<^sup>* (race_init 0) s \<and> clUp (rcCluster s) 1 = None \<and> file_leader (rcCluster s) ''test-1'' = Some 0
    \<and> (race_step ^^ 2) s s' \<and> clUp (rcCluster s') 1 = None \<and> file_leader (rcCluster s') ''test-1'' = Some 1
    \<and> race_step s' s'' \<and> clUp (rcCluster s'') 0 = Some c0 \<and> GetLeader ''test'' 1 c0 = 0
    \<and> clUp (rcCluster s'') 1 = Some c1 \<and> GetLeader ''test'' 1 c1 = 1"
proof -
  have ids: "0 \<in> broker_ids" "1 \<in> broker_ids" "2 \<in> broker_ids" by (simp_all add: broker_ids_def)
  let ?t = "lease + 1"
  obtain up rounds where run1: "race_step\<^sup>*\<^sup>* (race_init 0) (rs ?t up (led_by 2 0) [2 \<mapsto> Loaded (Move ''test-0'' 0)] rounds)"
    and up: "up 0 = Some (ctl 0 2 0 [(2, ?t)])" "up 1 = None" "up 2 = Some (ctl 2 2 1 [])"
    by (rule during_the_race)
  let ?s = "rs ?t up (led_by 2 0) [2 \<mapsto> Loaded (Move ''test-0'' 0)] rounds"
  let ?s1 = "rs ?t (up(2 \<mapsto> ctl 2 0 1 [])) [shared_path \<mapsto> []] [2 \<mapsto> Writing] rounds"
  let ?s2 = "rs ?t (up(2 \<mapsto> ctl 2 0 1 [])) (led_by 0 1) Map.empty rounds"
  have "race_step ?s ?s1" using rs_moved [of up 2 2 1 "[]" "[2 \<mapsto> Loaded (Move ''test-0'' 0)]" 0] up(3) by simp
  moreover have "race_step ?s1 ?s2" using rs_write [of "up(2 \<mapsto> ctl 2 0 1 [])" 2 0 1 "[]" "[2 \<mapsto> Writing]"] by simp
  ultimately have two_steps: "(race_step ^^ 2) ?s ?s2" by (auto simp: numeral_2_eq_2)
  have last: "race_step ?s2 (rs ?t (up(2 \<mapsto> ctl 2 0 1 [], 1 \<mapsto> ctl 1 0 1 [])) (led_by 0 1) Map.empty rounds)"
    using rs_start(2) [OF ids(2), of "up(2 \<mapsto> ctl 2 0 1 [])"] up(2) ids by simp
  have key: "partition_key ''test'' 1 = ''test-1''" by code_simp
  show ?thesis
    using run1 two_steps last ids up by (intro exI conjI) (assumption | simp add: rs_def led_by_leaders two_def GetLeader_def key)+
qed

end
